(* ===== verification/Prelude.thy ===== *)
theory Prelude
  imports Main "HOL-Library.Word" "HOL-Library.Code_Target_Numeral"
begin

text \<open>
  Shared vocabulary of the development: the types the components have in common
  (bytes, results, object identities), the few Go library operations on strings and
  byte slices that the sources call, the lemma collections that the component proofs
  feed to the simplifier, and a small theory of transition systems (reachability,
  invariants, terminal states) that every component with concurrent steps uses.

  Conventions used throughout. A Go pointer that serves as an identity (a flow, a
  window, an outbound) is a natural number and the heap part it points into is a
  partial map from those numbers. A critical section under a mutex is one operation.
  The clock, random bytes and the results of calls into the network are arguments.
\<close>

section \<open>Lemma collections\<close>

named_theorems clock_simps \<open>comparisons of clock readings\<close>
named_theorems frame_simps \<open>fields that an operation leaves alone\<close>
named_theorems op_defs \<open>definitions of operations, unfolded in invariant proofs\<close>

section \<open>Types\<close>

type_synonym byte = "8 word"
type_synonym bytes = "byte list"
type_synonym u16 = "16 word"
type_synonym u32 = "32 word"
type_synonym u64 = "64 word"

text \<open>Identities of heap objects.\<close>

type_synonym ref = nat

section \<open>Go strings\<close>

text \<open>
  A Go string is a sequence of bytes, as HOL's \<^typ>\<open>string\<close> is.
\<close>

definition has_prefix :: "string \<Rightarrow> string \<Rightarrow> bool" where
  "has_prefix s p \<longleftrightarrow> take (length p) s = p"

definition has_suffix :: "string \<Rightarrow> string \<Rightarrow> bool" where
  "has_suffix s p \<longleftrightarrow> length p \<le> length s \<and> drop (length s - length p) s = p"

definition trim_suffix :: "string \<Rightarrow> string \<Rightarrow> string" where
  "trim_suffix s p = (if has_suffix s p then take (length s - length p) s else s)"

text \<open>\<open>strings.Contains\<close>.\<close>

fun str_contains :: "string \<Rightarrow> string \<Rightarrow> bool" where
  "str_contains [] p = (p = [])"
| "str_contains (c # s) p = (has_prefix (c # s) p \<or> str_contains s p)"

text \<open>\<open>strings.Split\<close> at a one-byte separator: never empty.\<close>

fun split_on :: "char \<Rightarrow> string \<Rightarrow> string list" where
  "split_on sep [] = [[]]"
| "split_on sep (c # s) =
     (case split_on sep s of
        [] \<Rightarrow> [[c]]
      | w # ws \<Rightarrow> if c = sep then [] # w # ws else (c # w) # ws)"

text \<open>
  \<open>strings.ToLower\<close> maps the letters of an all-ASCII string itself; for any other
  string it maps every rune through the Unicode tables. The tables are not modelled:
  \<open>uni\<close> stands for that second case and no property restricts it.
\<close>

definition ascii_lower :: "char \<Rightarrow> char" where
  "ascii_lower c = (let n = (of_char c :: nat) in if 65 \<le> n \<and> n \<le> 90 then char_of (n + 32) else c)"

definition to_lower :: "(string \<Rightarrow> string) \<Rightarrow> string \<Rightarrow> string" where
  "to_lower uni s = (if list_all (\<lambda>c. (of_char c :: nat) < 128) s then map ascii_lower s else uni s)"

definition is_digit :: "char \<Rightarrow> bool" where
  "is_digit c \<longleftrightarrow> 48 \<le> (of_char c :: nat) \<and> (of_char c :: nat) \<le> 57"

definition is_lower_letter :: "char \<Rightarrow> bool" where
  "is_lower_letter c \<longleftrightarrow> 97 \<le> (of_char c :: nat) \<and> (of_char c :: nat) \<le> 122"

text \<open>The character class \<open>[a-f0-9]\<close>.\<close>

definition is_lower_hex :: "char \<Rightarrow> bool" where
  "is_lower_hex c \<longleftrightarrow> is_digit c \<or> (97 \<le> (of_char c :: nat) \<and> (of_char c :: nat) \<le> 102)"

lemma has_suffix_append [simp]: "has_suffix (s @ p) p"
  by (simp add: has_suffix_def)

lemma has_suffixE:
  assumes "has_suffix s p"
  obtains q where "s = q @ p"
  using assms by (metis append_take_drop_id has_suffix_def)

lemma has_suffix_iff: "has_suffix s p \<longleftrightarrow> (\<exists>q. s = q @ p)"
  by (metis has_suffixE has_suffix_append)

lemma split_on_nonempty [simp]: "split_on sep s \<noteq> []"
  by (induction s) (auto split: list.splits)

lemma split_on_no_sep: "w \<in> set (split_on sep s) \<Longrightarrow> sep \<notin> set w"
  by (induction s arbitrary: w) (auto split: list.splits if_splits)

lemma split_on_chars: "(\<Union>w \<in> set (split_on sep s). set w) = set s - {sep}"
proof (induction s)
  case (Cons c s)
  obtain w ws where "split_on sep s = w # ws"
    by (metis list.exhaust split_on_nonempty)
  with Cons show ?case by (cases "c = sep") auto
qed simp

section \<open>Big-endian integers\<close>

text \<open>\<open>binary.BigEndian.Uint16\<close> and friends read a prefix of a byte slice.\<close>

fun be_nat :: "bytes \<Rightarrow> nat" where
  "be_nat [] = 0"
| "be_nat (b # bs) = unat b * 256 ^ length bs + be_nat bs"

fun be_bytes :: "nat \<Rightarrow> nat \<Rightarrow> bytes" where
  "be_bytes 0 n = []"
| "be_bytes (Suc k) n = word_of_nat (n div 256 ^ k) # be_bytes k (n mod 256 ^ k)"

lemma length_be_bytes [simp]: "length (be_bytes k n) = k"
  by (induction k arbitrary: n) auto

lemma be_nat_bound: "be_nat bs < 256 ^ length bs"
proof (induction bs)
  case (Cons b bs)
  have "unat b < 2 ^ LENGTH(8)" by (rule unsigned_less)
  then have "unat b \<le> 255" by simp
  then have "unat b * 256 ^ length bs \<le> 255 * 256 ^ length bs" by (rule mult_right_mono) simp
  with Cons.IH have "unat b * 256 ^ length bs + be_nat bs < 256 * 256 ^ length bs" by linarith
  then show ?case by simp
qed simp

lemma be_nat_be_bytes: "n < 256 ^ k \<Longrightarrow> be_nat (be_bytes k n) = n"
proof (induction k arbitrary: n)
  case (Suc k)
  have "n div 256 ^ k < 256"
    using Suc.prems by (simp add: less_mult_imp_div_less mult.commute)
  then have "unat (word_of_nat (n div 256 ^ k) :: byte) = n div 256 ^ k"
    by (simp add: unat_of_nat take_bit_nat_eq_self)
  with Suc show ?case by (simp add: mult.commute [of _ "256 ^ k"])
qed simp

lemma be_bytes_be_nat: "be_bytes (length bs) (be_nat bs) = bs"
proof (induction bs)
  case (Cons b bs)
  have "be_nat bs < 256 ^ length bs" by (rule be_nat_bound)
  then have "(unat b * 256 ^ length bs + be_nat bs) div 256 ^ length bs = unat b"
    and "(unat b * 256 ^ length bs + be_nat bs) mod 256 ^ length bs = be_nat bs"
    by simp_all
  with Cons show ?case by simp
qed simp

lemma be_nat_append: "be_nat (xs @ ys) = be_nat xs * 256 ^ length ys + be_nat ys"
  by (induction xs) (auto simp: power_add algebra_simps)

section \<open>Transition systems\<close>

text \<open>
  The states a component can reach when its critical sections are interleaved in any
  order, and the two arguments used about them: an invariant that every step keeps, and
  a terminal condition that no step undoes.
\<close>

inductive reachable :: "('s \<Rightarrow> bool) \<Rightarrow> ('s \<Rightarrow> 's \<Rightarrow> bool) \<Rightarrow> 's \<Rightarrow> bool"
  for init :: "'s \<Rightarrow> bool" and step :: "'s \<Rightarrow> 's \<Rightarrow> bool" where
  start: "init s \<Longrightarrow> reachable init step s"
| next_step: "reachable init step s \<Longrightarrow> step s t \<Longrightarrow> reachable init step t"

locale invariant_system =
  fixes init :: "'s \<Rightarrow> bool"
    and step :: "'s \<Rightarrow> 's \<Rightarrow> bool"
    and inv :: "'s \<Rightarrow> bool"
  assumes inv_init: "init s \<Longrightarrow> inv s"
    and inv_step: "inv s \<Longrightarrow> step s t \<Longrightarrow> inv t"
begin

lemma inv_reachable: "reachable init step s \<Longrightarrow> inv s"
  by (induction rule: reachable.induct) (auto intro: inv_init inv_step)

lemma inv_steps: "step\<^sup>*\<^sup>* s t \<Longrightarrow> inv s \<Longrightarrow> inv t"
  by (induction rule: rtranclp_induct) (auto intro: inv_step)

end

text \<open>
  A gate admits work at an instant unless it is shut; shutting is terminal when no step of
  the component opens it again. Leases, admissions and catalog windows are such gates.
\<close>

locale terminal_gate =
  fixes step :: "'s \<Rightarrow> 's \<Rightarrow> bool"
    and shut :: "'s \<Rightarrow> bool"
    and admits :: "'s \<Rightarrow> 'i \<Rightarrow> bool"
  assumes shut_step: "shut s \<Longrightarrow> step s t \<Longrightarrow> shut t"
    and shut_denies: "shut s \<Longrightarrow> \<not> admits s i"
begin

lemma shut_steps: "step\<^sup>*\<^sup>* s t \<Longrightarrow> shut s \<Longrightarrow> shut t"
  by (induction rule: rtranclp_induct) (auto intro: shut_step)

lemma never_admits_again: "step\<^sup>*\<^sup>* s t \<Longrightarrow> shut s \<Longrightarrow> \<not> admits t i"
  by (blast dest: shut_steps shut_denies)

end

section \<open>Chains of guards\<close>

text \<open>
  A cascade of early returns is a nest of conditionals. These rules take it apart one guard at
  a time, without splitting the guards themselves.
\<close>

lemma if_SomeE:
  assumes "(if b then Some c else r) = Some x"
    and "b \<Longrightarrow> c = x \<Longrightarrow> P" and "\<not> b \<Longrightarrow> r = Some x \<Longrightarrow> P"
  shows P
  using assms by (cases b) auto

lemma if_NoneE:
  assumes "(if b then None else r) = Some x"
    and "\<not> b \<Longrightarrow> r = Some x \<Longrightarrow> P"
  shows P
  using assms by (cases b) auto

lemma if_eqE:
  assumes "(if b then c else r) = x"
    and "b \<Longrightarrow> c = x \<Longrightarrow> P" and "\<not> b \<Longrightarrow> r = x \<Longrightarrow> P"
  shows P
  using assms by (cases b) auto

lemma if_Inl_Inr: "(if b then Inl e else r) = Inr x \<longleftrightarrow> \<not> b \<and> r = Inr x"
  by simp

lemma case_sum_Inr:
  "(case a of Inl e \<Rightarrow> Inl e | Inr y \<Rightarrow> g y) = Inr x \<longleftrightarrow> (\<exists>y. a = Inr y \<and> g y = Inr x)"
  by (cases a) simp_all

lemma case_option_Some:
  "(case a of None \<Rightarrow> None | Some y \<Rightarrow> g y) = Some x \<longleftrightarrow> (\<exists>y. a = Some y \<and> g y = Some x)"
  by (cases a) simp_all

lemma if_None_Some: "(if b then None else r) = Some x \<longleftrightarrow> \<not> b \<and> r = Some x"
  by simp

lemmas guard_simps = if_Inl_Inr case_sum_Inr case_option_Some if_None_Some

section \<open>Lists\<close>

text \<open>
  Sliding windows of attempts: the code drops expired instants from the front of a slice
  while the oldest is too old.
\<close>

lemma dropWhile_mono_length: "length (dropWhile P xs) \<le> length xs"
  by (induction xs) auto

lemma set_dropWhile_subset: "set (dropWhile P xs) \<subseteq> set xs"
  by (meson set_dropWhileD subsetI)

lemma sorted_wrt_dropWhile: "sorted_wrt R xs \<Longrightarrow> sorted_wrt R (dropWhile P xs)"
  by (induction xs) auto

end
