(* ===== verification/Go_Time.thy ===== *)
theory Go_Time
  imports Prelude
begin

text \<open>
  Go's \<open>time.Time\<close> as the sources use it: a wall clock reading in nanoseconds since the
  Unix epoch and, for values that come from \<open>time.Now\<close>, a monotonic reading. Comparisons
  use the monotonic readings when both operands have one and the wall readings otherwise;
  this is what makes a deadline derived from \<open>time.Now\<close> immune to a wall clock that is set
  back, and a deadline parsed from text not. The second part is the one textual layout the
  sources use, \<open>2006-01-02T15:04:05Z\<close>.
\<close>

section \<open>Instants\<close>

record gotime =
  wall :: int
  mono_ns :: "int option"

abbreviation wall_time :: "int \<Rightarrow> gotime" where
  "wall_time ns \<equiv> \<lparr>wall = ns, mono_ns = None\<rparr>"

definition second :: int where "second = 1000000000"
definition minute :: int where "minute = 60 * second"
definition hour :: int where "hour = 60 * minute"
definition millisecond :: int where "millisecond = 1000000"

definition time_before :: "gotime \<Rightarrow> gotime \<Rightarrow> bool" where
  "time_before t u = (case (mono_ns t, mono_ns u) of
      (Some a, Some b) \<Rightarrow> a < b
    | _ \<Rightarrow> wall t < wall u)"

definition time_after :: "gotime \<Rightarrow> gotime \<Rightarrow> bool" where
  "time_after t u = time_before u t"

definition time_equal :: "gotime \<Rightarrow> gotime \<Rightarrow> bool" where
  "time_equal t u = (case (mono_ns t, mono_ns u) of
      (Some a, Some b) \<Rightarrow> a = b
    | _ \<Rightarrow> wall t = wall u)"

text \<open>
  A \<open>Duration\<close> is a signed 64-bit number of nanoseconds. \<open>Sub\<close> saturates.
\<close>

definition min_duration :: int where "min_duration = - (2 ^ 63)"
definition max_duration :: int where "max_duration = 2 ^ 63 - 1"

definition time_sub :: "gotime \<Rightarrow> gotime \<Rightarrow> int" where
  "time_sub t u =
     (let d = (case (mono_ns t, mono_ns u) of (Some a, Some b) \<Rightarrow> a - b | _ \<Rightarrow> wall t - wall u)
      in max min_duration (min max_duration d))"

text \<open>
  \<open>Add\<close> moves both readings. The monotonic one is dropped when it leaves 64 bits or when the
  wall seconds leave the 33-bit field (years 1885 to 2157) that a value with a monotonic
  reading packs them into.
\<close>

definition packed_wall :: "int \<Rightarrow> bool" where
  "packed_wall ns = (let s = ns div second + 2682288000 in 0 \<le> s \<and> s < 2 ^ 33)"

definition time_add :: "gotime \<Rightarrow> int \<Rightarrow> gotime" where
  "time_add t d =
     \<lparr>wall = wall t + d,
      mono_ns = (case mono_ns t of
          None \<Rightarrow> None
        | Some m \<Rightarrow>
            if packed_wall (wall t + d) \<and> min_duration \<le> m + d \<and> m + d \<le> max_duration
            then Some (m + d) else None)\<rparr>"

text \<open>The zero \<open>Time\<close> is 1 January of year 1.\<close>

definition zero_time :: gotime where
  "zero_time = wall_time (- 62135596800 * second)"

definition is_zero :: "gotime \<Rightarrow> bool" where
  "is_zero t \<longleftrightarrow> wall t = - 62135596800 * second"

definition unix_milli :: "gotime \<Rightarrow> int" where
  "unix_milli t = wall t div millisecond"

text \<open>
  A reading of \<open>time.Now\<close> carries both parts. The code's windows live in years that the
  packed form covers.
\<close>

definition clock_reading :: "gotime \<Rightarrow> bool" where
  "clock_reading t \<longleftrightarrow> mono_ns t \<noteq> None"

lemma time_before_irrefl [simp]: "\<not> time_before t t"
  by (simp add: time_before_def split: option.splits)

lemma time_before_mono [clock_simps]:
  "mono_ns t = Some a \<Longrightarrow> mono_ns u = Some b \<Longrightarrow> time_before t u \<longleftrightarrow> a < b"
  by (simp add: time_before_def)

lemma time_before_wall [clock_simps]:
  "mono_ns t = None \<or> mono_ns u = None \<Longrightarrow> time_before t u \<longleftrightarrow> wall t < wall u"
  by (auto simp: time_before_def split: option.splits)

lemma is_zero_zero_time [simp]: "is_zero zero_time"
  by (simp add: is_zero_def zero_time_def)

text \<open>
  The idiom \<open>now.Add(until.Sub(now))\<close>: a deadline on the monotonic clock that stands as far
  ahead of the reading as the parsed instant is.
\<close>

definition monotonic_deadline :: "gotime \<Rightarrow> gotime \<Rightarrow> gotime" where
  "monotonic_deadline now until = time_add now (time_sub until now)"

lemma monotonic_deadline_mono:
  assumes "mono_ns now = Some m" and "mono_ns until = None"
    and "min_duration \<le> wall until - wall now" and "wall until - wall now \<le> max_duration"
    and "packed_wall (wall until)"
    and "min_duration \<le> m + (wall until - wall now)" and "m + (wall until - wall now) \<le> max_duration"
  shows "monotonic_deadline now until = \<lparr>wall = wall until, mono_ns = Some (m + (wall until - wall now))\<rparr>"
  using assms by (simp add: monotonic_deadline_def time_add_def time_sub_def)

text \<open>A plausible reading of \<open>time.Now\<close>: its monotonic part is far from overflowing.\<close>

definition clock_ok :: "gotime \<Rightarrow> bool" where
  "clock_ok now \<longleftrightarrow> packed_wall (wall now) \<and>
     (case mono_ns now of None \<Rightarrow> False | Some m \<Rightarrow> 0 \<le> m \<and> m \<le> 2 ^ 62)"

lemma packed_wall_between: "packed_wall a \<Longrightarrow> packed_wall b \<Longrightarrow> a \<le> c \<Longrightarrow> c \<le> b \<Longrightarrow> packed_wall c"
  by (simp add: packed_wall_def Let_def second_def)
    (meson order_le_less_trans order_trans zdiv_mono1 add_right_mono zero_less_numeral)

section \<open>The textual layout\<close>

text \<open>
  Days since the epoch of a civil date and back, in the proleptic Gregorian calendar.
\<close>

definition days_from_civil :: "int \<Rightarrow> int \<Rightarrow> int \<Rightarrow> int" where
  "days_from_civil y m d =
     (let y' = (if m \<le> 2 then y - 1 else y);
          era = y' div 400; yoe = y' mod 400;
          doy = (153 * (if 2 < m then m - 3 else m + 9) + 2) div 5 + d - 1;
          doe = yoe * 365 + yoe div 4 - yoe div 100 + doy
      in era * 146097 + doe - 719468)"

definition civil_from_days :: "int \<Rightarrow> int \<times> int \<times> int" where
  "civil_from_days z =
     (let z' = z + 719468; era = z' div 146097; doe = z' mod 146097;
          yoe = (doe - doe div 1460 + doe div 36524 - doe div 146096) div 365;
          doy = doe - (365 * yoe + yoe div 4 - yoe div 100);
          mp = (5 * doy + 2) div 153;
          d = doy - (153 * mp + 2) div 5 + 1;
          m = (if mp < 10 then mp + 3 else mp - 9);
          y = yoe + era * 400
      in (if m \<le> 2 then y + 1 else y, m, d))"

definition leap_year :: "int \<Rightarrow> bool" where
  "leap_year y \<longleftrightarrow> y mod 4 = 0 \<and> (y mod 100 \<noteq> 0 \<or> y mod 400 = 0)"

definition days_in :: "int \<Rightarrow> int \<Rightarrow> int" where
  "days_in y m =
     (if m = 2 then (if leap_year y then 29 else 28)
      else if m = 4 \<or> m = 6 \<or> m = 9 \<or> m = 11 then 30 else 31)"

definition digit :: "char \<Rightarrow> int option" where
  "digit c = (if is_digit c then Some (int (of_char c) - 48) else None)"

text \<open>Reads a number of exactly the given count of digits and returns the rest.\<close>

fun scan_digits :: "nat \<Rightarrow> int \<Rightarrow> string \<Rightarrow> (int \<times> string) option" where
  "scan_digits 0 acc s = Some (acc, s)"
| "scan_digits (Suc k) acc s =
     (case s of
        [] \<Rightarrow> None
      | c # r \<Rightarrow> (case digit c of None \<Rightarrow> None | Some d \<Rightarrow> scan_digits k (acc * 10 + d) r))"

definition scan_char :: "char \<Rightarrow> string \<Rightarrow> string option" where
  "scan_char c s = (case s of [] \<Rightarrow> None | x # r \<Rightarrow> if x = c then Some r else None)"

definition scan_field :: "nat \<Rightarrow> char \<Rightarrow> string \<Rightarrow> (int \<times> string) option" where
  "scan_field k c s = Option.bind (scan_digits k 0 s) (\<lambda>(n, r). map_option (Pair n) (scan_char c r))"

text \<open>
  \<open>time.Parse\<close> for the layout, on strings of the layout's own shape. \<open>Parse\<close> also accepts a
  one-digit hour and a fraction after the seconds; every caller compares the reformatted
  instant with the text and rejects those, so they are left out here.
\<close>

definition scan_time :: "string \<Rightarrow> gotime option" where
  "scan_time s =
     Option.bind (scan_field 4 CHR ''-'' s) (\<lambda>(y, s).
     Option.bind (scan_field 2 CHR ''-'' s) (\<lambda>(mo, s).
     Option.bind (scan_field 2 CHR ''T'' s) (\<lambda>(d, s).
     Option.bind (scan_field 2 CHR '':'' s) (\<lambda>(h, s).
     Option.bind (scan_field 2 CHR '':'' s) (\<lambda>(mi, s).
     Option.bind (scan_field 2 CHR ''Z'' s) (\<lambda>(se, s).
       if s = [] \<and> 1 \<le> mo \<and> mo \<le> 12 \<and> 1 \<le> d \<and> d \<le> days_in y mo \<and> h < 24 \<and> mi < 60 \<and> se < 60
       then Some (wall_time ((days_from_civil y mo d * 86400 + h * 3600 + mi * 60 + se) * second))
       else None))))))"

fun show_digits :: "nat \<Rightarrow> int \<Rightarrow> string" where
  "show_digits 0 n = []"
| "show_digits (Suc k) n = show_digits k (n div 10) @ [char_of (nat (n mod 10) + 48)]"

definition time_year :: "gotime \<Rightarrow> int" where
  "time_year t = fst (civil_from_days (wall t div (86400 * second)))"

text \<open>\<open>Format\<close> for the layout, on years of at most four digits.\<close>

definition format_time :: "gotime \<Rightarrow> string" where
  "format_time t =
     (let s = wall t div second; (y, mo, d) = civil_from_days (s div 86400); r = s mod 86400
      in show_digits 4 y @ ''-'' @ show_digits 2 mo @ ''-'' @ show_digits 2 d @ ''T''
         @ show_digits 2 (r div 3600) @ '':'' @ show_digits 2 (r mod 3600 div 60) @ '':''
         @ show_digits 2 (r mod 60) @ ''Z'')"

text \<open>
  The check every caller makes: the text parses, the year is at least 1 and formatting the
  result gives the text back.
\<close>

definition canonical_time :: "string \<Rightarrow> gotime option" where
  "canonical_time s =
     (case scan_time s of
        None \<Rightarrow> None
      | Some t \<Rightarrow> if time_year t < 1 \<or> format_time t \<noteq> s then None else Some t)"

lemma canonical_time_format: "canonical_time s = Some t \<Longrightarrow> format_time t = s"
  by (auto simp: canonical_time_def split: option.splits if_splits)

lemma scan_time_wall: "scan_time s = Some t \<Longrightarrow> mono_ns t = None"
  by (auto simp: scan_time_def split: bind_splits if_splits)

lemma canonical_time_wall [clock_simps]: "canonical_time s = Some t \<Longrightarrow> mono_ns t = None"
  by (auto simp: canonical_time_def dest: scan_time_wall split: option.splits if_splits)

lemma canonical_time_inj: "canonical_time s = Some t \<Longrightarrow> canonical_time s' = Some t \<Longrightarrow> s = s'"
  by (metis canonical_time_format)

lemma show_digits_length [simp]: "length (show_digits k n) = k"
  by (induction k arbitrary: n) auto

lemma canonical_time_length: "canonical_time s = Some t \<Longrightarrow> length s = 20"
  by (drule canonical_time_format) (auto simp: format_time_def Let_def split: prod.splits)

end
