(* ===== verification/Probe_Error.thy ===== *)
theory Probe_Error
  imports Prelude
begin

text \<open>
  Go error values as the probe code inspects them (\<open>engine/sing-box/common/urltest\<close>): an error
  is a tree whose nodes are what \<open>errors.Is\<close> and \<open>errors.As\<close> visit in pre-order. A node
  records only the facts the sources test: its text, whether it is one of the two context
  errors, a DNS error, a \<open>net.OpError\<close> with its network, a \<open>net.Error\<close> with its \<open>Timeout\<close>
  answer, an errno, or a \<open>ProbeError\<close> with its stage.
\<close>

section \<open>Probe stages and errors\<close>

datatype probe_stage =
    ProbeStageConnect
  | ProbeStageTLS
  | ProbeStageResponse
  | ProbeStageDNS
  | ProbeStageLeaseExpired

record error_layer =
  layer_text :: string
  layer_canceled :: bool
  layer_deadline :: bool
  layer_dns :: bool
  layer_op_net :: "string option"
  layer_timeout :: "bool option"
  layer_errno :: "nat option"
  layer_probe :: "probe_stage option"

datatype go_error = Go_Error (layer: error_layer) (causes: "go_error list")

text \<open>A node that is none of these, such as the value of \<open>errors.New\<close>.\<close>

definition plain_layer :: "string \<Rightarrow> error_layer" where
  "plain_layer s = \<lparr>layer_text = s, layer_canceled = False, layer_deadline = False, layer_dns = False,
     layer_op_net = None, layer_timeout = None, layer_errno = None, layer_probe = None\<rparr>"

definition plain_error :: "string \<Rightarrow> go_error" where
  "plain_error s = Go_Error (plain_layer s) []"

text \<open>\<open>ProbeError.Error\<close>: the stage only, never the target or the transport's text.\<close>

fun probe_error_text :: "probe_stage \<Rightarrow> string" where
  "probe_error_text ProbeStageConnect = ''URL probe connection failed''"
| "probe_error_text ProbeStageTLS = ''URL probe TLS negotiation failed''"
| "probe_error_text ProbeStageResponse = ''URL probe response failed''"
| "probe_error_text ProbeStageDNS = ''URL probe DNS resolution failed''"
| "probe_error_text ProbeStageLeaseExpired = ''Smart Access lease expired''"

definition probe_error :: "probe_stage \<Rightarrow> go_error \<Rightarrow> go_error" where
  "probe_error st e =
     Go_Error ((plain_layer (probe_error_text st))\<lparr>layer_probe := Some st\<rparr>) [e]"

definition error_text :: "go_error \<Rightarrow> string" where
  "error_text e = layer_text (layer e)"

section \<open>\<open>errors.Is\<close> and \<open>errors.As\<close>\<close>

fun unwrapped :: "go_error \<Rightarrow> go_error list" where
  "unwrapped (Go_Error l es) = Go_Error l es # concat (map unwrapped es)"

definition errors_is :: "(error_layer \<Rightarrow> bool) \<Rightarrow> go_error \<Rightarrow> bool" where
  "errors_is P e = list_ex (\<lambda>x. P (layer x)) (unwrapped e)"

definition errors_as :: "(error_layer \<Rightarrow> 'a option) \<Rightarrow> go_error \<Rightarrow> (go_error \<times> 'a) option" where
  "errors_as f e =
     (case filter (\<lambda>x. f (layer x) \<noteq> None) (unwrapped e) of
        [] \<Rightarrow> None
      | x # _ \<Rightarrow> Some (x, the (f (layer x))))"

section \<open>\<open>ObservedFailure\<close>\<close>

definition observed_timeout :: "go_error \<Rightarrow> bool" where
  "observed_timeout e \<longleftrightarrow>
     errors_is layer_deadline e \<or> (\<exists>x. errors_as layer_timeout e = Some (x, True))"

text \<open>The same test, in a form that computes.\<close>

lemma observed_timeout_code [code]:
  "observed_timeout e \<longleftrightarrow>
     errors_is layer_deadline e \<or> (case errors_as layer_timeout e of Some (_, b) \<Rightarrow> b | None \<Rightarrow> False)"
  by (auto simp: observed_timeout_def split: option.splits)

definition ObservedFailure :: "go_error option \<Rightarrow> string" where
  "ObservedFailure err =
     (case err of
        None \<Rightarrow> ''''
      | Some e \<Rightarrow>
          if errors_is layer_canceled e then ''''
          else if errors_is layer_dns e then ''dns_lookup''
          else if \<not> observed_timeout e then ''''
          else if (case errors_as layer_op_net e of
                     Some (_, net) \<Rightarrow> net = ''udp'' \<or> net = ''udp4'' \<or> net = ''udp6''
                   | None \<Rightarrow> False) then ''udp_timeout''
          else (case errors_as layer_probe e of
                  Some (_, ProbeStageTLS) \<Rightarrow> ''tls_timeout''
                | Some (_, ProbeStageResponse) \<Rightarrow> ''response_timeout''
                | _ \<Rightarrow> ''''))"

lemma errors_as_in: "errors_as f e = Some (x, a) \<Longrightarrow> x \<in> set (unwrapped e) \<and> f (layer x) = Some a"
proof -
  assume *: "errors_as f e = Some (x, a)"
  then obtain ys where ys: "filter (\<lambda>x. f (layer x) \<noteq> None) (unwrapped e) = x # ys" and a: "a = the (f (layer x))"
    by (auto simp: errors_as_def split: list.splits)
  from ys have "x \<in> set (filter (\<lambda>x. f (layer x) \<noteq> None) (unwrapped e))" by simp
  with a show ?thesis by auto
qed

lemma ObservedFailure_closed:
  "ObservedFailure err \<in> {'''', ''dns_lookup'', ''udp_timeout'', ''tls_timeout'', ''response_timeout''}"
  unfolding ObservedFailure_def by (auto split: option.splits probe_stage.splits)

text \<open>Wrapping an error in a probe stage never hides the facts of the error itself.\<close>

lemma errors_is_probe:
  "(\<And>l s. P (l\<lparr>layer_probe := s\<rparr>) = P l) \<Longrightarrow> \<not> P (plain_layer (probe_error_text st)) \<Longrightarrow>
     errors_is P (probe_error st e) = errors_is P e"
  by (cases e) (simp add: errors_is_def probe_error_def)

end
