(* ===== verification/Observability.thy ===== *)
theory Observability
  imports Prelude Go_Time Probe_Error
begin

text \<open>
  The runtime's closed event stream (\<open>internal/observability/event.go\<close>, \<open>emitter.go\<close>): the
  seven event definitions, the validation that closes the vocabulary, the classifier of
  start errors, and the emitter. An emission is two critical sections: the event is stamped
  under the emitter's lock and offered to the bounded channel after the lock is released, so
  other goroutines run in between. The system of the last section interleaves them freely.
\<close>

section \<open>Definitions and validation\<close>

record definition_desc =
  def_name :: string
  def_subsystem :: string
  def_stage :: string
  def_phase :: string

definition MaximumPendingEvents :: int where "MaximumPendingEvents = 128"
definition SchemaVersion :: int where "SchemaVersion = 1"
definition EventABIVersion :: int where "EventABIVersion = 1"

definition RuntimeInitialize :: definition_desc where
  "RuntimeInitialize = \<lparr>def_name = ''core.runtime.initialize'', def_subsystem = ''core'',
     def_stage = ''initialize'', def_phase = ''initialization''\<rparr>"
definition RuntimeStart :: definition_desc where
  "RuntimeStart = \<lparr>def_name = ''core.runtime.start'', def_subsystem = ''core'',
     def_stage = ''start'', def_phase = ''core_start''\<rparr>"
definition RuntimeStop :: definition_desc where
  "RuntimeStop = \<lparr>def_name = ''core.runtime.stop'', def_subsystem = ''core'',
     def_stage = ''stop'', def_phase = ''stop''\<rparr>"
definition EgressProbe :: definition_desc where
  "EgressProbe = \<lparr>def_name = ''core.egress.probe'', def_subsystem = ''egress'',
     def_stage = ''verify'', def_phase = ''egress''\<rparr>"
definition DNSProbeReceive :: definition_desc where
  "DNSProbeReceive = \<lparr>def_name = ''core.dns.probe'', def_subsystem = ''dns'',
     def_stage = ''receive'', def_phase = ''dns''\<rparr>"
definition DNSProbeExchange :: definition_desc where
  "DNSProbeExchange = \<lparr>def_name = ''core.dns.probe'', def_subsystem = ''dns'',
     def_stage = ''exchange'', def_phase = ''dns''\<rparr>"
definition DNSProbeReply :: definition_desc where
  "DNSProbeReply = \<lparr>def_name = ''core.dns.probe'', def_subsystem = ''dns'',
     def_stage = ''reply'', def_phase = ''dns''\<rparr>"

lemmas definition_defs = RuntimeInitialize_def RuntimeStart_def RuntimeStop_def EgressProbe_def
  DNSProbeReceive_def DNSProbeExchange_def DNSProbeReply_def

text \<open>The Go types \<open>Severity\<close> and \<open>Outcome\<close> are strings, so any string can be passed.\<close>

definition SeverityInfo :: string where "SeverityInfo = ''info''"
definition SeverityError :: string where "SeverityError = ''error''"
definition OutcomeStarted :: string where "OutcomeStarted = ''started''"
definition OutcomeSucceeded :: string where "OutcomeSucceeded = ''succeeded''"
definition OutcomeFailed :: string where "OutcomeFailed = ''failed''"

lemmas outcome_defs = OutcomeStarted_def OutcomeSucceeded_def OutcomeFailed_def

definition known_error_codes :: "string list" where
  "known_error_codes =
     [''CORE-003'', ''CORE-005'', ''CORE-006'', ''CORE-008'', ''EGRESS-001'',
      ''DNS-002'', ''TRANSPORT-001'', ''TRANSPORT-002'', ''TRANSPORT-003'', ''TRANSPORT-004'',
      ''TRANSPORT-005'', ''TRANSPORT-006'', ''TRANSPORT-007'']"

definition isKnownErrorCode :: "string \<Rightarrow> bool" where
  "isKnownErrorCode code \<longleftrightarrow> code \<in> set known_error_codes"

text \<open>\<open>validateEvent\<close>: the severity, or \<open>None\<close> for the \<open>false\<close> answer.\<close>

definition validateEvent :: "definition_desc \<Rightarrow> string \<Rightarrow> string \<Rightarrow> string option" where
  "validateEvent d outcome errorCode =
     (if d \<noteq> RuntimeInitialize \<and> d \<noteq> RuntimeStart \<and> d \<noteq> RuntimeStop \<and> d \<noteq> EgressProbe
         \<and> d \<noteq> DNSProbeReceive \<and> d \<noteq> DNSProbeExchange \<and> d \<noteq> DNSProbeReply then None
      else if d = DNSProbeReceive \<and> outcome \<noteq> OutcomeStarted \<or>
         (d = DNSProbeExchange \<or> d = DNSProbeReply) \<and>
           (outcome \<noteq> OutcomeSucceeded \<and> outcome \<noteq> OutcomeFailed) then None
      else if (d = DNSProbeExchange \<or> d = DNSProbeReply) \<and>
         outcome = OutcomeFailed \<and> errorCode \<noteq> ''DNS-002'' then None
      else if outcome \<noteq> OutcomeStarted \<and> outcome \<noteq> OutcomeSucceeded \<and> outcome \<noteq> OutcomeFailed then None
      else if outcome = OutcomeFailed then
        (if \<not> isKnownErrorCode errorCode then None else Some SeverityError)
      else if errorCode \<noteq> '''' then None
      else Some SeverityInfo)"

section \<open>Classification of start errors\<close>

text \<open>The marker tables of \<open>ClassifyStartError\<close>, in the order the code tries them.\<close>

definition start_error_markers :: "(string list \<times> string) list" where
  "start_error_markers =
     [([''timeout'', ''timed out'', ''deadline exceeded''], ''TRANSPORT-001''),
      ([''connection refused'', ''actively refused''], ''TRANSPORT-002''),
      ([''authentication'', ''unauthorized'', ''forbidden'', ''invalid credential'',
        ''bad credential'', ''access denied'', ''permission denied''], ''TRANSPORT-003''),
      ([''handshake'', ''protocol negotiation'', ''protocol version'', ''tls alert'', ''alpn'',
        ''unexpected eof'', ''malformed response'', ''version mismatch''], ''TRANSPORT-004''),
      ([''config'', ''parse'', ''unknown field'', ''unsupported option'',
        ''invalid option'', ''invalid profile''], ''CORE-005''),
      ([''transport'', ''dial'', ''connect'', ''network is unreachable'',
        ''connection reset'', ''no route to host'', ''broken pipe''], ''CORE-006'')]"

fun classify_message :: "(string list \<times> string) list \<Rightarrow> string \<Rightarrow> string" where
  "classify_message [] message = ''CORE-003''"
| "classify_message ((markers, code) # rest) message =
     (if list_ex (\<lambda>m. str_contains message m) markers then code
      else classify_message rest message)"

text \<open>
  \<open>refused\<close> is the platform's \<open>ECONNREFUSED\<close>. The result is \<open>None\<close> where the code would
  dereference a nil \<open>Err\<close> of a \<open>ProbeError\<close>.
\<close>

definition ClassifyStartError ::
    "(string \<Rightarrow> string) \<Rightarrow> nat \<Rightarrow> bool \<Rightarrow> go_error option \<Rightarrow> string option" where
  "ClassifyStartError uni refused windows err =
     (case err of
        None \<Rightarrow> Some ''''
      | Some e \<Rightarrow>
          if isKnownErrorCode (error_text e) then Some (error_text e)
          else if ObservedFailure err = ''dns_lookup'' then Some ''DNS-002''
          else if ObservedFailure err = ''udp_timeout'' then Some ''TRANSPORT-005''
          else if ObservedFailure err = ''tls_timeout'' then Some ''TRANSPORT-006''
          else if ObservedFailure err = ''response_timeout'' then Some ''TRANSPORT-007''
          else if errors_is layer_deadline e then Some ''TRANSPORT-001''
          else if (case errors_as layer_timeout e of Some (_, b) \<Rightarrow> b | None \<Rightarrow> False)
            then Some ''TRANSPORT-001''
          else if errors_is (\<lambda>l. layer_errno l = Some refused) e then Some ''TRANSPORT-002''
          else if windows \<and> (case errors_as layer_errno e of
                               Some (_, n) \<Rightarrow> n = 1225 \<or> n = 10061 | None \<Rightarrow> False)
            then Some ''TRANSPORT-002''
          else (case (case errors_as layer_probe e of
                        Some (p, _) \<Rightarrow> (case causes p of [] \<Rightarrow> None | inner # _ \<Rightarrow> Some inner)
                      | None \<Rightarrow> Some e) of
                  None \<Rightarrow> None
                | Some cause \<Rightarrow>
                    Some (classify_message start_error_markers (to_lower uni (error_text cause)))))"

lemma known_codes [simp]:
  "isKnownErrorCode ''CORE-003''" "isKnownErrorCode ''DNS-002''" "isKnownErrorCode ''TRANSPORT-001''" "isKnownErrorCode ''TRANSPORT-002''"
  "isKnownErrorCode ''TRANSPORT-005''" "isKnownErrorCode ''TRANSPORT-006''" "isKnownErrorCode ''TRANSPORT-007''"
  by (simp_all add: isKnownErrorCode_def known_error_codes_def)

lemma classify_message_known:
  "\<forall>(ms, c) \<in> set table. isKnownErrorCode c \<Longrightarrow> isKnownErrorCode (classify_message table s)"
  by (induction table) auto

lemma start_error_markers_known: "\<forall>(ms, c) \<in> set start_error_markers. isKnownErrorCode c"
  by (simp add: start_error_markers_def isKnownErrorCode_def known_error_codes_def)

lemma ClassifyStartError_known:
  assumes "ClassifyStartError uni refused windows (Some e) = Some code"
  shows "isKnownErrorCode code"
proof -
  have message: "isKnownErrorCode (classify_message start_error_markers s)" for s
    by (rule classify_message_known [OF start_error_markers_known])
  show ?thesis
    using assms unfolding ClassifyStartError_def option.case
    by (elim if_SomeE) (auto simp: message split: option.split_asm)
qed

section \<open>The emitter\<close>

record event =
  ev_schema :: int
  ev_abi :: int
  ev_at :: gotime
  ev_run :: string
  ev_attempt :: string
  ev_generation :: int
  ev_sequence :: int
  ev_name :: string
  ev_subsystem :: string
  ev_stage :: string
  ev_severity :: string
  ev_outcome :: string
  ev_error :: string
  ev_phase :: string

record emitter =
  sink :: "ref option"
  runID :: string
  attemptID :: string
  generation :: int
  sequence :: int
  firstOwnedDNSReceived :: bool
  pending :: "event list"
  pending_cap :: nat
  enqueued :: u64
  dropped :: u64
  delivered :: u64
  panics :: u64

definition NewEmitter :: "int \<Rightarrow> emitter" where
  "NewEmitter maximumPending =
     (let m = (if maximumPending < 1 \<or> maximumPending > MaximumPendingEvents
               then MaximumPendingEvents else maximumPending)
      in \<lparr>sink = None, runID = '''', attemptID = '''', generation = 0, sequence = 0,
          firstOwnedDNSReceived = False, pending = [], pending_cap = nat m,
          enqueued = 0, dropped = 0, delivered = 0, panics = 0\<rparr>)"

definition SetSink :: "ref option \<Rightarrow> emitter \<Rightarrow> emitter" where
  "SetSink s e = e\<lparr>sink := s\<rparr>"

text \<open>
  \<open>uuidPattern\<close>: groups of 8, 4, 4, 4 and 12 lower-case hex digits, the third starting
  with 1 to 5 and the fourth with 8, 9, a or b.
\<close>

definition uuid_pattern :: "string \<Rightarrow> bool" where
  "uuid_pattern s =
     (case split_on CHR ''-'' s of
        [a, b, c, d, e] \<Rightarrow>
          length a = 8 \<and> length b = 4 \<and> length c = 4 \<and> length d = 4 \<and> length e = 12
          \<and> list_all is_lower_hex (a @ b @ c @ d @ e)
          \<and> hd c \<in> set ''12345'' \<and> hd d \<in> set ''89ab''
      | _ \<Rightarrow> False)"

definition Configure :: "string \<Rightarrow> string \<Rightarrow> int \<Rightarrow> emitter \<Rightarrow> string option \<times> emitter" where
  "Configure run attempt gen e =
     (if \<not> uuid_pattern run then (Some ''invalid run identifier'', e)
      else if \<not> uuid_pattern attempt then (Some ''invalid attempt identifier'', e)
      else if gen < 1 \<or> gen > 2 ^ 31 - 1 then (Some ''invalid generation'', e)
      else if gen < generation e then (Some ''stale generation'', e)
      else
        let e = (if gen > generation e
                 then e\<lparr>sequence := 0, firstOwnedDNSReceived := False\<rparr> else e)
        in (None, e\<lparr>runID := run, attemptID := attempt, generation := gen\<rparr>))"

text \<open>\<open>CaptureContext\<close> remembers the owner, or gives nothing when no sink or generation is set.\<close>

record event_context =
  cx_run :: string
  cx_attempt :: string
  cx_generation :: int

definition CaptureContext :: "emitter \<Rightarrow> event_context option" where
  "CaptureContext e =
     (if sink e \<noteq> None \<and> 0 < generation e
      then Some \<lparr>cx_run = runID e, cx_attempt = attemptID e, cx_generation = generation e\<rparr>
      else None)"

text \<open>
  A signed 64-bit increment, as \<open>sequence++\<close> on an \<open>int64\<close>.
\<close>

definition incr64 :: "int \<Rightarrow> int" where
  "incr64 n = (n + 1 + 2 ^ 63) mod 2 ^ 64 - 2 ^ 63"

text \<open>The part of \<open>emit\<close> under the lock: refuse, or stamp an event.\<close>

definition emit_locked ::
    "gotime \<Rightarrow> definition_desc \<Rightarrow> string \<Rightarrow> string \<Rightarrow> event_context option \<Rightarrow> emitter
      \<Rightarrow> event option \<times> emitter" where
  "emit_locked now d outcome errorCode owner e =
     (case validateEvent d outcome errorCode of
        None \<Rightarrow> (None, e)
      | Some severity \<Rightarrow>
          if sink e = None \<or> generation e < 1 then (None, e)
          else if (case owner of
                     Some cx \<Rightarrow> runID e \<noteq> cx_run cx \<or> attemptID e \<noteq> cx_attempt cx
                                \<or> generation e \<noteq> cx_generation cx
                   | None \<Rightarrow> False) then (None, e)
          else if d = DNSProbeReceive \<and> firstOwnedDNSReceived e then (None, e)
          else
            let e = (if d = DNSProbeReceive then e\<lparr>firstOwnedDNSReceived := True\<rparr> else e);
                e = e\<lparr>sequence := incr64 (sequence e)\<rparr>
            in (Some \<lparr>ev_schema = SchemaVersion, ev_abi = EventABIVersion, ev_at = now,
                      ev_run = runID e, ev_attempt = attemptID e, ev_generation = generation e,
                      ev_sequence = sequence e, ev_name = def_name d, ev_subsystem = def_subsystem d,
                      ev_stage = def_stage d, ev_severity = severity, ev_outcome = outcome,
                      ev_error = errorCode, ev_phase = def_phase d\<rparr>, e))"

text \<open>The non-blocking send after the lock is released.\<close>

definition offer :: "event \<Rightarrow> emitter \<Rightarrow> bool \<times> emitter" where
  "offer ev e =
     (if length (pending e) < pending_cap e
      then (True, e\<lparr>pending := pending e @ [ev], enqueued := enqueued e + 1\<rparr>)
      else (False, e\<lparr>dropped := dropped e + 1\<rparr>))"

text \<open>\<open>Emit\<close> and \<open>emit\<close> when nothing runs in between.\<close>

definition emit ::
    "gotime \<Rightarrow> definition_desc \<Rightarrow> string \<Rightarrow> string \<Rightarrow> event_context option \<Rightarrow> emitter
      \<Rightarrow> bool \<times> emitter" where
  "emit now d outcome errorCode owner e =
     (case emit_locked now d outcome errorCode owner e of
        (None, e') \<Rightarrow> (False, e')
      | (Some ev, e') \<Rightarrow> offer ev e')"

definition Emit :: "gotime \<Rightarrow> definition_desc \<Rightarrow> string \<Rightarrow> string \<Rightarrow> emitter \<Rightarrow> bool \<times> emitter" where
  "Emit now d outcome errorCode e = emit now d outcome errorCode None e"

text \<open>
  One turn of the delivery loop: the event leaves the channel; without a sink it is skipped,
  otherwise the sink returns or panics.
\<close>

definition deliver_one :: "(ref \<Rightarrow> event \<Rightarrow> bool) \<Rightarrow> emitter \<Rightarrow> (event \<times> bool) option \<times> emitter" where
  "deliver_one sink_panics e =
     (case pending e of
        [] \<Rightarrow> (None, e)
      | ev # rest \<Rightarrow>
          let e = e\<lparr>pending := rest\<rparr> in
          (case sink e of
             None \<Rightarrow> (Some (ev, False), e)
           | Some s \<Rightarrow>
               if sink_panics s ev then (Some (ev, True), e\<lparr>panics := panics e + 1\<rparr>)
               else (Some (ev, True), e\<lparr>delivered := delivered e + 1\<rparr>)))"

record snapshot =
  sn_generation :: int
  sn_sequence :: int
  sn_enqueued :: u64
  sn_dropped :: u64
  sn_delivered :: u64
  sn_panics :: u64

definition Snapshot :: "emitter \<Rightarrow> snapshot" where
  "Snapshot e = \<lparr>sn_generation = generation e, sn_sequence = sequence e, sn_enqueued = enqueued e,
     sn_dropped = dropped e, sn_delivered = delivered e, sn_panics = panics e\<rparr>"

section \<open>Interleaved emission\<close>

text \<open>
  Any number of goroutines emit while the delivery loop runs. \<open>in_flight\<close> holds the events
  stamped but not yet offered. \<open>stamped\<close> (every event in stamping order) and \<open>skipped\<close> (events
  that left the channel while no sink was set, which no counter of the code records) are
  history variables.
\<close>

record emit_system =
  em :: emitter
  in_flight :: "event list"
  stamped :: "event list"
  skipped :: nat

definition emit_init :: "emit_system \<Rightarrow> bool" where
  "emit_init s \<longleftrightarrow> (\<exists>m. s = \<lparr>em = NewEmitter m, in_flight = [], stamped = [], skipped = 0\<rparr>)"

inductive emit_step :: "emit_system \<Rightarrow> emit_system \<Rightarrow> bool" where
  set_sink: "emit_step s (s\<lparr>em := SetSink k (em s)\<rparr>)"
| configure: "Configure run attempt gen (em s) = (r, e') \<Longrightarrow> emit_step s (s\<lparr>em := e'\<rparr>)"
| stamp: "emit_locked now d outcome code owner (em s) = (Some ev, e') \<Longrightarrow>
    emit_step s (s\<lparr>em := e', in_flight := ev # in_flight s, stamped := stamped s @ [ev]\<rparr>)"
| send: "in_flight s = xs @ ev # ys \<Longrightarrow> offer ev (em s) = (r, e') \<Longrightarrow>
    emit_step s (s\<lparr>em := e', in_flight := xs @ ys\<rparr>)"
| deliver: "deliver_one sink_panics (em s) = (Some (ev, called), e') \<Longrightarrow>
    emit_step s (s\<lparr>em := e', skipped := (if called then skipped s else Suc (skipped s))\<rparr>)"

text \<open>What one critical section changes.\<close>

lemma emit_lockedE:
  assumes "emit_locked now d outcome code owner e = (Some ev, e')"
  obtains severity where
    "validateEvent d outcome code = Some severity"
    "sink e \<noteq> None" "1 \<le> generation e"
    "\<And>cx. owner = Some cx \<Longrightarrow>
       runID e = cx_run cx \<and> attemptID e = cx_attempt cx \<and> generation e = cx_generation cx"
    "d = DNSProbeReceive \<Longrightarrow> \<not> firstOwnedDNSReceived e"
    "e' = e\<lparr>firstOwnedDNSReceived := (d = DNSProbeReceive \<or> firstOwnedDNSReceived e),
           sequence := incr64 (sequence e)\<rparr>"
    "ev = \<lparr>ev_schema = SchemaVersion, ev_abi = EventABIVersion, ev_at = now,
           ev_run = runID e, ev_attempt = attemptID e, ev_generation = generation e,
           ev_sequence = incr64 (sequence e), ev_name = def_name d, ev_subsystem = def_subsystem d,
           ev_stage = def_stage d, ev_severity = severity, ev_outcome = outcome,
           ev_error = code, ev_phase = def_phase d\<rparr>"
  using assms unfolding emit_locked_def
  by (cases "d = DNSProbeReceive") (auto simp: Let_def not_less split: option.splits if_splits)

lemma ConfigureE:
  assumes "Configure run attempt gen e = (r, e')"
  obtains (rejected) "r \<noteq> None" "e' = e"
  | (same) "r = None" "gen = generation e"
    "e' = e\<lparr>runID := run, attemptID := attempt\<rparr>"
  | (newer) "r = None" "gen > generation e" "gen \<le> 2 ^ 31 - 1"
    "e' = e\<lparr>sequence := 0, firstOwnedDNSReceived := False,
            runID := run, attemptID := attempt, generation := gen\<rparr>"
proof (cases "\<not> uuid_pattern run \<or> \<not> uuid_pattern attempt \<or> gen < 1 \<or> gen > 2 ^ 31 - 1 \<or> gen < generation e")
  case True
  then have "r \<noteq> None \<and> e' = e"
    using assms unfolding Configure_def by (elim disjE) (auto split: if_splits)
  then show thesis using rejected by simp
next
  case False
  show thesis
  proof (cases "gen > generation e")
    case True
    with False assms show thesis
      using newer unfolding Configure_def by simp
  next
    case le: False
    with False have "gen = generation e" by simp
    with False le assms show thesis
      using same unfolding Configure_def by simp
  qed
qed

lemma incr64_eq: "0 \<le> n \<Longrightarrow> n < 2 ^ 63 - 1 \<Longrightarrow> incr64 n = n + 1"
  by (simp add: incr64_def)

subsection \<open>Accounting\<close>

definition emit_accounts :: "emit_system \<Rightarrow> bool" where
  "emit_accounts s \<longleftrightarrow>
     1 \<le> pending_cap (em s) \<and> pending_cap (em s) \<le> 128
   \<and> length (pending (em s)) \<le> pending_cap (em s)
   \<and> of_nat (length (stamped s)) = enqueued (em s) + dropped (em s) + of_nat (length (in_flight s))
   \<and> of_nat (skipped s) = enqueued (em s) - delivered (em s) - panics (em s)
       - of_nat (length (pending (em s)))"

lemma emit_accounts_step:
  assumes "emit_accounts s" and "emit_step s t"
  shows "emit_accounts t"
  using assms(2) assms(1)
proof cases
  case (set_sink k)
  with assms(1) show ?thesis by (simp add: emit_accounts_def SetSink_def)
next
  case (configure run attempt gen r e')
  from configure(2) assms(1) configure(1) show ?thesis
    by (elim ConfigureE) (simp_all add: emit_accounts_def)
next
  case (stamp now d outcome code owner ev e')
  from stamp(2) assms(1) stamp(1) show ?thesis
    by (elim emit_lockedE) (simp add: emit_accounts_def add_ac)
next
  case (send xs ev ys r e')
  with assms(1) show ?thesis
    by (auto simp: emit_accounts_def offer_def algebra_simps split: if_splits)
next
  case (deliver sink_panics ev called e')
  with assms(1) show ?thesis
    by (auto simp: emit_accounts_def deliver_one_def Let_def algebra_simps
        split: list.splits option.splits if_splits)
qed

interpretation emit_accounting: invariant_system emit_init emit_step emit_accounts
proof unfold_locales
  fix s assume "emit_init s"
  then show "emit_accounts s"
    by (auto simp: emit_init_def emit_accounts_def NewEmitter_def MaximumPendingEvents_def Let_def)
qed (rule emit_accounts_step)

subsection \<open>Sequence numbers and the first DNS query\<close>

definition of_generation :: "int \<Rightarrow> event list \<Rightarrow> event list" where
  "of_generation g evs = filter (\<lambda>ev. ev_generation ev = g) evs"

definition receive_event :: "event \<Rightarrow> bool" where
  "receive_event ev \<longleftrightarrow> ev_name ev = def_name DNSProbeReceive \<and> ev_stage ev = def_stage DNSProbeReceive"

definition emit_numbering :: "emit_system \<Rightarrow> bool" where
  "emit_numbering s \<longleftrightarrow> (length (stamped s) < 2 ^ 63 \<longrightarrow>
     (\<forall>ev \<in> set (stamped s). ev_generation ev \<le> generation (em s))
   \<and> sequence (em s) = int (length (of_generation (generation (em s)) (stamped s)))
   \<and> (\<forall>g. map ev_sequence (of_generation g (stamped s)) =
           [1..int (length (of_generation g (stamped s)))])
   \<and> (\<forall>g. length (filter receive_event (of_generation g (stamped s))) \<le> 1)
   \<and> (\<not> firstOwnedDNSReceived (em s) \<longrightarrow>
        filter receive_event (of_generation (generation (em s)) (stamped s)) = []))"

lemma of_generation_append [simp]:
  "of_generation g (xs @ ys) = of_generation g xs @ of_generation g ys"
  by (simp add: of_generation_def)

lemma length_of_generation: "length (of_generation g evs) \<le> length evs"
  by (simp add: of_generation_def)

lemma of_generation_newer:
  "(\<And>ev. ev \<in> set evs \<Longrightarrow> ev_generation ev < g) \<Longrightarrow> of_generation g evs = []"
  by (force simp: of_generation_def filter_empty_conv)

lemma upto_snoc: "0 \<le> n \<Longrightarrow> [1..n] @ [n + 1] = [1..n + 1]" for n :: int
  by (simp add: upto_rec2)

lemma validateEvent_desc:
  assumes "validateEvent d outcome code = Some severity"
  shows "d \<in> {RuntimeInitialize, RuntimeStart, RuntimeStop, EgressProbe,
              DNSProbeReceive, DNSProbeExchange, DNSProbeReply}"
  using assms unfolding validateEvent_def by (elim if_NoneE) blast

lemma receive_only_receive:
  assumes "validateEvent d outcome code = Some severity"
    and "def_name d = def_name DNSProbeReceive" and "def_stage d = def_stage DNSProbeReceive"
  shows "d = DNSProbeReceive"
  using validateEvent_desc [OF assms(1)] assms(2,3)
  by (elim insertE) (simp_all add: definition_defs)

lemma emit_numbering_stamp:
  assumes inv: "emit_numbering s"
    and em: "emit_locked now d outcome code owner (em s) = (Some ev, e')"
  shows "emit_numbering (s\<lparr>em := e', in_flight := ev # in_flight s, stamped := stamped s @ [ev]\<rparr>)"
proof (cases "length (stamped s) + 1 < 2 ^ 63")
  case True
  let ?g = "generation (em s)"
  let ?n = "length (of_generation ?g (stamped s))"
  from inv True have hist:
    "\<forall>ev \<in> set (stamped s). ev_generation ev \<le> ?g"
    "sequence (em s) = int ?n"
    "\<forall>g. map ev_sequence (of_generation g (stamped s)) = [1..int (length (of_generation g (stamped s)))]"
    "\<forall>g. length (filter receive_event (of_generation g (stamped s))) \<le> 1"
    "\<not> firstOwnedDNSReceived (em s) \<Longrightarrow> filter receive_event (of_generation ?g (stamped s)) = []"
    by (auto simp: emit_numbering_def)
  have "?n < 2 ^ 63 - 1"
    using True length_of_generation [of ?g "stamped s"] by simp
  then have seq: "incr64 (sequence (em s)) = int ?n + 1"
    using hist(2) by (simp add: incr64_eq)
  from em obtain severity where
    val: "validateEvent d outcome code = Some severity" and
    first: "d = DNSProbeReceive \<Longrightarrow> \<not> firstOwnedDNSReceived (em s)" and
    e': "generation e' = ?g" "sequence e' = int ?n + 1"
      "firstOwnedDNSReceived e' \<longleftrightarrow> d = DNSProbeReceive \<or> firstOwnedDNSReceived (em s)" and
    ev: "ev_generation ev = ?g" "ev_sequence ev = int ?n + 1" "ev_name ev = def_name d" "ev_stage ev = def_stage d"
    by (elim emit_lockedE) (simp add: seq)
  have single: "of_generation g [ev] = (if g = ?g then [ev] else [])" for g
    using ev(1) by (simp add: of_generation_def)
  have receive: "receive_event ev \<longleftrightarrow> d = DNSProbeReceive"
    using receive_only_receive [OF val] ev(3,4) by (auto simp: receive_event_def)
  show ?thesis
    unfolding emit_numbering_def
    using hist e' ev single receive first by (auto simp: upto_snoc)
qed (auto simp: emit_numbering_def)

lemma emit_numbering_configure:
  assumes "Configure run attempt gen (em s) = (r, e')" and inv: "emit_numbering s"
  shows "emit_numbering (s\<lparr>em := e'\<rparr>)"
  using assms(1)
proof (cases rule: ConfigureE)
  case newer
  have "of_generation gen (stamped s) = []" if "length (stamped s) < 2 ^ 63"
    using that inv newer(2) by (intro of_generation_newer) (fastforce simp: emit_numbering_def)
  with newer inv show ?thesis
    by (fastforce simp: emit_numbering_def)
qed (use inv in \<open>simp_all add: emit_numbering_def\<close>)

lemma emit_numbering_step:
  assumes "emit_numbering s" and "emit_step s t"
  shows "emit_numbering t"
  using assms(2)
proof cases
  case (set_sink k)
  with assms(1) show ?thesis by (simp add: emit_numbering_def SetSink_def)
next
  case (configure run attempt gen r e')
  from configure(2) assms(1) show ?thesis
    unfolding configure(1) by (rule emit_numbering_configure)
next
  case (stamp now d outcome code owner ev e')
  with assms(1) show ?thesis by (simp add: emit_numbering_stamp)
next
  case (send xs ev ys r e')
  with assms(1) show ?thesis by (auto simp: emit_numbering_def offer_def split: if_splits)
next
  case (deliver sink_panics ev called e')
  with assms(1) show ?thesis
    by (auto simp: emit_numbering_def deliver_one_def Let_def split: list.splits option.splits if_splits)
qed

interpretation emit_sequence: invariant_system emit_init emit_step emit_numbering
proof unfold_locales
  fix s assume "emit_init s"
  then show "emit_numbering s"
    by (auto simp: emit_init_def emit_numbering_def NewEmitter_def of_generation_def Let_def)
qed (rule emit_numbering_step)

section \<open>Properties\<close>

text \<open>
  A concrete run used by the witnesses: a sink is set, generation 1 is configured and the
  first DNS query is reported.
\<close>

definition demo_uuid :: string where
  "demo_uuid = ''00000000-0000-1000-8000-000000000000''"

definition demo_configured :: emitter where
  "demo_configured = snd (Configure demo_uuid demo_uuid 1 (SetSink (Some 0) (NewEmitter 4)))"

definition demo_stamp :: "event option \<times> emitter" where
  "demo_stamp = emit_locked (wall_time 0) DNSProbeReceive OutcomeStarted '''' None demo_configured"

definition demo_state :: emit_system where
  "demo_state = \<lparr>em = snd demo_stamp, in_flight = [the (fst demo_stamp)],
     stamped = [the (fst demo_stamp)], skipped = 0\<rparr>"

lemma demo_stamp_ok: "fst demo_stamp \<noteq> None"
  by code_simp

lemma demo_configure_ok: "fst (Configure demo_uuid demo_uuid 1 (SetSink (Some 0) (NewEmitter 4))) = None"
  by code_simp

lemma demo_reachable: "reachable emit_init emit_step demo_state"
proof -
  let ?s0 = "\<lparr>em = NewEmitter 4, in_flight = [], stamped = [], skipped = 0\<rparr>"
  let ?s1 = "?s0\<lparr>em := SetSink (Some 0) (NewEmitter 4)\<rparr>"
  let ?s2 = "?s1\<lparr>em := demo_configured\<rparr>"
  have "reachable emit_init emit_step ?s0"
    by (rule reachable.start) (auto simp: emit_init_def)
  then have "reachable emit_init emit_step ?s1"
    by (rule reachable.next_step) (metis emit_step.set_sink emit_system.select_convs(1))
  then have "reachable emit_init emit_step ?s2"
  proof (rule reachable.next_step)
    have "Configure demo_uuid demo_uuid 1 (em ?s1) = (None, demo_configured)"
      using demo_configure_ok by (simp add: demo_configured_def prod_eq_iff)
    then show "emit_step ?s1 ?s2" by (rule emit_step.configure)
  qed
  then show ?thesis
  proof (rule reachable.next_step)
    have "emit_locked (wall_time 0) DNSProbeReceive OutcomeStarted '''' None (em ?s2)
        = (Some (the (fst demo_stamp)), snd demo_stamp)"
      using demo_stamp_ok by (simp add: demo_stamp_def prod_eq_iff)
    from emit_step.stamp [OF this] show "emit_step ?s2 demo_state"
      by (simp add: demo_state_def)
  qed
qed

text \<open>
  C36. However emissions, reconfigurations and deliveries interleave, the events stamped in a
  generation carry the sequence numbers 1, 2, 3, ... in stamping order without a gap or a
  repetition, so a consumer can tell exactly which events the bounded channel dropped; and at
  most one of them reports the first DNS query. (The number of events stays below the
  range of the 64-bit counter.)
\<close>

theorem emission_numbering:
  assumes "reachable emit_init emit_step s" and "length (stamped s) < 2 ^ 63"
  shows "map ev_sequence (of_generation g (stamped s)) = [1..int (length (of_generation g (stamped s)))]
    \<and> length (filter receive_event (of_generation g (stamped s))) \<le> 1"
  using emit_sequence.inv_reachable [OF assms(1)] assms(2) by (simp add: emit_numbering_def)

theorem emission_numbering_witness:
  "reachable emit_init emit_step demo_state \<and> length (stamped demo_state) = 1
    \<and> map ev_sequence (of_generation 1 (stamped demo_state)) = [1]
    \<and> length (filter receive_event (of_generation 1 (stamped demo_state))) \<le> 1"
proof -
  have len: "length (stamped demo_state) < 2 ^ 63"
    by (simp add: demo_state_def)
  have "length (of_generation 1 (stamped demo_state)) = 1"
    by code_simp
  with emission_numbering [OF demo_reachable len, of 1] demo_reachable show ?thesis
    by (simp add: demo_state_def)
qed



text \<open>
  C38. A completion that carries a captured context is stamped only while the run, the attempt
  and the generation are the captured ones, and the event then carries exactly these; after
  any of the three changed it is refused and the emitter is left as it was.
\<close>

theorem captured_context_guards:
  assumes "CaptureContext e0 = Some cx"
  shows "(case emit_locked now d outcome code (Some cx) e of
       (Some ev, _) \<Rightarrow> ev_run ev = runID e0 \<and> ev_attempt ev = attemptID e0
          \<and> ev_generation ev = generation e0 \<and> runID e = runID e0 \<and> attemptID e = attemptID e0
          \<and> generation e = generation e0
     | (None, e') \<Rightarrow> e' = e)"
proof -
  have cx: "cx_run cx = runID e0" "cx_attempt cx = attemptID e0" "cx_generation cx = generation e0"
    using assms by (auto simp: CaptureContext_def split: if_splits)
  show ?thesis
  proof (cases "fst (emit_locked now d outcome code (Some cx) e)")
    case None
    then show ?thesis
      unfolding emit_locked_def by (auto simp: Let_def split: option.splits if_splits)
  next
    case (Some ev)
    then obtain e' where "emit_locked now d outcome code (Some cx) e = (Some ev, e')"
      by (metis prod.collapse)
    then show ?thesis using cx by (auto elim!: emit_lockedE)
  qed
qed

theorem captured_context_guards_witness:
  "CaptureContext demo_configured = Some \<lparr>cx_run = demo_uuid, cx_attempt = demo_uuid, cx_generation = 1\<rparr>
   \<and> emit_locked (wall_time 0) RuntimeStop OutcomeSucceeded ''''
          (Some \<lparr>cx_run = demo_uuid, cx_attempt = demo_uuid, cx_generation = 1\<rparr>)
          (demo_configured\<lparr>generation := 2\<rparr>) = (None, demo_configured\<lparr>generation := 2\<rparr>)"
proof -
  have cap: "CaptureContext demo_configured = Some \<lparr>cx_run = demo_uuid, cx_attempt = demo_uuid, cx_generation = 1\<rparr>"
    by code_simp
  have "generation demo_configured = 1" by code_simp
  with captured_context_guards [OF cap, where now = "wall_time 0" and d = RuntimeStop
      and outcome = OutcomeSucceeded and code = "''''" and e = "demo_configured\<lparr>generation := 2\<rparr>"] cap
  show ?thesis by (auto split: prod.splits option.splits)
qed

text \<open>
  Every start failure is reportable: the code the classifier gives for an error is one that
  event validation accepts as a failed runtime or egress event, with severity error.
\<close>

theorem start_failure_reportable:
  assumes "ClassifyStartError uni refused windows (Some e) = Some code"
    and "d \<in> {RuntimeInitialize, RuntimeStart, RuntimeStop, EgressProbe}"
  shows "validateEvent d OutcomeFailed code = Some SeverityError"
proof -
  have "d \<noteq> DNSProbeReceive \<and> d \<noteq> DNSProbeExchange \<and> d \<noteq> DNSProbeReply"
    using assms(2) by (elim insertE) (simp_all add: definition_defs)
  with assms(2) ClassifyStartError_known [OF assms(1)] show ?thesis
    by (auto simp: validateEvent_def)
qed

theorem start_failure_reportable_witness:
  "ClassifyStartError (\<lambda>s. s) 111 False (Some (probe_error ProbeStageTLS (plain_error ''Dial tcp: Connection refused'')))
     = Some ''TRANSPORT-002''
   \<and> validateEvent RuntimeStart OutcomeFailed ''TRANSPORT-002'' = Some SeverityError"
proof -
  have cls: "ClassifyStartError (\<lambda>s. s) 111 False (Some (probe_error ProbeStageTLS (plain_error ''Dial tcp: Connection refused'')))
     = Some ''TRANSPORT-002''"
    by code_simp
  show ?thesis using cls start_failure_reportable [OF cls, of RuntimeStart] by simp
qed

end
