(* ===== verification/Service_Manager.thy ===== *)
theory Service_Manager
  imports Prelude
begin

text \<open>
  The two service registries of \<open>v2/service_manager\<close>. A registry is a Go slice: a reference to a
  backing array, a length and a capacity. The capacity matters because \<open>append\<close> writes in place
  while there is room, so two slices may share one array. The capacity that \<open>append\<close> chooses when
  it has to allocate is the runtime's business and is the parameter \<open>grow\<close>. What a service does
  when one of its hooks is called is a parameter too: it returns an error or nothing and may
  change the world.
\<close>

section \<open>Slices\<close>

record slice =
  sl_array :: ref
  sl_len :: nat
  sl_cap :: nat

record 's registry =
  arrays :: "ref \<Rightarrow> 's list"
  next_array :: ref
  services :: slice
  preservices :: slice

definition contents :: "(ref \<Rightarrow> 's list) \<Rightarrow> slice \<Rightarrow> 's list" where
  "contents h sl = take (sl_len sl) (h (sl_array sl))"

text \<open>
  \<open>append(sl, x)\<close>: the heap, the next free array and the new slice. A new array gets the
  capacity \<open>grow\<close> names, at least the length it must hold; its unused cells hold a filler.
\<close>

definition append_slice ::
    "(nat \<Rightarrow> nat) \<Rightarrow> (ref \<Rightarrow> 's list) \<Rightarrow> ref \<Rightarrow> slice \<Rightarrow> 's \<Rightarrow> (ref \<Rightarrow> 's list) \<times> ref \<times> slice" where
  "append_slice grow h fresh sl x =
     (if sl_len sl < sl_cap sl
      then (h(sl_array sl := (h (sl_array sl))[sl_len sl := x]), fresh, sl\<lparr>sl_len := sl_len sl + 1\<rparr>)
      else let c = max (grow (sl_cap sl)) (sl_len sl + 1) in
        (h(fresh := contents h sl @ replicate (c - sl_len sl) x), fresh + 1,
         \<lparr>sl_array = fresh, sl_len = sl_len sl + 1, sl_cap = c\<rparr>))"

definition init_registry :: "'s registry" where
  "init_registry = \<lparr>arrays = (\<lambda>_. []), next_array = 2,
     services = \<lparr>sl_array = 0, sl_len = 0, sl_cap = 0\<rparr>,
     preservices = \<lparr>sl_array = 1, sl_len = 0, sl_cap = 0\<rparr>\<rparr>"

definition RegisterPreService :: "(nat \<Rightarrow> nat) \<Rightarrow> 's \<Rightarrow> 's registry \<Rightarrow> 's registry" where
  "RegisterPreService grow service r =
     (case append_slice grow (arrays r) (next_array r) (services r) service of
        (h, n, sl) \<Rightarrow> r\<lparr>arrays := h, next_array := n, preservices := sl\<rparr>)"

definition Register :: "(nat \<Rightarrow> nat) \<Rightarrow> 's \<Rightarrow> 's registry \<Rightarrow> 's registry" where
  "Register grow service r =
     (case append_slice grow (arrays r) (next_array r) (services r) service of
        (h, n, sl) \<Rightarrow> r\<lparr>arrays := h, next_array := n, services := sl\<rparr>)"

abbreviation service_list :: "'s registry \<Rightarrow> 's list" where
  "service_list r \<equiv> contents (arrays r) (services r)"

abbreviation preservice_list :: "'s registry \<Rightarrow> 's list" where
  "preservice_list r \<equiv> contents (arrays r) (preservices r)"

section \<open>Hooks\<close>

datatype hook = HInit | HDispose | HPreStart | HStart | HClose

text \<open>\<open>for _, service := range list \<close> with an early return of the first error.\<close>

fun for_services :: "('s \<Rightarrow> 'w \<Rightarrow> 'e option \<times> 'w) \<Rightarrow> 's list \<Rightarrow> 'w \<Rightarrow> 'e option \<times> 'w" where
  "for_services call [] w = (None, w)"
| "for_services call (s # ss) w =
     (case call s w of (Some e, w') \<Rightarrow> (Some e, w') | (None, w') \<Rightarrow> for_services call ss w')"

definition DisposeServices ::
    "(hook \<Rightarrow> 's \<Rightarrow> 'w \<Rightarrow> 'e option \<times> 'w) \<Rightarrow> 's registry \<Rightarrow> 'w \<Rightarrow> 'e option \<times> 'w" where
  "DisposeServices call r w =
     (case for_services (call HDispose) (service_list r) w of
        (Some e, w') \<Rightarrow> (Some e, w')
      | (None, w') \<Rightarrow> for_services (call HDispose) (preservice_list r) w')"

text \<open>The error of \<open>DisposeServices\<close> is ignored.\<close>

definition StartServices ::
    "(hook \<Rightarrow> 's \<Rightarrow> 'w \<Rightarrow> 'e option \<times> 'w) \<Rightarrow> 's registry \<Rightarrow> 'w \<Rightarrow> 'e option \<times> 'w" where
  "StartServices call r w =
     (case for_services (call HInit) (preservice_list r) (snd (DisposeServices call r w)) of
        (Some e, w') \<Rightarrow> (Some e, w')
      | (None, w') \<Rightarrow> for_services (call HInit) (service_list r) w')"

definition OnMainServicePreStart ::
    "(hook \<Rightarrow> 's \<Rightarrow> 'w \<Rightarrow> 'e option \<times> 'w) \<Rightarrow> 's registry \<Rightarrow> 'w \<Rightarrow> 'e option \<times> 'w" where
  "OnMainServicePreStart call r w =
     (case for_services (call HPreStart) (preservice_list r) w of
        (Some e, w') \<Rightarrow> (Some e, w')
      | (None, w') \<Rightarrow> for_services (call HPreStart) (service_list r) w')"

definition OnMainServiceStart ::
    "(hook \<Rightarrow> 's \<Rightarrow> 'w \<Rightarrow> 'e option \<times> 'w) \<Rightarrow> 's registry \<Rightarrow> 'w \<Rightarrow> 'e option \<times> 'w" where
  "OnMainServiceStart call r w =
     (case for_services (call HStart) (preservice_list r) w of
        (Some e, w') \<Rightarrow> (Some e, w')
      | (None, w') \<Rightarrow> for_services (call HStart) (service_list r) w')"

definition OnMainServiceClose ::
    "(hook \<Rightarrow> 's \<Rightarrow> 'w \<Rightarrow> 'e option \<times> 'w) \<Rightarrow> 's registry \<Rightarrow> 'w \<Rightarrow> 'e option \<times> 'w" where
  "OnMainServiceClose call r w =
     (case for_services (call HClose) (preservice_list r) w of
        (Some e, w') \<Rightarrow> (Some e, w')
      | (None, w') \<Rightarrow> for_services (call HClose) (service_list r) w')"

section \<open>Slices behave as lists\<close>

text \<open>Every slice lies within its array, and the arrays in use are allocated.\<close>

definition slice_ok :: "'s registry \<Rightarrow> slice \<Rightarrow> bool" where
  "slice_ok r sl \<longleftrightarrow> sl_len sl \<le> sl_cap sl \<and> sl_cap sl = length (arrays r (sl_array sl))
     \<and> sl_array sl < next_array r"

definition registry_ok :: "'s registry \<Rightarrow> bool" where
  "registry_ok r \<longleftrightarrow> slice_ok r (services r) \<and> slice_ok r (preservices r)"

lemma registry_ok_init [simp]: "registry_ok init_registry"
  by (simp add: registry_ok_def slice_ok_def init_registry_def)

lemma contents_append_slice:
  assumes "sl_len sl \<le> sl_cap sl" and "sl_cap sl = length (h (sl_array sl))"
    and "append_slice grow h n sl x = (h', n', sl')"
  shows "contents h' sl' = contents h sl @ [x]"
  using assms
  by (auto simp: append_slice_def contents_def Let_def take_Suc_conv_app_nth split: if_splits)

lemma registry_ok_Register [intro]: "registry_ok r \<Longrightarrow> registry_ok (Register grow s r)"
  by (auto simp: registry_ok_def slice_ok_def Register_def append_slice_def contents_def Let_def)

lemma registry_ok_RegisterPreService [intro]: "registry_ok r \<Longrightarrow> registry_ok (RegisterPreService grow s r)"
  by (auto simp: registry_ok_def slice_ok_def RegisterPreService_def append_slice_def contents_def Let_def)

lemma service_list_Register: "registry_ok r \<Longrightarrow> service_list (Register grow s r) = service_list r @ [s]"
  by (cases "append_slice grow (arrays r) (next_array r) (services r) s")
    (auto simp: Register_def registry_ok_def slice_ok_def intro: contents_append_slice)

lemma service_list_RegisterPreService:
  "registry_ok r \<Longrightarrow> service_list (RegisterPreService grow s r) = service_list r"
  by (auto simp: RegisterPreService_def registry_ok_def slice_ok_def append_slice_def contents_def Let_def)

lemma preservice_list_RegisterPreService:
  "registry_ok r \<Longrightarrow> preservice_list (RegisterPreService grow s r) = service_list r @ [s]"
  by (cases "append_slice grow (arrays r) (next_array r) (services r) s")
    (auto simp: RegisterPreService_def registry_ok_def slice_ok_def intro: contents_append_slice)

text \<open>
  In-place appends alias: when the array of the ordinary services has room, a service
  registered before them sits in the cell that the next ordinary registration overwrites, so
  the registered service vanishes from both lists.
\<close>

lemma Register_overwrites_preservice:
  assumes "registry_ok r" and "sl_len (services r) < sl_cap (services r)"
  shows "preservice_list (Register grow s (RegisterPreService grow p r)) = service_list r @ [s]"
  using assms
  by (auto simp: registry_ok_def slice_ok_def Register_def RegisterPreService_def append_slice_def
      contents_def take_Suc_conv_app_nth)

section \<open>Properties\<close>

lemma for_services_append:
  "for_services call (xs @ ys) w =
     (case for_services call xs w of (Some e, w') \<Rightarrow> (Some e, w') | (None, w') \<Rightarrow> for_services call ys w')"
  by (induction xs arbitrary: w) (auto split: prod.splits option.splits)

text \<open>
  C39. Registering a service before the main ones replaces every earlier registration of that
  kind: whatever was registered so far, after registering \<open>p\<close> and then \<open>q\<close> this way the list
  is the list of ordinary services followed by \<open>q\<close> alone, so \<open>p\<close> is never initialised, and
  the start of the services initialises every ordinary service twice.
\<close>

theorem RegisterPreService_forgets:
  fixes r :: "'s registry" and grow :: "nat \<Rightarrow> nat" and p q :: 's
  assumes "registry_ok r"
  defines "r' \<equiv> RegisterPreService grow q (RegisterPreService grow p r)"
  shows "preservice_list r' = service_list r @ [q] \<and> service_list r' = service_list r
    \<and> StartServices call r' w
       = for_services (call HInit) (service_list r @ [q] @ service_list r) (snd (DisposeServices call r' w))"
proof -
  have ok: "registry_ok (RegisterPreService grow p r)" using assms(1) by blast
  have "preservice_list r' = service_list r @ [q]" and "service_list r' = service_list r"
    using assms(1) ok
    by (simp_all add: r'_def preservice_list_RegisterPreService service_list_RegisterPreService)
  then show ?thesis
    by (simp add: StartServices_def for_services_append split: prod.splits option.splits)
qed

theorem RegisterPreService_forgets_witness:
  "registry_ok (Register (\<lambda>c. 2 * c) ''grpc'' init_registry)
   \<and> preservice_list (RegisterPreService (\<lambda>c. 2 * c) ''q'' (RegisterPreService (\<lambda>c. 2 * c) ''p''
        (Register (\<lambda>c. 2 * c) ''grpc'' init_registry))) = [''grpc'', ''q'']"
proof -
  have ok: "registry_ok (Register (\<lambda>c. 2 * c) ''grpc'' init_registry)"
    by (rule registry_ok_Register) simp
  have "service_list (Register (\<lambda>c. 2 * c) ''grpc'' init_registry) = [''grpc'']"
    by code_simp
  with ok RegisterPreService_forgets [OF ok, where call = "\<lambda>_ _ w. (None :: unit option, w :: unit)"
      and grow = "\<lambda>c. 2 * c" and q = "''q''" and p = "''p''"] show ?thesis
    by simp
qed

end
