(* ===== verification/Sha256.thy ===== *)
theory Sha256
  imports Prelude
begin

text \<open>
  The message authentication code the local tunnel protocol takes from the Go library:
  SHA-256 (\<open>crypto/sha256\<close>) and HMAC over it (\<open>crypto/hmac\<close>), on byte lists.
\<close>

unbundle bit_operations_syntax

section \<open>SHA-256\<close>

text \<open>
  The constants are the first 32 bits of the fractional parts of the cube roots (round constants)
  and square roots (initial state) of the first primes. The root is computed bit by bit.
\<close>

primrec root_bits :: "nat \<Rightarrow> nat \<Rightarrow> nat \<Rightarrow> nat \<Rightarrow> nat" where
  "root_bits e n 0 acc = acc"
| "root_bits e n (Suc k) acc = root_bits e n k (if (acc + 2 ^ k) ^ e \<le> n then acc + 2 ^ k else acc)"

definition root_fraction :: "nat \<Rightarrow> nat \<Rightarrow> u32" where
  "root_fraction e p = of_nat (root_bits e (p * 2 ^ (32 * e)) 35 0)"

definition small_primes :: "nat list" where
  "small_primes = filter (\<lambda>p. list_all (\<lambda>d. p \<le> d \<or> p mod d \<noteq> 0) [2..<18]) [2..<312]"

definition sha_k :: "u32 list" where
  "sha_k = map (root_fraction 3) small_primes"

definition sha_init :: "u32 list" where
  "sha_init = map (root_fraction 2) (take 8 small_primes)"

definition rotr :: "nat \<Rightarrow> u32 \<Rightarrow> u32" where
  "rotr n x = drop_bit n x OR push_bit (32 - n) x"

text \<open>The message schedule: sixteen words of the block extended to sixty-four.\<close>

fun sha_extend :: "nat \<Rightarrow> u32 list \<Rightarrow> u32 list" where
  "sha_extend 0 ws = ws"
| "sha_extend (Suc k) ws =
     (let n = length ws;
          v1 = ws ! (n - 2); t1 = rotr 17 v1 XOR rotr 19 v1 XOR drop_bit 10 v1;
          v2 = ws ! (n - 15); t2 = rotr 7 v2 XOR rotr 18 v2 XOR drop_bit 3 v2
      in sha_extend k (ws @ [t1 + ws ! (n - 7) + t2 + ws ! (n - 16)]))"

type_synonym sha_regs = "u32 \<times> u32 \<times> u32 \<times> u32 \<times> u32 \<times> u32 \<times> u32 \<times> u32"

definition sha_round :: "sha_regs \<Rightarrow> u32 \<times> u32 \<Rightarrow> sha_regs" where
  "sha_round r kw =
     (case r of (a, b, c, d, e, f, g, h) \<Rightarrow>
        let t1 = h + (rotr 6 e XOR rotr 11 e XOR rotr 25 e) + ((e AND f) XOR (NOT e AND g)) + fst kw + snd kw;
            t2 = (rotr 2 a XOR rotr 13 a XOR rotr 22 a) + ((a AND b) XOR (a AND c) XOR (b AND c))
        in (t1 + t2, a, b, c, d + t1, e, f, g))"

fun sha_regs_of :: "u32 list \<Rightarrow> sha_regs" where
  "sha_regs_of [a, b, c, d, e, f, g, h] = (a, b, c, d, e, f, g, h)"
| "sha_regs_of _ = (0, 0, 0, 0, 0, 0, 0, 0)"

definition sha_regs_list :: "sha_regs \<Rightarrow> u32 list" where
  "sha_regs_list r = (case r of (a, b, c, d, e, f, g, h) \<Rightarrow> [a, b, c, d, e, f, g, h])"

text \<open>Cutting a list into pieces of \<open>n\<close> elements; a shorter rest is dropped.\<close>

function chunks :: "nat \<Rightarrow> 'a list \<Rightarrow> 'a list list" where
  "chunks n xs = (if n = 0 \<or> length xs < n then [] else take n xs # chunks n (drop n xs))"
  by pat_completeness auto
termination
  by (relation "measure (\<lambda>(n, xs). length xs)") auto

declare chunks.simps [simp del]

definition sha_block :: "u32 list \<Rightarrow> bytes \<Rightarrow> u32 list" where
  "sha_block hs block =
     (let ws = sha_extend 48 (map (\<lambda>c. of_nat (be_nat c)) (chunks 4 block));
          r = foldl sha_round (sha_regs_of hs) (zip sha_k ws)
      in map2 (+) hs (sha_regs_list r))"

text \<open>Padding: a one bit, zeros, and the length in bits in eight bytes.\<close>

definition sha_pad :: "bytes \<Rightarrow> bytes" where
  "sha_pad m = m @ [0x80] @ replicate ((119 - length m mod 64) mod 64) 0
     @ be_bytes 8 (8 * length m mod 2 ^ 64)"

definition sha256 :: "bytes \<Rightarrow> bytes" where
  "sha256 m = concat (map (\<lambda>w. be_bytes 4 (unat w)) (foldl sha_block sha_init (chunks 64 (sha_pad m))))"

section \<open>HMAC\<close>

definition hmac_key :: "bytes \<Rightarrow> bytes" where
  "hmac_key key = (let k = (if length key > 64 then sha256 key else key) in k @ replicate (64 - length k) 0)"

definition hmac_sha256 :: "bytes \<Rightarrow> bytes \<Rightarrow> bytes" where
  "hmac_sha256 key m =
     (let k = hmac_key key in
      sha256 (map (\<lambda>b. b XOR 0x5c) k @ sha256 (map (\<lambda>b. b XOR 0x36) k @ m)))"

section \<open>Digests have 32 bytes\<close>

lemma length_sha_regs_list [simp]: "length (sha_regs_list r) = 8"
  by (auto simp: sha_regs_list_def split: prod.splits)

lemma length_sha_block: "length hs = 8 \<Longrightarrow> length (sha_block hs block) = 8"
  by (simp add: sha_block_def Let_def)

lemma length_sha_blocks: "length hs = 8 \<Longrightarrow> length (foldl sha_block hs bs) = 8"
  by (induction bs arbitrary: hs) (simp_all add: length_sha_block)

lemma length_concat_words: "length (concat (map (\<lambda>w. be_bytes 4 (unat w)) ws)) = 4 * length ws"
  by (induction ws) auto

lemma length_sha256 [simp]: "length (sha256 m) = 32"
proof -
  let ?p = "\<lambda>p. list_all (\<lambda>d. p \<le> d \<or> p mod d \<noteq> 0) [2..<18]"
  have "8 \<le> length (filter ?p [2..<20])" by code_simp
  moreover have "[2..<312] = [2..<20] @ [20..<312::nat]"
    using upt_add_eq_append [of 2 20 292] by (simp del: upt_Suc upt_rec_numeral)
  ultimately have "8 \<le> length small_primes"
    unfolding small_primes_def by (simp del: upt_Suc upt_rec_numeral)
  then have "length sha_init = 8" by (simp add: sha_init_def)
  then show ?thesis by (simp add: sha256_def length_concat_words length_sha_blocks)
qed

lemma length_hmac [simp]: "length (hmac_sha256 key m) = 32"
  by (simp add: hmac_sha256_def Let_def)

lemma sha_pad_blocks: "length (sha_pad m) mod 64 = 0"
proof -
  define r where "r = length m mod 64"
  have "r < 64" by (simp add: r_def)
  then have "(r + (119 - r) mod 64 + 9) mod 64 = 0"
    by (cases "r \<le> 55") (auto simp: mod_if)
  moreover have "length (sha_pad m) mod 64 = (r + (119 - r) mod 64 + 9) mod 64"
    by (simp add: sha_pad_def r_def mod_add_left_eq add.assoc add.commute [of 9])
  ultimately show ?thesis by simp
qed

end
