(* ===== verification/Net_Addr.thy ===== *)
theory Net_Addr
  imports Prelude
begin

text \<open>
  IP addresses as package \<open>net/netip\<close> has them: the parsers and predicates the sources call, and
  the two filters for public addresses, \<open>publicRelayAddress\<close> of the Smart Access relay
  (\<open>smartaccess/address.go\<close>) and \<open>publicAddress\<close> of the Telegram carrier
  (\<open>telegramws/outbound.go\<close>).
\<close>

unbundle bit_operations_syntax

section \<open>Addresses\<close>

text \<open>The zero \<open>netip.Addr\<close>, an IPv4 address, an IPv6 address with its zone (often empty).\<close>

datatype addr = NoAddr | IPv4 u32 | IPv6 "128 word" string

record addr_port =
  ap_addr :: addr
  ap_port :: u16

definition IsValid :: "addr \<Rightarrow> bool" where
  "IsValid a \<longleftrightarrow> a \<noteq> NoAddr"

fun Is4 :: "addr \<Rightarrow> bool" where
  "Is4 (IPv4 _) = True"
| "Is4 _ = False"

fun Is6 :: "addr \<Rightarrow> bool" where
  "Is6 (IPv6 _ _) = True"
| "Is6 _ = False"

fun Zone :: "addr \<Rightarrow> string" where
  "Zone (IPv6 _ z) = z"
| "Zone _ = []"

fun Is4In6 :: "addr \<Rightarrow> bool" where
  "Is4In6 (IPv6 w _) \<longleftrightarrow> drop_bit 32 w = 0xffff"
| "Is4In6 _ \<longleftrightarrow> False"

definition Unmap :: "addr \<Rightarrow> addr" where
  "Unmap a = (case a of IPv6 w z \<Rightarrow> if Is4In6 a then IPv4 (ucast w) else a | _ \<Rightarrow> a)"

definition IsUnspecified :: "addr \<Rightarrow> bool" where
  "IsUnspecified a \<longleftrightarrow> a = IPv4 0 \<or> a = IPv6 0 []"

definition IsLoopback :: "addr \<Rightarrow> bool" where
  "IsLoopback a = (case Unmap a of
     IPv4 w \<Rightarrow> drop_bit 24 w = 127 | IPv6 w _ \<Rightarrow> w = 1 | NoAddr \<Rightarrow> False)"

definition IsMulticast :: "addr \<Rightarrow> bool" where
  "IsMulticast a = (case Unmap a of
     IPv4 w \<Rightarrow> drop_bit 28 w = 0xe | IPv6 w _ \<Rightarrow> drop_bit 120 w = 0xff | NoAddr \<Rightarrow> False)"

definition IsLinkLocalUnicast :: "addr \<Rightarrow> bool" where
  "IsLinkLocalUnicast a = (case Unmap a of
     IPv4 w \<Rightarrow> drop_bit 16 w = 0xa9fe | IPv6 w _ \<Rightarrow> drop_bit 118 w = 0x3fa | NoAddr \<Rightarrow> False)"

definition IsPrivate :: "addr \<Rightarrow> bool" where
  "IsPrivate a = (case Unmap a of
     IPv4 w \<Rightarrow> drop_bit 24 w = 10 \<or> drop_bit 20 w = 0xac1 \<or> drop_bit 16 w = 0xc0a8
   | IPv6 w _ \<Rightarrow> drop_bit 121 w = 0x7e
   | NoAddr \<Rightarrow> False)"

definition IsGlobalUnicast :: "addr \<Rightarrow> bool" where
  "IsGlobalUnicast a =
     (if a = NoAddr then False
      else let b = Unmap a in
        \<not> (b = IPv4 0 \<or> b = IPv4 0xffffffff) \<and>
        b \<noteq> IPv6 0 [] \<and> \<not> IsLoopback b \<and> \<not> IsMulticast b \<and> \<not> IsLinkLocalUnicast b)"

text \<open>\<open>Prefix.Contains\<close> for a prefix of a valid address without zone.\<close>

definition prefix_contains :: "addr \<times> nat \<Rightarrow> addr \<Rightarrow> bool" where
  "prefix_contains p a =
     (case (fst p, a) of
        (IPv4 v, IPv4 w) \<Rightarrow> drop_bit (32 - snd p) (w XOR v) = 0
      | (IPv6 v _, IPv6 w z) \<Rightarrow> z = [] \<and> drop_bit (128 - snd p) (w XOR v) = 0
      | _ \<Rightarrow> False)"

section \<open>Parsing\<close>

definition digit_val :: "char \<Rightarrow> nat" where
  "digit_val c = (of_char c :: nat) - 48"

text \<open>
  \<open>parseIPv4Fields\<close>. The arguments are the octets read so far, the value and the number of
  digits of the current one; a dot is refused at either end and after another dot, that is
  where the octet before it or the rest after it is empty.
\<close>

fun parse_ipv4_fields :: "nat list \<Rightarrow> nat \<Rightarrow> nat \<Rightarrow> string \<Rightarrow> nat list option" where
  "parse_ipv4_fields octets val digLen [] =
     (if length octets < 3 then None else Some (octets @ [val]))"
| "parse_ipv4_fields octets val digLen (c # s) =
     (if is_digit c then
        if digLen = 1 \<and> val = 0 then None
        else let val' = val * 10 + digit_val c in
          if val' > 255 then None else parse_ipv4_fields octets val' (digLen + 1) s
      else if c = CHR ''.'' then
        if digLen = 0 \<or> s = [] then None
        else if length octets = 3 then None
        else parse_ipv4_fields (octets @ [val]) 0 0 s
      else None)"

definition parse_ipv4 :: "string \<Rightarrow> addr option" where
  "parse_ipv4 s = map_option (\<lambda>fs. IPv4 (of_nat (be_nat (map of_nat fs)))) (parse_ipv4_fields [] 0 0 s)"

definition hex_val :: "char \<Rightarrow> nat option" where
  "hex_val c =
     (if is_digit c then Some (digit_val c)
      else if 97 \<le> (of_char c :: nat) \<and> (of_char c :: nat) \<le> 102 then Some ((of_char c :: nat) - 87)
      else if 65 \<le> (of_char c :: nat) \<and> (of_char c :: nat) \<le> 70 then Some ((of_char c :: nat) - 55)
      else None)"

text \<open>The hex number at the front: its value, its number of digits and the rest.\<close>

fun scan_hex :: "nat \<Rightarrow> nat \<Rightarrow> string \<Rightarrow> (nat \<times> nat \<times> string) option" where
  "scan_hex acc off [] = Some (acc, off, [])"
| "scan_hex acc off (c # s) =
     (case hex_val c of
        None \<Rightarrow> Some (acc, off, c # s)
      | Some d \<Rightarrow> if off > 3 then None else scan_hex (acc * 16 + d) (off + 1) s)"

text \<open>
  The loop of \<open>parseIPv6\<close>. The groups read so far, the position of the ellipsis among them and
  the rest of the text; it ends with the groups, the ellipsis and the text left over.
\<close>

function parse_ipv6_groups :: "nat list \<Rightarrow> nat option \<Rightarrow> string \<Rightarrow> (nat list \<times> nat option \<times> string) option" where
  "parse_ipv6_groups gs el s =
     (if length gs \<ge> 8 then Some (gs, el, s)
      else case scan_hex 0 0 s of
        None \<Rightarrow> None
      | Some (acc, off, rest) \<Rightarrow>
          if off = 0 then None
          else case rest of
            [] \<Rightarrow> Some (gs @ [acc], el, [])
          | c # t \<Rightarrow>
              if c = CHR ''.'' then
                if el = None \<and> length gs \<noteq> 6 then None
                else if length gs > 6 then None
                else (case parse_ipv4_fields [] 0 0 s of
                        None \<Rightarrow> None
                      | Some fs \<Rightarrow> Some (gs @ [fs ! 0 * 256 + fs ! 1, fs ! 2 * 256 + fs ! 3], el, []))
              else if c \<noteq> CHR '':'' then None
              else (case t of
                      [] \<Rightarrow> None
                    | d # u \<Rightarrow>
                        if d = CHR '':'' then
                          if el \<noteq> None then None
                          else if u = [] then Some (gs @ [acc], Some (length gs + 1), [])
                          else parse_ipv6_groups (gs @ [acc]) (Some (length gs + 1)) u
                        else parse_ipv6_groups (gs @ [acc]) el (d # u)))"
  by pat_completeness auto
termination
  by (relation "measure (\<lambda>(gs, _, _). 8 - length gs)") auto

fun groups_word :: "nat list \<Rightarrow> nat" where
  "groups_word [] = 0"
| "groups_word (g # gs) = g * 65536 ^ length gs + groups_word gs"

definition expand_groups :: "nat list \<Rightarrow> nat option \<Rightarrow> nat list option" where
  "expand_groups gs el =
     (if length gs < 8 then
        (case el of
           None \<Rightarrow> None
         | Some e \<Rightarrow> Some (take e gs @ replicate (8 - length gs) 0 @ drop e gs))
      else if el \<noteq> None then None
      else Some gs)"

definition parse_ipv6 :: "string \<Rightarrow> addr option" where
  "parse_ipv6 input =
     (let s0 = takeWhile (\<lambda>c. c \<noteq> CHR ''%'') input;
          after = dropWhile (\<lambda>c. c \<noteq> CHR ''%'') input;
          zone = drop 1 after;
          leading = has_prefix s0 ''::'';
          s1 = (if leading then drop 2 s0 else s0)
      in if after \<noteq> [] \<and> zone = [] then None
         else if leading \<and> s1 = [] then Some (IPv6 0 zone)
         else case parse_ipv6_groups [] (if leading then Some 0 else None) s1 of
           None \<Rightarrow> None
         | Some (gs, el, rest) \<Rightarrow>
             if rest \<noteq> [] then None
             else map_option (\<lambda>ws. IPv6 (of_nat (groups_word ws)) zone) (expand_groups gs el))"

definition ParseAddr :: "string \<Rightarrow> addr option" where
  "ParseAddr s =
     (case dropWhile (\<lambda>c. c \<noteq> CHR ''.'' \<and> c \<noteq> CHR '':'' \<and> c \<noteq> CHR ''%'') s of
        [] \<Rightarrow> None
      | c # _ \<Rightarrow> if c = CHR ''.'' then parse_ipv4 s
                 else if c = CHR '':'' then parse_ipv6 s
                 else None)"

text \<open>\<open>strconv.ParseUint(s, 10, 16)\<close>.\<close>

definition parse_uint16 :: "string \<Rightarrow> u16 option" where
  "parse_uint16 s =
     (if s = [] \<or> \<not> list_all is_digit s then None
      else let n = foldl (\<lambda>n c. n * 10 + digit_val c) 0 s in
        if n > 65535 then None else Some (of_nat n))"

definition ParseAddrPort :: "string \<Rightarrow> addr_port option" where
  "ParseAddrPort s =
     (if CHR '':'' \<notin> set s then None
      else let port = rev (takeWhile (\<lambda>c. c \<noteq> CHR '':'') (rev s));
               host = take (length s - length port - 1) s;
               v6 = (host \<noteq> [] \<and> hd host = CHR ''['');
               ip = (if v6 then butlast (tl host) else host)
      in if host = [] \<or> port = [] then None
         else if v6 \<and> (length host < 2 \<or> last host \<noteq> CHR '']'') then None
         else case parse_uint16 port of
           None \<Rightarrow> None
         | Some p \<Rightarrow>
             (case ParseAddr ip of
                None \<Rightarrow> None
              | Some a \<Rightarrow> if v6 \<and> Is4 a \<or> \<not> v6 \<and> Is6 a then None
                          else Some \<lparr>ap_addr = a, ap_port = p\<rparr>))"

text \<open>\<open>MustParsePrefix\<close> on the literals of the sources: the address and the number of bits.\<close>

definition MustParsePrefix :: "string \<Rightarrow> addr \<times> nat" where
  "MustParsePrefix s =
     (case split_on (CHR ''/'') s of
        [ip, bits] \<Rightarrow> ((case ParseAddr ip of Some a \<Rightarrow> a | None \<Rightarrow> NoAddr),
                       foldl (\<lambda>n c. n * 10 + digit_val c) 0 bits)
      | _ \<Rightarrow> (NoAddr, 0))"

section \<open>Public addresses\<close>

definition forbiddenRelayPrefixes :: "(addr \<times> nat) list" where
  "forbiddenRelayPrefixes = map MustParsePrefix
     [''0.0.0.0/8'', ''100.64.0.0/10'', ''192.0.0.0/24'', ''192.0.2.0/24'', ''192.88.99.0/24'',
      ''198.18.0.0/15'', ''198.51.100.0/24'', ''203.0.113.0/24'', ''240.0.0.0/4'', ''2001::/23'',
      ''2001:db8::/32'', ''2002::/16'', ''3fff::/20'']"

definition publicRelayAddress :: "addr \<Rightarrow> bool" where
  "publicRelayAddress a =
     (if \<not> IsValid a \<or> Is4In6 a \<or> Zone a \<noteq> [] \<or>
         \<not> IsGlobalUnicast a \<or> IsPrivate a \<or> IsLoopback a then False
      else if Is6 a \<and> \<not> prefix_contains (MustParsePrefix ''2000::/3'') a then False
      else \<not> list_ex (\<lambda>p. prefix_contains p a) forbiddenRelayPrefixes)"

definition forbiddenPublicPrefixes :: "(addr \<times> nat) list" where
  "forbiddenPublicPrefixes = map MustParsePrefix
     [''0.0.0.0/8'', ''100.64.0.0/10'', ''192.0.0.0/24'', ''192.0.2.0/24'', ''192.88.99.0/24'',
      ''198.18.0.0/15'', ''198.51.100.0/24'', ''203.0.113.0/24'', ''240.0.0.0/4'', ''2001::/23'',
      ''2001:db8::/32'', ''2002::/16'', ''3fff::/20'']"

definition publicAddress :: "addr \<Rightarrow> bool" where
  "publicAddress a =
     (if \<not> IsGlobalUnicast a \<or> IsPrivate a \<or> Is4In6 a \<or> Zone a \<noteq> [] then False
      else if Is6 a \<and> \<not> prefix_contains (MustParsePrefix ''2000::/3'') a then False
      else \<not> list_ex (\<lambda>p. prefix_contains p a) forbiddenPublicPrefixes)"

section \<open>Printing\<close>

definition digit_char :: "nat \<Rightarrow> char" where
  "digit_char d = char_of (if d < 10 then d + 48 else d + 87)"

text \<open>A number in base 10 or 16 without leading zeros.\<close>

fun show_base :: "nat \<Rightarrow> nat \<Rightarrow> string" where
  "show_base b n = (if n < b \<or> b < 2 then [digit_char n] else show_base b (n div b) @ [digit_char (n mod b)])"

declare show_base.simps [simp del]

definition string4 :: "u32 \<Rightarrow> string" where
  "string4 w = (let f = (\<lambda>i. show_base 10 (unat w div 2 ^ i mod 256)) in
     f 24 @ ''.'' @ f 16 @ ''.'' @ f 8 @ ''.'' @ f 0)"

definition v6_groups :: "128 word \<Rightarrow> nat list" where
  "v6_groups w = map (\<lambda>i. unat w div 2 ^ (16 * (7 - i)) mod 65536) [0..<8]"

text \<open>The first longest run of at least two zero groups, as its start and length.\<close>

definition zero_run :: "nat list \<Rightarrow> nat \<times> nat" where
  "zero_run gs = foldl (\<lambda>(start, len) i. let l = length (takeWhile (\<lambda>g. g = 0) (drop i gs)) in
      if l \<ge> 2 \<and> l > len then (i, l) else (start, len)) (length gs, 0) [0..<length gs]"

fun join_groups :: "nat list \<Rightarrow> string" where
  "join_groups [] = []"
| "join_groups [g] = show_base 16 g"
| "join_groups (g # gs) = show_base 16 g @ '':'' @ join_groups gs"

definition string6 :: "128 word \<Rightarrow> string" where
  "string6 w = (let gs = v6_groups w in case zero_run gs of (start, len) \<Rightarrow>
     if len = 0 then join_groups gs
     else join_groups (take start gs) @ ''::'' @ join_groups (drop (start + len) gs))"

definition addr_string :: "addr \<Rightarrow> string" where
  "addr_string a =
     (case a of
        NoAddr \<Rightarrow> ''invalid IP''
      | IPv4 w \<Rightarrow> string4 w
      | IPv6 w z \<Rightarrow> (if Is4In6 a then ''::ffff:'' @ string4 (ucast w) else string6 w)
                    @ (if z = [] then [] else ''%'' @ z))"

text \<open>\<open>AddrPort.String\<close>.\<close>

definition addr_port_string :: "addr_port \<Rightarrow> string" where
  "addr_port_string ap =
     (case ap_addr ap of
        NoAddr \<Rightarrow> ''invalid AddrPort''
      | IPv4 w \<Rightarrow> string4 w @ '':'' @ show_base 10 (unat (ap_port ap))
      | a \<Rightarrow> ''['' @ addr_string a @ '']:'' @ show_base 10 (unat (ap_port ap)))"

definition PublicDatacenterAddress :: "string \<Rightarrow> bool" where
  "PublicDatacenterAddress value =
     (case ParseAddr value of
        None \<Rightarrow> False
      | Some a \<Rightarrow> addr_string a = value \<and> publicAddress a)"

section \<open>The filters as address ranges\<close>

text \<open>A block of addresses is its first address and the first one after it.\<close>

definition within :: "nat \<Rightarrow> nat \<times> nat \<Rightarrow> bool" where
  "within n r \<longleftrightarrow> fst r \<le> n \<and> n < snd r"

lemma drop_bit_within:
  fixes w c :: "'a::len word"
  shows "drop_bit n w = c \<longleftrightarrow> within (unat w) (unat c * 2 ^ n, (unat c + 1) * 2 ^ n)"
proof -
  have "drop_bit n w = c \<longleftrightarrow> unat w div 2 ^ n = unat c"
    unfolding word_unat_eq_iff unat_drop_bit_eq by (simp add: drop_bit_eq_div)
  also have "\<dots> \<longleftrightarrow> unat c * 2 ^ n \<le> unat w \<and> unat w < (unat c + 1) * 2 ^ n"
  proof
    assume "unat w div 2 ^ n = unat c"
    then show "unat c * 2 ^ n \<le> unat w \<and> unat w < (unat c + 1) * 2 ^ n"
      using dividend_less_times_div [of "2 ^ n" "unat w"] times_div_less_eq_dividend [of "2 ^ n" "unat w"]
      by (simp add: algebra_simps)
  next
    assume "unat c * 2 ^ n \<le> unat w \<and> unat w < (unat c + 1) * 2 ^ n"
    then show "unat w div 2 ^ n = unat c" by (intro div_nat_eqI) (simp_all add: algebra_simps)
  qed
  finally show ?thesis by (simp add: within_def)
qed

lemma forbiddenRelayPrefixes_eq:
  "forbiddenRelayPrefixes =
     [(IPv4 0, 8), (IPv4 0x64400000, 10), (IPv4 0xC0000000, 24), (IPv4 0xC0000200, 24),
      (IPv4 0xC0586300, 24), (IPv4 0xC6120000, 15), (IPv4 0xC6336400, 24), (IPv4 0xCB007100, 24),
      (IPv4 0xF0000000, 4), (IPv6 0x20010000000000000000000000000000 [], 23),
      (IPv6 0x20010DB8000000000000000000000000 [], 32),
      (IPv6 0x20020000000000000000000000000000 [], 16),
      (IPv6 0x3FFF0000000000000000000000000000 [], 20)]"
  by code_simp

lemma global_prefix_eq: "MustParsePrefix ''2000::/3'' = (IPv6 0x20000000000000000000000000000000 [], 3)"
  by code_simp

lemma xor_zero_iff: "(a :: 'a::len word) XOR b = 0 \<longleftrightarrow> a = b"
  by (auto simp: bit_eq_iff bit_xor_iff)

lemma prefix_contains_v4 [simp]:
  "prefix_contains (IPv4 v, n) (IPv4 w) \<longleftrightarrow> drop_bit (32 - n) w = drop_bit (32 - n) v"
  by (simp add: prefix_contains_def drop_bit_xor xor_zero_iff)

lemma prefix_contains_v6 [simp]:
  "prefix_contains (IPv6 v y, n) (IPv6 w z) \<longleftrightarrow> z = [] \<and> drop_bit (128 - n) w = drop_bit (128 - n) v"
  by (simp add: prefix_contains_def drop_bit_xor xor_zero_iff)

lemma prefix_contains_mixed [simp]:
  "\<not> prefix_contains (IPv4 v, n) (IPv6 w z)" "\<not> prefix_contains (IPv6 v' y, n) (IPv4 w')"
  "\<not> prefix_contains p NoAddr"
  by (simp_all add: prefix_contains_def split: addr.splits)

text \<open>
  The special-purpose IPv4 blocks and the blocks within \<open>2000::/3\<close> that are not public, each as its
  first address and the first one after it.
\<close>

definition special_v4 :: "(nat \<times> nat) list" where
  "special_v4 =
     [(0x00000000, 0x1000000), (0x0A000000, 0xB000000), (0x64400000, 0x64800000),
      (0x7F000000, 0x80000000), (0xA9FE0000, 0xA9FF0000), (0xAC100000, 0xAC200000),
      (0xC0000000, 0xC0000100), (0xC0000200, 0xC0000300), (0xC0586300, 0xC0586400),
      (0xC0A80000, 0xC0A90000), (0xC6120000, 0xC6140000), (0xC6336400, 0xC6336500),
      (0xCB007100, 0xCB007200), (0xE0000000, 0x100000000)]"

definition special_v6 :: "(nat \<times> nat) list" where
  "special_v6 =
     [(0x20010000000000000000000000000000, 0x20010200000000000000000000000000),
      (0x20010DB8000000000000000000000000, 0x20010DB9000000000000000000000000),
      (0x20020000000000000000000000000000, 0x20030000000000000000000000000000),
      (0x3FFF0000000000000000000000000000, 0x3FFF1000000000000000000000000000)]"

lemma Unmap_simps [simp]:
  "Unmap (IPv4 v) = IPv4 v" "Unmap NoAddr = NoAddr"
  "\<not> Is4In6 (IPv6 w z) \<Longrightarrow> Unmap (IPv6 w z) = IPv6 w z"
  by (simp_all add: Unmap_def)

lemmas addr_predicates = IsLoopback_def IsMulticast_def IsLinkLocalUnicast_def IsPrivate_def

lemma publicRelayAddress_v4:
  "publicRelayAddress (IPv4 w) \<longleftrightarrow> \<not> list_ex (within (unat w)) special_v4"
proof -
  have "publicRelayAddress (IPv4 w) \<longleftrightarrow>
     \<not> (w = 0 \<or> w = 0xffffffff \<or> drop_bit 24 w = 127 \<or> drop_bit 28 w = 0xe \<or> drop_bit 16 w = 0xa9fe
       \<or> drop_bit 24 w = 10 \<or> drop_bit 20 w = 0xac1 \<or> drop_bit 16 w = 0xc0a8
       \<or> list_ex (\<lambda>p. prefix_contains p (IPv4 w)) forbiddenRelayPrefixes)"
    by (auto simp: publicRelayAddress_def IsValid_def IsGlobalUnicast_def Let_def addr_predicates)
  also have "\<dots> \<longleftrightarrow> \<not> list_ex (within (unat w)) special_v4"
  proof -
    have "\<not> within (unat w) (0, 0x1000000) \<Longrightarrow> w \<noteq> 0"
      and "\<not> within (unat w) (0xF0000000, 0x100000000) \<Longrightarrow> w \<noteq> 0xffffffff"
      and merge: "within (unat w) (0xE0000000, 0x100000000) \<longleftrightarrow>
        within (unat w) (0xE0000000, 0xF0000000) \<or> within (unat w) (0xF0000000, 0x100000000)"
      by (auto simp: within_def)
    then show ?thesis
      by (simp add: forbiddenRelayPrefixes_eq special_v4_def drop_bit_within) blast
  qed
  finally show ?thesis .
qed

lemma global_v6_plain:
  assumes "within (unat w) (0x20000000000000000000000000000000, 0x40000000000000000000000000000000)"
  shows "IsGlobalUnicast (IPv6 w z) \<and> \<not> Is4In6 (IPv6 w z) \<and> \<not> IsPrivate (IPv6 w z) \<and> \<not> IsLoopback (IPv6 w z)"
proof -
  have "\<not> Is4In6 (IPv6 w z)" using assms by (simp add: drop_bit_within within_def)
  moreover have "w \<noteq> 0" "w \<noteq> 1" using assms by (auto simp: within_def)
  ultimately show ?thesis using assms
    by (simp add: IsGlobalUnicast_def Let_def addr_predicates drop_bit_within within_def)
qed

lemma publicRelayAddress_v6:
  "publicRelayAddress (IPv6 w z) \<longleftrightarrow>
     z = [] \<and> within (unat w) (0x20000000000000000000000000000000, 0x40000000000000000000000000000000)
     \<and> \<not> list_ex (within (unat w)) special_v6"
proof (cases "z = [] \<and> within (unat w) (0x20000000000000000000000000000000, 0x40000000000000000000000000000000)")
  case True
  then have "publicRelayAddress (IPv6 w z) \<longleftrightarrow>
      \<not> list_ex (\<lambda>p. prefix_contains p (IPv6 w z)) forbiddenRelayPrefixes"
    using global_v6_plain [of w z]
    by (simp add: publicRelayAddress_def IsValid_def global_prefix_eq drop_bit_within)
  also have "\<dots> \<longleftrightarrow> \<not> list_ex (within (unat w)) special_v6"
    using True by (simp add: forbiddenRelayPrefixes_eq special_v6_def drop_bit_within)
  finally show ?thesis using True by simp
next
  case False
  then show ?thesis
    by (auto simp: publicRelayAddress_def global_prefix_eq drop_bit_within)
qed

text \<open>
  C35. The relay accepts exactly the unicast addresses outside the special-purpose blocks: an
  IPv4 address outside all of \<open>special_v4\<close> (private, loopback, link-local, shared, documentation,
  benchmarking, multicast, reserved), or an IPv6 address without zone inside \<open>2000::/3\<close> and
  outside \<open>special_v6\<close>; no mapped or translated address passes.
\<close>

theorem public_relay_ranges:
  "publicRelayAddress a =
     (case a of
        NoAddr \<Rightarrow> False
      | IPv4 w \<Rightarrow> \<not> list_ex (within (unat w)) special_v4
      | IPv6 w z \<Rightarrow> z = [] \<and> within (unat w) (0x20000000000000000000000000000000, 0x40000000000000000000000000000000)
          \<and> \<not> list_ex (within (unat w)) special_v6)"
  by (cases a) (simp_all only: addr.case publicRelayAddress_v4 publicRelayAddress_v6,
      simp add: publicRelayAddress_def IsValid_def)

text \<open>
  The two components that guard against private destinations, each with its own copy of the
  prefix table, accept the same addresses.
\<close>

theorem public_filters_agree: "publicAddress a = publicRelayAddress a"
proof -
  have "forbiddenPublicPrefixes = forbiddenRelayPrefixes"
    by (simp only: forbiddenPublicPrefixes_def forbiddenRelayPrefixes_def)
  moreover have "IsGlobalUnicast a \<Longrightarrow> \<not> Is4In6 a \<Longrightarrow> IsValid a \<and> \<not> IsLoopback a"
    by (cases a) (auto simp: IsGlobalUnicast_def IsValid_def Let_def)
  ultimately show ?thesis by (auto simp: publicAddress_def publicRelayAddress_def)
qed

end
