(* ===== verification/Slipstream_Local.thy ===== *)
theory Slipstream_Local
  imports Sha256 Net_Addr
begin

text \<open>
  The protocol between the core and the native Slipstream process
  (\<open>slipstream/local_io.go\<close>): the start-up message, the TCP handshake, authenticated DNS frames and
  the replay window; and the relay that carries DNS between them (\<open>slipstream/dns_relay.go\<close>).
\<close>

unbundle bit_operations_syntax

section \<open>Keys and frames\<close>

definition ascii_bytes :: "string \<Rightarrow> bytes" where
  "ascii_bytes s = map of_char s"

definition bootstrapMagic :: string where "bootstrapMagic = ''PKRVIPC1''"
definition readyMagic :: string where "readyMagic = ''PKRVRDY1''"
definition tcpMagic :: string where "tcpMagic = ''PKRVTCP1''"
definition dnsMagic :: string where "dnsMagic = ''PKRVDNS1''"
definition dnsFrameSize :: nat where "dnsFrameSize = 8 + 16 + 8 + 32"
definition childProof :: string where "childProof = ''pokrov/slipstream/local/v1/tcp/child'' @ [char_of (0::nat)]"
definition parentProof :: string where "parentProof = ''pokrov/slipstream/local/v1/tcp/parent'' @ [char_of (0::nat)]"
definition dnsQuery :: string where "dnsQuery = ''pokrov/slipstream/local/v1/dns/query'' @ [char_of (0::nat)]"
definition dnsReply :: string where "dnsReply = ''pokrov/slipstream/local/v1/dns/reply'' @ [char_of (0::nat)]"

record localAuth =
  la_key :: bytes
  la_generation :: bytes

text \<open>The array types fix the lengths.\<close>

definition auth_ok :: "localAuth \<Rightarrow> bool" where
  "auth_ok a \<longleftrightarrow> length (la_key a) = 32 \<and> length (la_generation a) = 16"

text \<open>\<open>newLocalAuth\<close>: the two readings of the random source, \<open>None\<close> where it fails.\<close>

definition newLocalAuth :: "bytes option \<Rightarrow> bytes option \<Rightarrow> localAuth option" where
  "newLocalAuth key_bytes generation_bytes =
     (case key_bytes of
        None \<Rightarrow> None
      | Some k \<Rightarrow> (case generation_bytes of
          None \<Rightarrow> None
        | Some g \<Rightarrow> Some \<lparr>la_key = k, la_generation = g\<rparr>))"

definition bootstrap :: "localAuth \<Rightarrow> bytes" where
  "bootstrap a = ascii_bytes bootstrapMagic @ la_key a @ la_generation a"

definition mac :: "localAuth \<Rightarrow> string \<Rightarrow> bytes list \<Rightarrow> bytes" where
  "mac a domain parts = hmac_sha256 (la_key a) (ascii_bytes domain @ la_generation a @ concat parts)"

text \<open>
  The TCP handshake. The arguments are the nonce the random source gave, what the connection
  answers to the two writes, the reply it delivers and what resetting its deadline says; the
  result is the error and the messages written.
\<close>

datatype local_error = LE_io | LE_authentication | LE_protocol | LE_port

definition authenticate ::
    "localAuth \<Rightarrow> bytes option \<Rightarrow> bool \<Rightarrow> bytes option \<Rightarrow> bool \<Rightarrow> bool \<Rightarrow> local_error option \<times> bytes list" where
  "authenticate a nonce hello_ok reply proof_ok reset_ok =
     (case nonce of
        None \<Rightarrow> (Some LE_io, [])
      | Some n \<Rightarrow>
          let hello = ascii_bytes tcpMagic @ la_generation a @ n in
          if \<not> hello_ok then (Some LE_io, [hello])
          else (case reply of
              None \<Rightarrow> (Some LE_io, [hello])
            | Some r \<Rightarrow>
                if drop 32 r \<noteq> mac a childProof [n, take 32 r] then (Some LE_authentication, [hello])
                else let answer = mac a parentProof [n, take 32 r] in
                  if \<not> proof_ok then (Some LE_io, [hello, answer])
                  else (if reset_ok then None else Some LE_io, [hello, answer])))"

definition loopback_addr :: addr where
  "loopback_addr = IPv4 0x7F000001"

definition parseReady :: "localAuth \<Rightarrow> bytes \<Rightarrow> local_error + (string \<times> addr_port)" where
  "parseReady a message =
     (if length message \<noteq> 28 \<or> take 8 message \<noteq> ascii_bytes readyMagic
         \<or> take 16 (drop 8 message) \<noteq> la_generation a then Inl LE_protocol
      else let tcpPort = of_nat (be_nat (take 2 (drop 24 message))) :: u16;
               udpPort = of_nat (be_nat (take 2 (drop 26 message))) :: u16
           in if tcpPort = 0 \<or> udpPort = 0 then Inl LE_port
              else Inr (addr_port_string \<lparr>ap_addr = loopback_addr, ap_port = tcpPort\<rparr>,
                        \<lparr>ap_addr = loopback_addr, ap_port = udpPort\<rparr>))"

definition sealDNS :: "localAuth \<Rightarrow> string \<Rightarrow> u64 \<Rightarrow> bytes \<Rightarrow> bytes" where
  "sealDNS a domain sequence payload =
     (let message = ascii_bytes dnsMagic @ la_generation a @ be_bytes 8 (unat sequence) @ payload
      in message @ mac a domain [message])"

text \<open>The three results of \<open>openDNS\<close>; the last one says whether the frame is valid.\<close>

definition openDNS :: "localAuth \<Rightarrow> string \<Rightarrow> bytes \<Rightarrow> bytes \<times> u64 \<times> bool" where
  "openDNS a domain message =
     (if length message \<le> dnsFrameSize \<or> take 8 message \<noteq> ascii_bytes dnsMagic
         \<or> take 16 (drop 8 message) \<noteq> la_generation a then ([], 0, False)
      else let fin = length message - 32 in
        if drop fin message \<noteq> mac a domain [take fin message] then ([], 0, False)
        else let sequence = of_nat (be_nat (take 8 (drop 24 message)))
             in (drop 32 (take fin message), sequence, sequence \<noteq> 0))"

section \<open>The replay window\<close>

record replayWindow =
  highest :: u64
  bitmap :: u64

definition new_window :: replayWindow where
  "new_window = \<lparr>highest = 0, bitmap = 0\<rparr>"

definition accept :: "u64 \<Rightarrow> replayWindow \<Rightarrow> bool \<times> replayWindow" where
  "accept sequence w =
     (if sequence = 0 then (False, w)
      else if sequence > highest w then
        let shift = sequence - highest w in
          (True, w\<lparr>bitmap := push_bit (unat shift) (bitmap w) OR 1, highest := sequence\<rparr>)
      else let distance = highest w - sequence in
        if distance \<ge> 64 \<or> bitmap w AND push_bit (unat distance) 1 \<noteq> 0 then (False, w)
        else (True, w\<lparr>bitmap := bitmap w OR push_bit (unat distance) 1\<rparr>))"

section \<open>The DNS relay\<close>

text \<open>
  The relay's state. \<open>rl_sequence\<close> is the counter local to \<open>forwardReplies\<close>; the two
  flags say which goroutine still runs (the wait group); \<open>rl_queries\<close> and \<open>rl_replies\<close> collect what
  was written to the two sockets; \<open>rl_stopped\<close> says that the \<open>once\<close> has run, which closes both
  sockets and \<open>done\<close>.
\<close>

record relay =
  rl_auth :: localAuth
  rl_peer :: addr_port
  rl_window :: replayWindow
  rl_stopped :: bool
  rl_query_loop :: bool
  rl_reply_loop :: bool
  rl_sequence :: u64
  rl_queries :: "(u64 \<times> bytes) list"
  rl_replies :: "(bytes \<times> addr_port) list"

definition newDNSRelay :: "localAuth \<Rightarrow> bool \<Rightarrow> relay option" where
  "newDNSRelay auth listens =
     (if \<not> listens then None
      else Some \<lparr>rl_auth = auth, rl_peer = \<lparr>ap_addr = NoAddr, ap_port = 0\<rparr>, rl_window = new_window,
        rl_stopped = False, rl_query_loop = True, rl_reply_loop = True, rl_sequence = 0,
        rl_queries = [], rl_replies = []\<rparr>)"

definition setPeer :: "addr_port \<Rightarrow> relay \<Rightarrow> relay" where
  "setPeer peer r = r\<lparr>rl_peer := peer\<rparr>"

definition stop :: "relay \<Rightarrow> relay" where
  "stop r = r\<lparr>rl_stopped := True\<rparr>"

text \<open>
  One turn of \<open>forwardQueries\<close>: the datagram read and its sender (\<open>None\<close> for a read error) and
  whether the write to the remote socket works. A return runs the deferred calls.
\<close>

definition query_turn :: "(bytes \<times> addr_port) option \<Rightarrow> bool \<Rightarrow> relay \<Rightarrow> relay" where
  "query_turn read write_ok r =
     (case read of
        None \<Rightarrow> (stop r)\<lparr>rl_query_loop := False\<rparr>
      | Some (packet, peer) \<Rightarrow>
          (case openDNS (rl_auth r) dnsQuery packet of
             (payload, sequence, valid) \<Rightarrow>
               if \<not> valid then r
               else if rl_peer r \<noteq> peer then r
               else (case accept sequence (rl_window r) of
                   (accepted, w) \<Rightarrow>
                     let r' = r\<lparr>rl_window := w\<rparr> in
                     if \<not> accepted then r'
                     else if \<not> write_ok then (stop r')\<lparr>rl_query_loop := False\<rparr>
                     else r'\<lparr>rl_queries := rl_queries r @ [(sequence, payload)]\<rparr>)))"

text \<open>One turn of \<open>forwardReplies\<close>.\<close>

definition reply_turn :: "bytes option \<Rightarrow> bool \<Rightarrow> relay \<Rightarrow> relay" where
  "reply_turn read write_ok r =
     (case read of
        None \<Rightarrow> (stop r)\<lparr>rl_reply_loop := False\<rparr>
      | Some packet \<Rightarrow>
          if IsValid (ap_addr (rl_peer r)) then
            let r' = r\<lparr>rl_sequence := rl_sequence r + 1\<rparr> in
            if \<not> write_ok then (stop r')\<lparr>rl_reply_loop := False\<rparr>
            else r'\<lparr>rl_replies := rl_replies r @ [(sealDNS (rl_auth r) dnsReply (rl_sequence r') packet, rl_peer r)]\<rparr>
          else r)"

section \<open>The window remembers what it accepted\<close>

text \<open>
  The window as a set of numbers: nothing above the highest, and bit \<open>d\<close> tells whether the number
  \<open>d\<close> below the highest was accepted. Zero stands for numbers below the range.
\<close>

definition window_rel :: "replayWindow \<Rightarrow> nat set \<Rightarrow> bool" where
  "window_rel w S \<longleftrightarrow> 0 \<notin> S \<and> (\<forall>s\<in>S. s \<le> unat (highest w))
     \<and> (\<forall>d<64. bit (bitmap w) d \<longleftrightarrow> unat (highest w) - d \<in> S)"

lemma window_rel_new: "window_rel new_window {}"
  by (simp add: window_rel_def new_window_def)

lemma and_single_bit: "(w :: 'a::len word) AND 2 ^ n = 0 \<longleftrightarrow> \<not> bit w n"
proof
  assume "w AND 2 ^ n = 0"
  then have "\<not> bit (w AND 2 ^ n) n" by simp
  then show "\<not> bit w n" by (auto simp: bit_and_iff bit_exp_iff dest: bit_imp_le_length)
next
  assume "\<not> bit w n"
  then show "w AND 2 ^ n = 0" by (intro bit_word_eqI) (auto simp: bit_and_iff bit_exp_iff)
qed

lemma window_rel_advance:
  assumes rel: "window_rel w S" and gt: "highest w < s"
  shows "window_rel (w\<lparr>bitmap := push_bit (unat (s - highest w)) (bitmap w) OR 1, highest := s\<rparr>)
           (insert (unat s) S)"
proof -
  let ?H = "unat (highest w)"
  have lt: "?H < unat s" using gt by (simp add: word_less_nat_alt)
  have k: "unat (s - highest w) = unat s - ?H"
    using gt by (simp add: unat_sub less_imp_le)
  have "bit (push_bit (unat s - ?H) (bitmap w) OR 1) d \<longleftrightarrow> unat s - d \<in> insert (unat s) S" if d: "d < 64" for d
  proof (cases "unat s - ?H \<le> d")
    case True
    then have "unat s - d = ?H - (d - (unat s - ?H))" using lt by simp
    moreover have "bit (bitmap w) (d - (unat s - ?H)) \<longleftrightarrow> ?H - (d - (unat s - ?H)) \<in> S"
      using rel d by (simp add: window_rel_def)
    moreover have "d \<noteq> 0" using True lt by simp
    ultimately show ?thesis using True lt d
      by (auto simp: bit_or_iff bit_push_bit_iff bit_1_iff bit_exp_iff)
  next
    case False
    then have "unat s - d \<notin> S" using rel by (auto simp: window_rel_def)
    then show ?thesis using False lt d by (auto simp: bit_or_iff bit_push_bit_iff bit_1_iff bit_exp_iff)
  qed
  then show ?thesis using rel lt by (auto simp: window_rel_def k)
qed

lemma window_rel_fill:
  assumes rel: "window_rel w S" and "s \<noteq> 0" and le: "s \<le> highest w"
  shows "window_rel (w\<lparr>bitmap := bitmap w OR push_bit (unat (highest w - s)) 1\<rparr>) (insert (unat s) S)"
proof -
  let ?H = "unat (highest w)"
  have les: "unat s \<le> ?H" and pos: "0 < unat s"
    using le \<open>s \<noteq> 0\<close> by (simp_all add: word_le_nat_alt unat_gt_0)
  have k: "unat (highest w - s) = ?H - unat s" using le by (simp add: unat_sub)
  have "bit (bitmap w OR push_bit (?H - unat s) 1) d \<longleftrightarrow> ?H - d \<in> insert (unat s) S" if d: "d < 64" for d
  proof -
    have "bit (bitmap w OR push_bit (?H - unat s) 1) d \<longleftrightarrow> ?H - d \<in> S \<or> d = ?H - unat s"
      using rel d by (auto simp: window_rel_def bit_or_iff bit_push_bit_iff bit_1_iff bit_exp_iff)
    also have "d = ?H - unat s \<longleftrightarrow> ?H - d = unat s" using les pos by auto
    finally show ?thesis by auto
  qed
  then show ?thesis using rel les pos by (auto simp: window_rel_def k)
qed

lemma accept_spec:
  assumes rel: "window_rel w S"
  shows "fst (accept s w) \<longleftrightarrow> s \<noteq> 0 \<and> unat s \<notin> S \<and> unat (highest w) < unat s + 64"
    and "window_rel (snd (accept s w)) (if fst (accept s w) then insert (unat s) S else S)"
    and "unat (highest (snd (accept s w))) = (if fst (accept s w) then max (unat s) (unat (highest w)) else unat (highest w))"
proof -
  have "(fst (accept s w) \<longleftrightarrow> s \<noteq> 0 \<and> unat s \<notin> S \<and> unat (highest w) < unat s + 64)
    \<and> window_rel (snd (accept s w)) (if fst (accept s w) then insert (unat s) S else S)
    \<and> unat (highest (snd (accept s w))) = (if fst (accept s w) then max (unat s) (unat (highest w)) else unat (highest w))"
  proof (cases "s = 0")
    case True
    then show ?thesis using rel by (simp add: accept_def)
  next
    case nz: False
    show ?thesis
    proof (cases "highest w < s")
      case True
      moreover have "unat s \<notin> S" using rel True by (auto simp: window_rel_def word_less_nat_alt)
      ultimately show ?thesis using nz window_rel_advance [OF rel True]
        by (simp add: accept_def Let_def word_less_nat_alt)
    next
      case False
      then have le: "s \<le> highest w" by simp
      then have les: "unat s \<le> unat (highest w)" by (simp add: word_le_nat_alt)
      define k where "k = unat (highest w) - unat s"
      have k: "unat (highest w - s) = k" using le by (simp add: unat_sub k_def)
      then have far: "64 \<le> highest w - s \<longleftrightarrow> 64 \<le> k" by (simp add: word_le_nat_alt)
      have "bit (bitmap w) k \<longleftrightarrow> unat s \<in> S" if "k < 64"
        using rel that les by (simp add: window_rel_def k_def)
      then have "fst (accept s w) \<longleftrightarrow> unat s \<notin> S \<and> k < 64"
        using nz False by (auto simp: accept_def Let_def and_single_bit k far)
      moreover have "k < 64 \<longleftrightarrow> unat (highest w) < unat s + 64" using les by (auto simp: k_def)
      moreover have "snd (accept s w) = (if fst (accept s w)
          then w\<lparr>bitmap := bitmap w OR push_bit (unat (highest w - s)) 1\<rparr> else w)"
        using nz False by (simp add: accept_def Let_def)
      ultimately show ?thesis using nz les rel window_rel_fill [OF rel nz le] by simp
    qed
  qed
  then show "fst (accept s w) \<longleftrightarrow> s \<noteq> 0 \<and> unat s \<notin> S \<and> unat (highest w) < unat s + 64"
    and "window_rel (snd (accept s w)) (if fst (accept s w) then insert (unat s) S else S)"
    and "unat (highest (snd (accept s w))) = (if fst (accept s w) then max (unat s) (unat (highest w)) else unat (highest w))"
    by blast+
qed

section \<open>Frames\<close>

lemma length_ascii_bytes [simp]: "length (ascii_bytes s) = length s"
  by (simp add: ascii_bytes_def)

lemma length_dnsMagic [simp]: "length dnsMagic = 8"
  by (simp add: dnsMagic_def)

lemma length_mac [simp]: "length (mac a domain parts) = 32"
  by (simp add: mac_def)

lemma be_bytes_word: "of_nat (be_nat (be_bytes 8 (unat (s :: u64)))) = s"
proof -
  have "unat s < 2 ^ LENGTH(64)" by (rule unsigned_less)
  then have "unat s < 256 ^ 8" by simp
  then show ?thesis by (simp add: be_nat_be_bytes)
qed

lemma word_be_bytes:
  assumes "length bs = 8"
  shows "be_bytes 8 (unat (of_nat (be_nat bs) :: u64)) = bs"
proof -
  have "be_nat bs < 2 ^ 64" using be_nat_bound [of bs] assms by simp
  then have "unat (of_nat (be_nat bs) :: u64) = be_nat bs" by (simp add: unat_of_nat take_bit_nat_eq_self)
  then show ?thesis using be_bytes_be_nat [of bs] assms by simp
qed

lemma openDNS_sealDNS:
  assumes "auth_ok a" and "s \<noteq> 0" and "p \<noteq> []"
  shows "openDNS a d (sealDNS a d s p) = (p, s, True)"
  using assms
  by (simp add: openDNS_def sealDNS_def Let_def dnsFrameSize_def auth_ok_def be_bytes_word)

lemma openDNS_sound:
  assumes "auth_ok a" and "openDNS a d m = (p, s, True)"
  shows "m = sealDNS a d s p \<and> s \<noteq> 0 \<and> p \<noteq> []"
proof -
  let ?e = "length m - 32"
  have len: "length m > 64" and magic: "take 8 m = ascii_bytes dnsMagic"
    and gen: "take 16 (drop 8 m) = la_generation a" and tag: "drop ?e m = mac a d [take ?e m]"
    and p: "p = drop 32 (take ?e m)" and s: "s = of_nat (be_nat (take 8 (drop 24 m)))" and "s \<noteq> 0"
    using assms(2) by (auto simp: openDNS_def Let_def dnsFrameSize_def split: if_splits)
  have "be_bytes 8 (unat s) = take 8 (drop 24 m)" using len by (simp add: s word_be_bytes)
  moreover have "take ?e m = take 8 m @ take 16 (drop 8 m) @ take 8 (drop 24 m) @ drop 32 (take ?e m)"
    using len by (intro nth_equalityI) (auto simp: nth_append)
  ultimately have "take ?e m = ascii_bytes dnsMagic @ la_generation a @ be_bytes 8 (unat s) @ p"
    by (simp add: magic gen p)
  moreover have "m = take ?e m @ drop ?e m" by simp
  ultimately have "m = sealDNS a d s p" by (metis sealDNS_def tag)
  moreover have "p \<noteq> []" using len by (simp add: p)
  ultimately show ?thesis using \<open>s \<noteq> 0\<close> by simp
qed

section \<open>Runs of the relay\<close>

datatype relay_event =
    PeerSet addr_port
  | QueryTurn "(bytes \<times> addr_port) option" bool
  | ReplyTurn "bytes option" bool
  | Stopped

text \<open>The steps of the goroutines and of their owner, in any order; a loop that returned takes no turn.\<close>

definition relay_do :: "relay_event \<Rightarrow> relay \<Rightarrow> relay" where
  "relay_do e r =
     (case e of
        PeerSet p \<Rightarrow> setPeer p r
      | QueryTurn rd ok \<Rightarrow> if rl_query_loop r then query_turn rd ok r else r
      | ReplyTurn rd ok \<Rightarrow> if rl_reply_loop r then reply_turn rd ok r else r
      | Stopped \<Rightarrow> stop r)"

definition relay_run :: "localAuth \<Rightarrow> relay_event list \<Rightarrow> relay" where
  "relay_run a evs = fold relay_do evs (the (newDNSRelay a True))"

lemma relay_run_Nil: "relay_run a [] = the (newDNSRelay a True)"
  and relay_run_snoc: "relay_run a (evs @ [e]) = relay_do e (relay_run a evs)"
  by (simp_all add: relay_run_def)

lemma rl_auth_turns [simp]:
  "rl_auth (query_turn rd ok r) = rl_auth r" "rl_auth (reply_turn rd' ok r) = rl_auth r"
  "rl_auth (setPeer p r) = rl_auth r" "rl_auth (stop r) = rl_auth r"
  by (auto simp: query_turn_def reply_turn_def setPeer_def stop_def Let_def split: option.splits prod.splits)

lemma rl_auth_run [simp]: "rl_auth (relay_run a evs) = a"
  by (induction evs rule: rev_induct)
    (simp_all add: relay_run_Nil newDNSRelay_def relay_run_snoc relay_do_def split: relay_event.splits)

lemma rl_peer_run: "rl_peer (relay_run a evs) = \<lparr>ap_addr = NoAddr, ap_port = 0\<rparr>
    \<or> PeerSet (rl_peer (relay_run a evs)) \<in> set evs"
  by (induction evs rule: rev_induct)
    (auto simp: relay_run_Nil newDNSRelay_def relay_run_snoc relay_do_def query_turn_def reply_turn_def
      setPeer_def stop_def Let_def split: relay_event.splits option.splits prod.splits if_splits)

lemma query_turnE:
  obtains (idle) "rl_window (query_turn rd ok r) = rl_window r" "rl_queries (query_turn rd ok r) = rl_queries r"
  | (taken) packet p s where "rd = Some (packet, rl_peer r)" "openDNS (rl_auth r) dnsQuery packet = (p, s, True)"
      "rl_window (query_turn rd ok r) = snd (accept s (rl_window r))"
      "rl_queries (query_turn rd ok r) = rl_queries r @ (if fst (accept s (rl_window r)) \<and> ok then [(s, p)] else [])"
proof (cases rd)
  case None
  then show ?thesis by (intro idle) (simp_all add: query_turn_def stop_def)
next
  case (Some pp)
  obtain packet peer where rd: "rd = Some (packet, peer)" using Some by (cases pp) auto
  obtain p s v where o: "openDNS (rl_auth r) dnsQuery packet = (p, s, v)" by (metis prod_cases3)
  show ?thesis
  proof (cases "v \<and> peer = rl_peer r")
    case True
    then show ?thesis using rd o
      by (intro taken [of packet p s])
        (auto simp: query_turn_def stop_def Let_def split: prod.splits)
  next
    case False
    then show ?thesis using rd o by (intro idle) (auto simp: query_turn_def)
  qed
qed

definition relay_inv :: "relay \<Rightarrow> bool" where
  "relay_inv r \<longleftrightarrow> distinct (map fst (rl_queries r))
     \<and> (\<exists>S. window_rel (rl_window r) S \<and> (\<forall>q \<in> set (rl_queries r). unat (fst q) \<in> S))"

definition relay_init :: "relay \<Rightarrow> bool" where
  "relay_init r \<longleftrightarrow> (\<exists>a. newDNSRelay a True = Some r)"

definition relay_step :: "relay \<Rightarrow> relay \<Rightarrow> bool" where
  "relay_step r r' \<longleftrightarrow> (\<exists>e. r' = relay_do e r)"

lemma relay_inv_query: "relay_inv r \<Longrightarrow> relay_inv (query_turn rd ok r)"
proof (cases rule: query_turnE [of rd ok r])
  case (taken packet p s)
  assume "relay_inv r"
  then obtain S where S: "window_rel (rl_window r) S" "\<forall>q \<in> set (rl_queries r). unat (fst q) \<in> S"
    and dist: "distinct (map fst (rl_queries r))" by (auto simp: relay_inv_def)
  show ?thesis
  proof (cases "fst (accept s (rl_window r))")
    case True
    then have "unat s \<notin> S" "window_rel (rl_window (query_turn rd ok r)) (insert (unat s) S)"
      using accept_spec(1,2) [OF S(1), of s] taken by auto
    then show ?thesis using S(2) dist taken(4) by (auto simp: relay_inv_def)
  next
    case False
    then show ?thesis using accept_spec(2) [OF S(1), of s] S(2) dist taken by (auto simp: relay_inv_def)
  qed
qed (simp add: relay_inv_def)

lemma relay_inv_other [simp]:
  "relay_inv (setPeer p r) = relay_inv r" "relay_inv (stop r) = relay_inv r"
  "relay_inv (reply_turn rd ok r) = relay_inv r"
  by (auto simp: relay_inv_def setPeer_def stop_def reply_turn_def Let_def split: option.splits)

interpretation relay_once: invariant_system relay_init relay_step relay_inv
proof
  show "relay_inv r" if "relay_init r" for r
    using that window_rel_new by (auto simp: relay_init_def newDNSRelay_def relay_inv_def)
  show "relay_inv r'" if "relay_inv r" "relay_step r r'" for r r'
  proof -
    from that(2) obtain e where "r' = relay_do e r" by (auto simp: relay_step_def)
    with that(1) show ?thesis by (cases e) (auto simp: relay_do_def intro: relay_inv_query)
  qed
qed

lemma relay_run_reachable: "reachable relay_init relay_step (relay_run a evs)"
proof (induction evs rule: rev_induct)
  case Nil
  show ?case by (rule reachable.start) (simp add: relay_init_def relay_run_Nil newDNSRelay_def)
next
  case (snoc e evs)
  then show ?case by (rule reachable.next_step) (auto simp: relay_step_def relay_run_snoc)
qed

text \<open>Where the forwarded queries come from.\<close>

lemma forwarded_authentic:
  assumes "auth_ok a" and "(s, p) \<in> set (rl_queries (relay_run a evs))"
  shows "s \<noteq> 0 \<and> p \<noteq> [] \<and> (\<exists>peer. (peer = \<lparr>ap_addr = NoAddr, ap_port = 0\<rparr> \<or> PeerSet peer \<in> set evs)
     \<and> QueryTurn (Some (sealDNS a dnsQuery s p, peer)) True \<in> set evs)"
  using assms(2)
proof (induction evs rule: rev_induct)
  case Nil
  then show ?case by (simp add: relay_run_Nil newDNSRelay_def)
next
  case (snoc e evs)
  let ?r = "relay_run a evs"
  show ?case
  proof (cases "(s, p) \<in> set (rl_queries ?r)")
    case True
    with snoc.IH show ?thesis by (metis UnCI set_append)
  next
    case False
    with snoc.prems obtain rd ok where e: "e = QueryTurn rd ok" and new: "(s, p) \<in> set (rl_queries (query_turn rd ok ?r))"
      by (auto simp: relay_run_snoc relay_do_def setPeer_def stop_def reply_turn_def Let_def
          split: relay_event.splits option.splits if_splits)
    from new False show ?thesis
    proof (cases rule: query_turnE [of rd ok ?r])
      case (taken packet p' s')
      with new False have "ok" "p' = p" "s' = s" by (auto split: if_splits)
      with taken openDNS_sound [OF assms(1), of dnsQuery packet p s]
      show ?thesis using rl_peer_run [of a evs] e by auto
    qed simp
  qed
qed

text \<open>The frames written to the child are numbered from one.\<close>

lemma replies_numbered:
  "\<exists>ps. map fst (rl_replies (relay_run a evs)) = map2 (\<lambda>i p. sealDNS a dnsReply (of_nat i) p) [1..<Suc (length ps)] ps
     \<and> (\<forall>p \<in> set ps. ReplyTurn (Some p) True \<in> set evs)
     \<and> (rl_reply_loop (relay_run a evs) \<longrightarrow> rl_sequence (relay_run a evs) = of_nat (length ps))"
proof (induction evs rule: rev_induct)
  case Nil
  then show ?case by (simp add: relay_run_Nil newDNSRelay_def)
next
  case (snoc e evs)
  let ?r = "relay_run a evs"
  obtain ps where ps: "map fst (rl_replies ?r) = map2 (\<lambda>i p. sealDNS a dnsReply (of_nat i) p) [1..<Suc (length ps)] ps"
    "\<forall>p \<in> set ps. ReplyTurn (Some p) True \<in> set evs" "rl_reply_loop ?r \<longrightarrow> rl_sequence ?r = of_nat (length ps)"
    using snoc.IH by blast
  show ?case
  proof (cases "\<exists>p. e = ReplyTurn (Some p) True \<and> rl_reply_loop ?r \<and> IsValid (ap_addr (rl_peer ?r))")
    case True
    then obtain p where e: "e = ReplyTurn (Some p) True" and live: "rl_reply_loop ?r" "IsValid (ap_addr (rl_peer ?r))"
      by blast
    have "[1..<Suc (length (ps @ [p]))] = [1..<Suc (length ps)] @ [Suc (length ps)]" by simp
    then have "map fst (rl_replies (relay_run a (evs @ [e])))
        = map2 (\<lambda>i p. sealDNS a dnsReply (of_nat i) p) [1..<Suc (length (ps @ [p]))] (ps @ [p])"
      using ps live e by (simp add: relay_run_snoc relay_do_def reply_turn_def Let_def add.commute del: upt_Suc)
    moreover have "rl_sequence (relay_run a (evs @ [e])) = of_nat (length (ps @ [p]))"
      using ps live e by (simp add: relay_run_snoc relay_do_def reply_turn_def Let_def add.commute)
    moreover have "\<forall>q \<in> set (ps @ [p]). ReplyTurn (Some q) True \<in> set (evs @ [e])" using ps(2) e by simp
    ultimately show ?thesis by blast
  next
    case False
    then have "rl_replies (relay_run a (evs @ [e])) = rl_replies ?r
      \<and> (rl_reply_loop (relay_run a (evs @ [e])) \<longrightarrow> rl_reply_loop ?r \<and> rl_sequence (relay_run a (evs @ [e])) = rl_sequence ?r)"
      by (cases e) (auto simp: relay_run_snoc relay_do_def reply_turn_def query_turn_def setPeer_def stop_def Let_def
          split: option.splits prod.splits)
    with ps show ?thesis by (metis UnCI set_append)
  qed
qed
section \<open>Properties\<close>

text \<open>The numbers a fresh window accepts from a sequence, in order, and the window it ends with.\<close>

fun run_window :: "u64 list \<Rightarrow> replayWindow \<Rightarrow> u64 list \<times> replayWindow" where
  "run_window [] w = ([], w)"
| "run_window (s # ss) w =
     (case accept s w of (ok, w') \<Rightarrow> case run_window ss w' of (acc, w'') \<Rightarrow> (if ok then s # acc else acc, w''))"

definition max_u64 :: "u64 list \<Rightarrow> u64" where
  "max_u64 ss = foldr max ss 0"

lemma run_window_rel:
  assumes "window_rel w S" and "run_window ss w = (acc, w')"
  shows "window_rel w' (S \<union> unat ` set acc) \<and> unat (highest w') = max (unat (max_u64 acc)) (unat (highest w))"
  using assms
proof (induction ss arbitrary: w S acc)
  case Nil
  then show ?case by (simp add: max_u64_def)
next
  case (Cons s ss)
  obtain ok w1 where ac: "accept s w = (ok, w1)" by fastforce
  obtain acc1 where run: "run_window ss w1 = (acc1, w')" and acc: "acc = (if ok then s # acc1 else acc1)"
    using Cons.prems(2) ac by (auto split: prod.splits)
  note spec = accept_spec(2,3) [OF Cons.prems(1), of s]
  have rel: "window_rel w1 (if ok then insert (unat s) S else S)" using spec ac by simp
  have hi: "unat (highest w1) = (if ok then max (unat s) (unat (highest w)) else unat (highest w))"
    using spec ac by simp
  have mx: "unat (max a b) = max (unat a) (unat b)" for a b :: u64
    by (simp add: max_def word_le_nat_alt)
  from Cons.IH [OF rel run] show ?case
    using acc hi by (cases ok) (auto simp: max_u64_def mx max.assoc max.left_commute)
qed

text \<open>
  C32. The replay window is exact: after any sequence of frames, a frame number is accepted if and
  only if it is not zero, was not accepted before, and is less than 64 below the highest number
  accepted so far. In particular no number is ever accepted twice, and reordering by fewer than
  64 positions loses nothing.
\<close>

theorem replay_window_exact:
  "fst (accept s (snd (run_window ss new_window))) \<longleftrightarrow>
     s \<noteq> 0 \<and> s \<notin> set (fst (run_window ss new_window))
     \<and> unat (max_u64 (fst (run_window ss new_window))) < unat s + 64"
proof -
  obtain acc w' where run: "run_window ss new_window = (acc, w')" by fastforce
  have "window_rel w' (unat ` set acc)" and "unat (highest w') = unat (max_u64 acc)"
    using run_window_rel [OF window_rel_new run] by (simp_all add: new_window_def)
  moreover have "unat s \<in> unat ` set acc \<longleftrightarrow> s \<in> set acc"
    by (auto simp: word_unat_eq_iff [of s] intro: rev_image_eqI dest: word_unat_eq_iff [THEN iffD2])
  ultimately show ?thesis using accept_spec(1) [of w' "unat ` set acc" s] run by simp
qed

text \<open>
  C33. Opening inverts sealing in both directions: a frame is accepted with payload \<open>p\<close> and number
  \<open>s\<close> exactly when it is, byte for byte, the frame that the holder of the same key and generation
  seals for \<open>p\<close> and \<open>s\<close> in that direction; empty payloads and the number zero never pass.
\<close>

theorem dns_frame_roundtrip:
  assumes "auth_ok a"
  shows "openDNS a d m = (p, s, True) \<longleftrightarrow> m = sealDNS a d s p \<and> s \<noteq> 0 \<and> p \<noteq> []"
  using openDNS_sound [OF assms] openDNS_sealDNS [OF assms] by blast

definition demo_auth :: localAuth where
  "demo_auth = \<lparr>la_key = replicate 32 7, la_generation = replicate 16 9\<rparr>"

lemma demo_auth_ok: "auth_ok demo_auth"
  by (simp add: demo_auth_def auth_ok_def)

theorem dns_frame_roundtrip_witness:
  "auth_ok demo_auth \<and> openDNS demo_auth dnsQuery (sealDNS demo_auth dnsQuery 5 [1, 2]) = ([1, 2], 5, True)"
  using demo_auth_ok dns_frame_roundtrip [OF demo_auth_ok, of dnsQuery "sealDNS demo_auth dnsQuery 5 [1, 2]" "[1, 2]" 5]
  by simp

text \<open>
  C34. Whatever the loopback socket receives, in whatever order the relay's loops, its owner and
  the network act, the relay sends a query to the remote resolver only if the registered peer
  sent an authentic frame with that payload, and it sends each frame number at most once.
\<close>

theorem relay_forwards_once:
  assumes "auth_ok a"
    and senders: "\<And>packet peer ok. QueryTurn (Some (packet, peer)) ok \<in> set evs \<Longrightarrow> IsValid (ap_addr peer)"
    and "(s, p) \<in> set (rl_queries (relay_run a evs))"
  shows "distinct (map fst (rl_queries (relay_run a evs))) \<and> s \<noteq> 0 \<and> p \<noteq> []
    \<and> (\<exists>peer. PeerSet peer \<in> set evs \<and> QueryTurn (Some (sealDNS a dnsQuery s p, peer)) True \<in> set evs)"
proof -
  have "distinct (map fst (rl_queries (relay_run a evs)))"
    using relay_once.inv_reachable [OF relay_run_reachable] by (simp add: relay_inv_def)
  with forwarded_authentic [OF assms(1,3)] senders show ?thesis
    by (fastforce simp: IsValid_def)
qed

definition demo_peer :: addr_port where
  "demo_peer = \<lparr>ap_addr = IPv4 0x7F000001, ap_port = 5353\<rparr>"

definition demo_events :: "relay_event list" where
  "demo_events = [PeerSet demo_peer, QueryTurn (Some (sealDNS demo_auth dnsQuery 1 [42], demo_peer)) True,
     QueryTurn (Some (sealDNS demo_auth dnsQuery 1 [42], demo_peer)) True]"

lemma demo_forwards: "rl_queries (relay_run demo_auth demo_events) = [(1, [42])]"
  by (simp add: demo_events_def relay_run_def relay_do_def newDNSRelay_def setPeer_def query_turn_def
      openDNS_sealDNS [OF demo_auth_ok] accept_def new_window_def Let_def)

theorem relay_forwards_once_witness:
  "rl_queries (relay_run demo_auth demo_events) = [(1, [42])]
   \<and> (\<exists>peer. PeerSet peer \<in> set demo_events
        \<and> QueryTurn (Some (sealDNS demo_auth dnsQuery 1 [42], peer)) True \<in> set demo_events)"
proof -
  have "IsValid (ap_addr peer)" if "QueryTurn (Some (packet, peer)) ok \<in> set demo_events" for packet peer ok
    using that by (auto simp: demo_events_def demo_peer_def IsValid_def)
  with relay_forwards_once [OF demo_auth_ok, of demo_events 1 "[42]"] demo_forwards show ?thesis by simp
qed

text \<open>
  The \<open>i\<close>-th frame the relay writes to the child carries the number \<open>i\<close> and a payload that the
  remote resolver sent, and the child's side opens it to exactly that payload; so a child with a
  replay window takes each of them.
\<close>

theorem relay_replies_open:
  assumes "auth_ok a" and "i < length (rl_replies (relay_run a evs))"
    and "length (rl_replies (relay_run a evs)) < 2 ^ 64"
  shows "\<exists>p. ReplyTurn (Some p) True \<in> set evs
    \<and> fst (rl_replies (relay_run a evs) ! i) = sealDNS a dnsReply (of_nat (i + 1)) p
    \<and> (p \<noteq> [] \<longrightarrow> openDNS a dnsReply (fst (rl_replies (relay_run a evs) ! i)) = (p, of_nat (i + 1), True))"
proof -
  obtain ps where ps: "map fst (rl_replies (relay_run a evs))
      = map2 (\<lambda>i p. sealDNS a dnsReply (of_nat i) p) [1..<Suc (length ps)] ps"
    "\<forall>p \<in> set ps. ReplyTurn (Some p) True \<in> set evs"
    using replies_numbered [of a evs] by blast
  have len: "length ps = length (rl_replies (relay_run a evs))"
    using arg_cong [OF ps(1), of length] by (simp del: upt_Suc)
  have "fst (rl_replies (relay_run a evs) ! i) = map fst (rl_replies (relay_run a evs)) ! i"
    using assms(2) by simp
  also have "\<dots> = sealDNS a dnsReply (of_nat (i + 1)) (ps ! i)"
    unfolding ps(1) using assms(2) len by (simp del: upt_Suc)
  finally have frame: "fst (rl_replies (relay_run a evs) ! i) = sealDNS a dnsReply (of_nat (i + 1)) (ps ! i)" .
  have "(of_nat (i + 1) :: u64) \<noteq> 0"
    unfolding word_of_nat_eq_0_iff using assms(2,3) by (intro nat_dvd_not_less) simp_all
  with frame ps(2) len assms(2) openDNS_sealDNS [OF assms(1)] show ?thesis
    by (intro exI [of _ "ps ! i"]) auto
qed

definition demo_reply_events :: "relay_event list" where
  "demo_reply_events = [PeerSet demo_peer, ReplyTurn (Some [8]) True, ReplyTurn (Some [9]) True]"

theorem relay_replies_open_witness:
  "length (rl_replies (relay_run demo_auth demo_reply_events)) = 2
   \<and> (\<exists>p. ReplyTurn (Some p) True \<in> set demo_reply_events
        \<and> fst (rl_replies (relay_run demo_auth demo_reply_events) ! 1) = sealDNS demo_auth dnsReply 2 p)"
proof -
  have len: "length (rl_replies (relay_run demo_auth demo_reply_events)) = 2"
    by (simp add: demo_reply_events_def relay_run_def relay_do_def newDNSRelay_def setPeer_def reply_turn_def
        demo_peer_def IsValid_def Let_def)
  then have "1 < length (rl_replies (relay_run demo_auth demo_reply_events))"
    and "length (rl_replies (relay_run demo_auth demo_reply_events)) < 2 ^ 64" by simp_all
  from relay_replies_open [OF demo_auth_ok this] len show ?thesis by auto
qed

end
