(* ===== verification/ATS_Lease.thy ===== *)
theory ATS_Lease
  imports Go_Time
begin

text \<open>
  The endpoint lease of \<open>protocol/pokrov/atslease/outbound.go\<close>: an outbound that admits flows to one
  upstream for at most ten minutes and lets admitted flows live for at most an hour, that can be
  revoked (drained or terminated) and then never admits again. Flows and the connections under
  them are identities; a connection that the code closes is added to \<open>al_shut\<close>. The mutex makes
  each operation below one step; calls to \<open>close\<close> that the code makes after it released the mutex
  are steps of their own.
\<close>

section \<open>State\<close>

datatype lease_error = errLease

record ats_flow =
  af_connection :: "ref option"
  af_packet :: "ref option"
  af_timer :: bool
  af_cancelled :: bool
  af_closed :: bool

record ats_lease =
  al_tag :: string
  al_upstreamTag :: string
  al_leaseID :: string
  al_upstream :: "ref option"
  al_issued :: gotime
  al_newUntil :: gotime
  al_activeUntil :: gotime
  al_newDeadline :: gotime
  al_activeDeadline :: gotime
  al_closed :: bool
  al_revoked :: bool
  al_terminateActive :: bool
  al_flows :: "ref set"
  al_flow :: "ref \<Rightarrow> ats_flow"
  al_next :: ref
  al_shut :: "ref set"

record ats_options =
  ao_LeaseID :: string
  ao_UpstreamTag :: string
  ao_IssuedAt :: string
  ao_NewFlowsUntil :: string
  ao_ActiveFlowsUntil :: string

definition new_flow :: ats_flow where
  "new_flow = \<lparr>af_connection = None, af_packet = None, af_timer = False, af_cancelled = False, af_closed = False\<rparr>"

section \<open>Operations\<close>

definition parseTime :: "string \<Rightarrow> lease_error + gotime" where
  "parseTime value = (case canonical_time value of None \<Rightarrow> Inl errLease | Some t \<Rightarrow> Inr t)"

definition leaseIDPattern :: "string \<Rightarrow> bool" where
  "leaseIDPattern s \<longleftrightarrow> has_prefix s ''lease_'' \<and> length s = 38 \<and> list_all is_lower_hex (drop 6 s)"

text \<open>\<open>manager\<close> says whether the context holds an outbound manager.\<close>

definition NewOutbound :: "bool \<Rightarrow> string \<Rightarrow> ats_options \<Rightarrow> gotime \<Rightarrow> lease_error + ats_lease" where
  "NewOutbound manager tag options now =
     (case parseTime (ao_IssuedAt options) of Inl e \<Rightarrow> Inl e | Inr issued \<Rightarrow>
      case parseTime (ao_NewFlowsUntil options) of Inl e \<Rightarrow> Inl e | Inr newUntil \<Rightarrow>
      case parseTime (ao_ActiveFlowsUntil options) of Inl e \<Rightarrow> Inl e | Inr activeUntil \<Rightarrow>
      if tag = [] \<or> ao_UpstreamTag options = [] \<or> ao_UpstreamTag options = tag
         \<or> \<not> leaseIDPattern (ao_LeaseID options) \<or> time_before now issued
         \<or> \<not> time_before now newUntil \<or> \<not> time_after newUntil issued \<or> time_before activeUntil newUntil
         \<or> time_sub newUntil issued > 10 * minute \<or> time_sub activeUntil issued > hour
      then Inl errLease
      else if \<not> manager then Inl errLease
      else Inr \<lparr>al_tag = tag, al_upstreamTag = ao_UpstreamTag options, al_leaseID = ao_LeaseID options,
        al_upstream = None, al_issued = issued, al_newUntil = newUntil, al_activeUntil = activeUntil,
        al_newDeadline = monotonic_deadline now newUntil, al_activeDeadline = monotonic_deadline now activeUntil,
        al_closed = False, al_revoked = False, al_terminateActive = False,
        al_flows = {}, al_flow = (\<lambda>_. new_flow), al_next = 0, al_shut = {}\<rparr>)"

definition admits :: "ats_lease \<Rightarrow> gotime \<Rightarrow> bool" where
  "admits h now \<longleftrightarrow> \<not> al_closed h \<and> \<not> al_revoked h \<and> \<not> time_before now (al_issued h)
     \<and> time_before now (al_newUntil h) \<and> time_before now (al_newDeadline h)"

definition ConfirmLease :: "string \<Rightarrow> string \<Rightarrow> string \<Rightarrow> string \<Rightarrow> gotime \<Rightarrow> ats_lease \<Rightarrow> bool" where
  "ConfirmLease leaseID issuedAt newFlowsUntil activeFlowsUntil now h \<longleftrightarrow>
     al_upstream h \<noteq> None \<and> admits h now \<and> time_before now (al_activeDeadline h)
     \<and> al_leaseID h = leaseID \<and> format_time (al_issued h) = issuedAt
     \<and> format_time (al_newUntil h) = newFlowsUntil \<and> format_time (al_activeUntil h) = activeFlowsUntil"

text \<open>\<open>lookup\<close> is the outbound manager: the outbound under a tag and its type.\<close>

definition Start :: "(string \<Rightarrow> (ref \<times> string) option) \<Rightarrow> ats_lease \<Rightarrow> lease_error option \<times> ats_lease" where
  "Start lookup h =
     (case lookup (al_upstreamTag h) of
        None \<Rightarrow> (Some errLease, h)
      | Some (upstream, type) \<Rightarrow>
          if type \<noteq> ''vless'' then (Some errLease, h)
          else if al_closed h then (Some errLease, h)
          else (None, h\<lparr>al_upstream := Some upstream\<rparr>))"

text \<open>\<open>leaseFlow.close\<close>.\<close>

definition close_flow :: "ref \<Rightarrow> ats_lease \<Rightarrow> ats_lease" where
  "close_flow f h =
     (let fl = al_flow h f in
      if af_closed fl then h
      else h\<lparr>al_flows := al_flows h - {f},
             al_flow := (al_flow h)(f := fl\<lparr>af_closed := True, af_timer := False, af_cancelled := True\<rparr>),
             al_shut := al_shut h \<union> (case af_connection fl of
                 Some c \<Rightarrow> {c}
               | None \<Rightarrow> (case af_packet fl of Some c \<Rightarrow> {c} | None \<Rightarrow> {}))\<rparr>)"

text \<open>The critical section of \<open>revoke\<close>: the flows it will close and the new state.\<close>

definition revoke_locked :: "bool \<Rightarrow> bool \<Rightarrow> ats_lease \<Rightarrow> ref set \<times> ats_lease" where
  "revoke_locked closeOutbound terminate h =
     ((if terminate then al_flows h
       else {f \<in> al_flows h. af_connection (al_flow h f) = None \<and> af_packet (al_flow h f) = None}),
      h\<lparr>al_closed := al_closed h \<or> closeOutbound, al_revoked := True,
        al_terminateActive := al_terminateActive h \<or> terminate\<rparr>)"

text \<open>The whole of \<open>revoke\<close> when no other goroutine gets in between, its flows in some order.\<close>

definition revoke :: "bool \<Rightarrow> bool \<Rightarrow> ats_lease \<Rightarrow> ats_lease" where
  "revoke closeOutbound terminate h =
     (case revoke_locked closeOutbound terminate h of
        (fs, h') \<Rightarrow> fold close_flow (sorted_list_of_set fs) h')"

definition Close :: "ats_lease \<Rightarrow> ats_lease" where
  "Close h = revoke True True h"

definition Revoke :: "bool \<Rightarrow> ats_lease \<Rightarrow> ats_lease" where
  "Revoke terminate h = revoke False terminate h"

definition RevokeLease :: "string \<Rightarrow> bool \<Rightarrow> ats_lease \<Rightarrow> bool \<times> ats_lease" where
  "RevokeLease leaseID terminate h =
     (if al_leaseID h \<noteq> leaseID then (False, h) else (True, Revoke terminate h))"

definition begin_flow :: "gotime \<Rightarrow> ats_lease \<Rightarrow> (lease_error + ref) \<times> ats_lease" where
  "begin_flow now h =
     (if al_upstream h = None \<or> \<not> admits h now then (Inl errLease, h)
      else (Inr (al_next h),
        h\<lparr>al_flows := insert (al_next h) (al_flows h), al_flow := (al_flow h)(al_next h := new_flow),
          al_next := al_next h + 1\<rparr>))"

text \<open>The timer that \<open>DialContext\<close> sets at the end of admission cancels the dial.\<close>

definition cancel_flow :: "ref \<Rightarrow> ats_lease \<Rightarrow> ats_lease" where
  "cancel_flow f h = h\<lparr>al_flow := (al_flow h)(f := (al_flow h f)\<lparr>af_cancelled := True\<rparr>)\<rparr>"

text \<open>\<open>cancelled\<close> is \<open>dialCtx.Err() != nil\<close>.\<close>

definition finishDial ::
    "ref \<Rightarrow> bool \<Rightarrow> ref option \<Rightarrow> ref option \<Rightarrow> gotime \<Rightarrow> ats_lease \<Rightarrow> lease_error option \<times> ats_lease" where
  "finishDial flow cancelled conn packet now h =
     (if af_closed (al_flow h flow) \<or> cancelled \<or> \<not> admits h now
         \<or> \<not> time_before now (al_activeUntil h) \<or> \<not> time_before now (al_activeDeadline h)
      then (Some errLease, close_flow flow (h\<lparr>al_shut := al_shut h \<union> set_option conn \<union> set_option packet\<rparr>))
      else (None, h\<lparr>al_flow := (al_flow h)(flow := (al_flow h flow)
              \<lparr>af_connection := conn, af_packet := packet, af_timer := True\<rparr>)\<rparr>))"

text \<open>
  What \<open>DialContext\<close> does once the upstream's dial has returned (\<open>None\<close> is its error), and
  \<open>ListenPacket\<close> likewise.
\<close>

definition dial_returned :: "ref \<Rightarrow> bool \<Rightarrow> ref option \<Rightarrow> gotime \<Rightarrow> ats_lease \<Rightarrow> (lease_error option + ref) \<times> ats_lease" where
  "dial_returned flow cancelled result now h =
     (case result of
        None \<Rightarrow> (Inl None, close_flow flow h)
      | Some conn \<Rightarrow> (case finishDial flow cancelled (Some conn) None now h of
            (Some e, h') \<Rightarrow> (Inl (Some e), h')
          | (None, h') \<Rightarrow> (Inr conn, h')))"

definition listen_returned :: "ref \<Rightarrow> bool \<Rightarrow> ref option \<Rightarrow> gotime \<Rightarrow> ats_lease \<Rightarrow> (lease_error option + ref) \<times> ats_lease" where
  "listen_returned flow cancelled result now h =
     (case result of
        None \<Rightarrow> (Inl None, close_flow flow h)
      | Some packet \<Rightarrow> (case finishDial flow cancelled None (Some packet) now h of
            (Some e, h') \<Rightarrow> (Inl (Some e), h')
          | (None, h') \<Rightarrow> (Inr packet, h')))"

text \<open>\<open>begin\<close>, the upstream's dial with whatever happens to the lease meanwhile, and the end.\<close>

definition DialContext ::
    "gotime \<Rightarrow> (ats_lease \<Rightarrow> (bool \<times> ref option) \<times> ats_lease) \<Rightarrow> gotime \<Rightarrow> ats_lease
      \<Rightarrow> (lease_error option + ref) \<times> ats_lease" where
  "DialContext now1 dial now2 h =
     (case begin_flow now1 h of
        (Inl e, h1) \<Rightarrow> (Inl (Some e), h1)
      | (Inr flow, h1) \<Rightarrow> (case dial h1 of
            ((cancelled, result), h2) \<Rightarrow> dial_returned flow cancelled result now2 h2))"

definition ListenPacket ::
    "gotime \<Rightarrow> (ats_lease \<Rightarrow> (bool \<times> ref option) \<times> ats_lease) \<Rightarrow> gotime \<Rightarrow> ats_lease
      \<Rightarrow> (lease_error option + ref) \<times> ats_lease" where
  "ListenPacket now1 listen now2 h =
     (case begin_flow now1 h of
        (Inl e, h1) \<Rightarrow> (Inl (Some e), h1)
      | (Inr flow, h1) \<Rightarrow> (case listen h1 of
            ((cancelled, result), h2) \<Rightarrow> listen_returned flow cancelled result now2 h2))"

definition current :: "ref \<Rightarrow> gotime \<Rightarrow> ats_lease \<Rightarrow> bool" where
  "current f now h \<longleftrightarrow> \<not> af_closed (al_flow h f) \<and> \<not> al_terminateActive h
     \<and> time_before now (al_activeUntil h) \<and> time_before now (al_activeDeadline h)"

text \<open>
  \<open>Read\<close> and \<open>ReadFrom\<close> of a leased connection: the underlying read, with whatever happens to the
  lease while it blocks, between two checks.
\<close>

definition leased_read ::
    "ref \<Rightarrow> gotime \<Rightarrow> (ats_lease \<Rightarrow> 'r \<times> ats_lease) \<Rightarrow> gotime \<Rightarrow> ats_lease \<Rightarrow> (lease_error + 'r) \<times> ats_lease" where
  "leased_read f now1 read now2 h =
     (if \<not> current f now1 h then (Inl errLease, close_flow f h)
      else case read h of
        (r, h') \<Rightarrow> if \<not> current f now2 h' then (Inl errLease, close_flow f h') else (Inr r, h'))"

text \<open>\<open>Write\<close> and \<open>WriteTo\<close>: one check, then the underlying write.\<close>

definition leased_write ::
    "ref \<Rightarrow> gotime \<Rightarrow> (ats_lease \<Rightarrow> 'r \<times> ats_lease) \<Rightarrow> ats_lease \<Rightarrow> (lease_error + 'r) \<times> ats_lease" where
  "leased_write f now write h =
     (if \<not> current f now h then (Inl errLease, close_flow f h)
      else case write h of (r, h') \<Rightarrow> (Inr r, h'))"

text \<open>\<open>CloseWrite\<close>: \<open>half\<close> is the underlying half-close where the connection has one.\<close>

definition leased_close_write ::
    "ref \<Rightarrow> gotime \<Rightarrow> (ats_lease \<Rightarrow> 'r \<times> ats_lease) option \<Rightarrow> ats_lease \<Rightarrow> (lease_error + 'r option) \<times> ats_lease" where
  "leased_close_write f now half h =
     (if \<not> current f now h then (Inl errLease, close_flow f h)
      else case half of
        Some cw \<Rightarrow> (case cw h of (r, h') \<Rightarrow> (Inr (Some r), h'))
      | None \<Rightarrow> (Inr None, close_flow f h))"

section \<open>Interleavings\<close>

text \<open>
  The lease together with the calls in progress: flows that some \<open>revoke\<close> has yet to close, flows
  whose dial is running, and the connections that the upstream has returned so far.
\<close>

record ats_system =
  gate :: ats_lease
  closing :: "ref set"
  dialing :: "ref set"
  dialed :: "ref set"

inductive ats_step :: "ats_system \<Rightarrow> ats_system \<Rightarrow> bool" where
  start: "Start lookup (gate s) = (r, h) \<Longrightarrow> ats_step s (s\<lparr>gate := h\<rparr>)"
| revoke: "revoke_locked c t (gate s) = (fs, h) \<Longrightarrow>
    ats_step s (s\<lparr>gate := h, closing := closing s \<union> fs\<rparr>)"
| revoke_close: "f \<in> closing s \<Longrightarrow>
    ats_step s (s\<lparr>gate := close_flow f (gate s), closing := closing s - {f}\<rparr>)"
| admit: "begin_flow now (gate s) = (Inr f, h) \<Longrightarrow>
    ats_step s (s\<lparr>gate := h, dialing := insert f (dialing s)\<rparr>)"
| dial_deadline: "f \<in> dialing s \<Longrightarrow> ats_step s (s\<lparr>gate := cancel_flow f (gate s)\<rparr>)"
| dial_failed: "f \<in> dialing s \<Longrightarrow>
    ats_step s (s\<lparr>gate := close_flow f (gate s), dialing := dialing s - {f}\<rparr>)"
| dial_conn: "f \<in> dialing s \<Longrightarrow> c \<notin> dialed s \<Longrightarrow> af_cancelled (al_flow (gate s) f) \<longrightarrow> cancelled \<Longrightarrow>
    dial_returned f cancelled (Some c) now (gate s) = (r, h) \<Longrightarrow>
    ats_step s (s\<lparr>gate := h, dialing := dialing s - {f}, dialed := insert c (dialed s)\<rparr>)"
| dial_packet: "f \<in> dialing s \<Longrightarrow> c \<notin> dialed s \<Longrightarrow> af_cancelled (al_flow (gate s) f) \<longrightarrow> cancelled \<Longrightarrow>
    listen_returned f cancelled (Some c) now (gate s) = (r, h) \<Longrightarrow>
    ats_step s (s\<lparr>gate := h, dialing := dialing s - {f}, dialed := insert c (dialed s)\<rparr>)"
| flow_close: "f < al_next (gate s) \<Longrightarrow> f \<notin> dialing s \<Longrightarrow> ats_step s (s\<lparr>gate := close_flow f (gate s)\<rparr>)"

definition ats_init :: "bool \<Rightarrow> string \<Rightarrow> ats_options \<Rightarrow> gotime \<Rightarrow> ats_system \<Rightarrow> bool" where
  "ats_init manager tag options now s \<longleftrightarrow>
     (\<exists>h. NewOutbound manager tag options now = Inr h \<and> s = \<lparr>gate = h, closing = {}, dialing = {}, dialed = {}\<rparr>)"

inductive_cases ats_stepE: "ats_step s t"

section \<open>What no step changes\<close>

lemma close_flow_fixed [frame_simps]:
  "al_tag (close_flow f h) = al_tag h" "al_leaseID (close_flow f h) = al_leaseID h"
  "al_issued (close_flow f h) = al_issued h" "al_newUntil (close_flow f h) = al_newUntil h"
  "al_activeUntil (close_flow f h) = al_activeUntil h" "al_newDeadline (close_flow f h) = al_newDeadline h"
  "al_activeDeadline (close_flow f h) = al_activeDeadline h" "al_revoked (close_flow f h) = al_revoked h"
  "al_closed (close_flow f h) = al_closed h" "al_terminateActive (close_flow f h) = al_terminateActive h"
  "al_next (close_flow f h) = al_next h"
  by (simp_all add: close_flow_def Let_def)

text \<open>The terms of the lease.\<close>

definition same_terms :: "ats_lease \<Rightarrow> ats_lease \<Rightarrow> bool" where
  "same_terms h h' \<longleftrightarrow> al_leaseID h' = al_leaseID h \<and> al_issued h' = al_issued h \<and> al_newUntil h' = al_newUntil h
     \<and> al_activeUntil h' = al_activeUntil h \<and> al_newDeadline h' = al_newDeadline h
     \<and> al_activeDeadline h' = al_activeDeadline h"

lemma finishDial_terms:
  "same_terms h (snd (finishDial f cancelled conn packet now h))
   \<and> al_revoked (snd (finishDial f cancelled conn packet now h)) = al_revoked h
   \<and> al_closed (snd (finishDial f cancelled conn packet now h)) = al_closed h
   \<and> al_terminateActive (snd (finishDial f cancelled conn packet now h)) = al_terminateActive h
   \<and> al_next (snd (finishDial f cancelled conn packet now h)) = al_next h"
  by (simp add: finishDial_def same_terms_def frame_simps)

lemma snd_dial_returned [simp]:
  "snd (dial_returned f cancelled (Some c) now h) = snd (finishDial f cancelled (Some c) None now h)"
  "snd (listen_returned f cancelled (Some c) now h) = snd (finishDial f cancelled None (Some c) now h)"
  by (simp_all add: dial_returned_def listen_returned_def split: prod.splits option.splits)

lemma ats_step_terms:
  assumes "ats_step s t"
  shows "same_terms (gate s) (gate t) \<and> (al_revoked (gate s) \<longrightarrow> al_revoked (gate t))
    \<and> (al_terminateActive (gate s) \<longrightarrow> al_terminateActive (gate t))"
  using assms
proof cases
  case (dial_conn f c cancelled now r h)
  then have "h = snd (finishDial f cancelled (Some c) None now (gate s))" by (metis snd_conv snd_dial_returned(1))
  with dial_conn(1) finishDial_terms [of "gate s" f cancelled "Some c" None now] show ?thesis by simp
next
  case (dial_packet f c cancelled now r h)
  then have "h = snd (finishDial f cancelled None (Some c) now (gate s))" by (metis snd_conv snd_dial_returned(2))
  with dial_packet(1) finishDial_terms [of "gate s" f cancelled None "Some c" now] show ?thesis by simp
qed (auto simp: same_terms_def Start_def revoke_locked_def begin_flow_def cancel_flow_def frame_simps
    split: option.splits prod.splits if_splits)
section \<open>Flows and connections\<close>

text \<open>
  The registry holds exactly the open flows; every connection the upstream handed over is closed
  or belongs to an open flow; a closed flow's dial is cancelled; after a termination every open
  flow, and after a drain every open flow without a connection, is about to be closed.
\<close>

definition ats_owned :: "ats_lease \<Rightarrow> ref set \<Rightarrow> bool" where
  "ats_owned h cs \<longleftrightarrow> (\<forall>c \<in> cs. c \<in> al_shut h \<or>
     (\<exists>f \<in> al_flows h. af_connection (al_flow h f) = Some c \<or> af_packet (al_flow h f) = Some c))"

definition ats_inv :: "ats_system \<Rightarrow> bool" where
  "ats_inv s \<longleftrightarrow> (let h = gate s in
     (\<forall>f. f \<in> al_flows h \<longleftrightarrow> f < al_next h \<and> \<not> af_closed (al_flow h f))
     \<and> (\<forall>f < al_next h. af_closed (al_flow h f) \<longrightarrow> af_cancelled (al_flow h f))
     \<and> (\<forall>f \<in> dialing s. f < al_next h \<and> af_connection (al_flow h f) = None \<and> af_packet (al_flow h f) = None)
     \<and> (\<forall>f < al_next h. af_connection (al_flow h f) = None \<or> af_packet (al_flow h f) = None)
     \<and> (\<forall>f \<in> closing s. f < al_next h)
     \<and> ats_owned h (dialed s)
     \<and> (al_terminateActive h \<longrightarrow> al_revoked h \<and> al_flows h \<subseteq> closing s)
     \<and> (al_revoked h \<longrightarrow> (\<forall>f \<in> al_flows h. af_connection (al_flow h f) = None \<and> af_packet (al_flow h f) = None
          \<longrightarrow> f \<in> closing s)))"

lemma ats_owned_update:
  assumes own: "ats_owned h cs" and f: "f \<in> al_flows h \<Longrightarrow> af_connection (al_flow h f) = None \<and> af_packet (al_flow h f) = None"
    and h': "al_flow h' = (al_flow h)(f := fl)" "al_shut h' = al_shut h" "al_flows h \<subseteq> al_flows h'"
  shows "ats_owned h' cs"
  unfolding ats_owned_def
proof
  fix c assume "c \<in> cs"
  then consider "c \<in> al_shut h" | f' where "f' \<in> al_flows h" "f' \<noteq> f"
      "af_connection (al_flow h f') = Some c \<or> af_packet (al_flow h f') = Some c"
    using own f by (force simp: ats_owned_def)
  then show "c \<in> al_shut h' \<or> (\<exists>f \<in> al_flows h'. af_connection (al_flow h' f) = Some c \<or> af_packet (al_flow h' f) = Some c)"
    by cases (use h' in auto)
qed

lemma ats_owned_flags [simp]:
  "ats_owned (h\<lparr>al_closed := a, al_revoked := b, al_terminateActive := c\<rparr>) cs = ats_owned h cs"
  "ats_owned (h\<lparr>al_upstream := u\<rparr>) cs = ats_owned h cs"
  by (simp_all add: ats_owned_def)

lemma ats_inv_init: "ats_init manager tag options now s \<Longrightarrow> ats_inv s"
  by (auto simp: ats_init_def NewOutbound_def ats_inv_def ats_owned_def split: sum.splits if_splits)

lemma ats_inv_owned: "ats_inv s \<Longrightarrow> ats_owned (gate s) (dialed s)"
  by (simp add: ats_inv_def Let_def)

lemma ats_inv_close:
  assumes "ats_inv s" and "f < al_next (gate s)" and "D = dialing s \<or> D = dialing s - {f}"
    and "C = closing s \<or> C = closing s - {f}"
  shows "ats_inv (s\<lparr>gate := close_flow f (gate s), closing := C, dialing := D\<rparr>)"
proof (cases "af_closed (al_flow (gate s) f)")
  case True
  then have "close_flow f (gate s) = gate s" "f \<notin> al_flows (gate s)"
    using assms(1,2) by (auto simp: close_flow_def ats_inv_def Let_def)
  then show ?thesis using assms by (auto simp: ats_inv_def Let_def)
next
  case False
  let ?fl = "al_flow (gate s) f"
  have "af_connection ?fl = None \<or> af_packet ?fl = None" using assms(1,2) by (auto simp: ats_inv_def Let_def)
  then have shut: "al_shut (close_flow f (gate s)) = al_shut (gate s) \<union> set_option (af_connection ?fl) \<union> set_option (af_packet ?fl)"
    using False by (auto simp: close_flow_def Let_def split: option.splits)
  have flows: "al_flows (close_flow f (gate s)) = al_flows (gate s) - {f}"
    and flow: "al_flow (close_flow f (gate s)) = (al_flow (gate s))
      (f := ?fl\<lparr>af_closed := True, af_timer := False, af_cancelled := True\<rparr>)"
    using False by (simp_all add: close_flow_def Let_def)
  from ats_inv_owned [OF assms(1)] have "ats_owned (close_flow f (gate s)) (dialed s)"
    unfolding ats_owned_def shut flows flow by fastforce
  with assms show ?thesis
    by (auto simp: ats_inv_def Let_def flows flow frame_simps)
qed
lemma ats_inv_finishDial:
  assumes inv: "ats_inv s" and f: "f \<in> dialing s" and one: "{conn, packet} = {None, Some c}"
    and fin: "finishDial f cancelled conn packet now (gate s) = (r, h)"
  shows "ats_inv (s\<lparr>gate := h, dialing := dialing s - {f}, dialed := insert c (dialed s)\<rparr>)"
proof (cases r)
  case None
  let ?fl = "al_flow (gate s) f"
  have h: "h = (gate s)\<lparr>al_flow := (al_flow (gate s))(f := ?fl\<lparr>af_connection := conn, af_packet := packet, af_timer := True\<rparr>)\<rparr>"
    and live: "\<not> af_closed ?fl" "\<not> al_revoked (gate s)"
    using fin None by (auto simp: finishDial_def admits_def split: if_splits)
  have flow: "f < al_next (gate s)" "f \<in> al_flows (gate s)" "af_connection ?fl = None" "af_packet ?fl = None"
    using inv f live by (auto simp: ats_inv_def Let_def)
  from ats_inv_owned [OF inv] have "ats_owned h (dialed s)"
    by (rule ats_owned_update) (use flow(3,4) in \<open>auto simp: h\<close>)
  moreover have "ats_owned h {c}"
  proof -
    have "af_connection (al_flow h f) = Some c \<or> af_packet (al_flow h f) = Some c"
      using one by (auto simp: h doubleton_eq_iff)
    moreover have "f \<in> al_flows h" using flow(2) by (simp add: h)
    ultimately show ?thesis by (auto simp: ats_owned_def)
  qed
  ultimately have "ats_owned h (insert c (dialed s))" by (auto simp: ats_owned_def)
  then show ?thesis using inv live one flow
    by (auto simp: h ats_inv_def Let_def doubleton_eq_iff)
next
  case (Some e)
  let ?g = "(gate s)\<lparr>al_shut := al_shut (gate s) \<union> set_option conn \<union> set_option packet\<rparr>"
  let ?s = "s\<lparr>gate := ?g, dialed := insert c (dialed s)\<rparr>"
  have h: "h = close_flow f ?g" using fin Some by (auto simp: finishDial_def split: if_splits)
  have "ats_inv ?s" using inv one by (auto simp: ats_inv_def ats_owned_def Let_def doubleton_eq_iff)
  moreover have "f < al_next (gate ?s)" using inv f by (auto simp: ats_inv_def Let_def)
  ultimately have "ats_inv (?s\<lparr>gate := close_flow f (gate ?s), closing := closing ?s, dialing := dialing ?s - {f}\<rparr>)"
    by (intro ats_inv_close) auto
  then show ?thesis by (cases s) (simp add: h)
qed

lemma ats_inv_begin:
  assumes inv: "ats_inv s" and "begin_flow now (gate s) = (Inr f, h)"
  shows "ats_inv (s\<lparr>gate := h, dialing := insert f (dialing s)\<rparr>)"
proof -
  have h: "f = al_next (gate s)" "\<not> al_revoked (gate s)"
    "h = (gate s)\<lparr>al_flows := insert f (al_flows (gate s)), al_flow := (al_flow (gate s))(f := new_flow), al_next := f + 1\<rparr>"
    using assms(2) by (auto simp: begin_flow_def admits_def split: if_splits)
  have "f \<notin> al_flows (gate s)" using inv h(1) by (simp add: ats_inv_def Let_def)
  moreover have "ats_owned h (dialed s)"
    by (rule ats_owned_update [OF ats_inv_owned [OF inv]]) (use \<open>f \<notin> al_flows (gate s)\<close> in \<open>auto simp: h(3)\<close>)
  ultimately show ?thesis using inv h
    by (auto simp: ats_inv_def Let_def new_flow_def less_Suc_eq)
qed

lemma ats_inv_start:
  assumes "ats_inv s" "Start lookup (gate s) = (r, h)"
  shows "ats_inv (s\<lparr>gate := h\<rparr>)"
proof -
  have "h = gate s \<or> (\<exists>u. h = (gate s)\<lparr>al_upstream := Some u\<rparr>)"
    using assms(2) by (auto simp: Start_def split: option.splits if_splits)
  then show ?thesis using assms(1) by (elim disjE exE) (simp_all add: ats_inv_def ats_owned_def Let_def)
qed

lemma ats_inv_step:
  assumes inv: "ats_inv s" and "ats_step s t"
  shows "ats_inv t"
  using assms(2)
proof cases
  case (start lookup r h)
  with ats_inv_start [OF inv] show ?thesis by blast
next
  case (revoke c terminate fs h)
  then have h: "h = (gate s)\<lparr>al_closed := al_closed (gate s) \<or> c, al_revoked := True,
      al_terminateActive := al_terminateActive (gate s) \<or> terminate\<rparr>"
    and fs: "fs \<subseteq> al_flows (gate s)" "terminate \<Longrightarrow> fs = al_flows (gate s)"
      "\<And>f. f \<in> al_flows (gate s) \<Longrightarrow> af_connection (al_flow (gate s) f) = None \<Longrightarrow>
         af_packet (al_flow (gate s) f) = None \<Longrightarrow> f \<in> fs"
    by (auto simp: revoke_locked_def split: if_splits)
  from inv fs show ?thesis
    unfolding revoke(1) ats_inv_def Let_def h by simp blast
next
  case (revoke_close f)
  then have "f < al_next (gate s)" using inv by (simp add: ats_inv_def Let_def)
  from ats_inv_close [OF inv this, of "dialing s" "closing s - {f}"] revoke_close show ?thesis by simp
next
  case (admit now f h)
  with ats_inv_begin [OF inv] show ?thesis by blast
next
  case (dial_deadline f)
  have "ats_owned (cancel_flow f (gate s)) (dialed s)"
    by (rule ats_owned_update [OF ats_inv_owned [OF inv]])
      (use inv dial_deadline in \<open>auto simp: cancel_flow_def ats_inv_def Let_def\<close>)
  then show ?thesis using inv dial_deadline by (auto simp: cancel_flow_def ats_inv_def Let_def)
next
  case (dial_failed f)
  then have "f < al_next (gate s)" using inv by (simp add: ats_inv_def Let_def)
  from ats_inv_close [OF inv this, of "dialing s - {f}" "closing s"] dial_failed show ?thesis by simp
next
  case (dial_conn f c cancelled now r h)
  then obtain r' where "finishDial f cancelled (Some c) None now (gate s) = (r', h)"
    by (metis prod.collapse snd_conv snd_dial_returned(1))
  with ats_inv_finishDial [OF inv, of f "Some c" None c] dial_conn show ?thesis by auto
next
  case (dial_packet f c cancelled now r h)
  then obtain r' where "finishDial f cancelled None (Some c) now (gate s) = (r', h)"
    by (metis prod.collapse snd_conv snd_dial_returned(2))
  with ats_inv_finishDial [OF inv, of f None "Some c" c] dial_packet show ?thesis by auto
next
  case (flow_close f)
  from ats_inv_close [OF inv flow_close(2), of "dialing s" "closing s"] flow_close show ?thesis by simp
qed

interpretation ats_flows: invariant_system "ats_init manager tag options now" ats_step ats_inv
  for manager tag options now
  by unfold_locales (auto intro: ats_inv_init ats_inv_step)

interpretation ats_admission: terminal_gate ats_step "\<lambda>s. al_revoked (gate s)" "\<lambda>s. admits (gate s)"
  by unfold_locales (auto simp: admits_def dest: ats_step_terms)

interpretation ats_termination: terminal_gate ats_step "\<lambda>s. al_terminateActive (gate s)"
  "\<lambda>s (f, now). current f now (gate s)"
  by unfold_locales (auto simp: current_def dest: ats_step_terms)

section \<open>Lifetime on the monotonic clock\<close>

lemma parseTime_wall: "parseTime s = Inr t \<Longrightarrow> mono_ns t = None \<and> format_time t = s"
  by (auto simp: parseTime_def dest: canonical_time_wall canonical_time_format split: option.splits)

lemma NewOutboundE:
  assumes "NewOutbound manager tag options now = Inr h"
  obtains "parseTime (ao_IssuedAt options) = Inr (al_issued h)"
    "parseTime (ao_NewFlowsUntil options) = Inr (al_newUntil h)"
    "parseTime (ao_ActiveFlowsUntil options) = Inr (al_activeUntil h)"
    "\<not> time_before now (al_issued h)" "time_before now (al_newUntil h)"
    "\<not> time_before (al_activeUntil h) (al_newUntil h)"
    "time_sub (al_newUntil h) (al_issued h) \<le> 10 * minute" "time_sub (al_activeUntil h) (al_issued h) \<le> hour"
    "al_newDeadline h = monotonic_deadline now (al_newUntil h)"
    "al_activeDeadline h = monotonic_deadline now (al_activeUntil h)"
    "al_leaseID h = ao_LeaseID options"
  using assms by (auto simp: NewOutbound_def not_less split: sum.splits if_splits)

lemma NewOutbound_deadlines:
  assumes "NewOutbound manager tag options now = Inr h" and "clock_ok now" and "packed_wall (wall (al_activeUntil h))"
  obtains m where "mono_ns now = Some m"
    "mono_ns (al_newDeadline h) = Some (m + (wall (al_newUntil h) - wall now))"
    "mono_ns (al_activeDeadline h) = Some (m + (wall (al_activeUntil h) - wall now))"
    "wall (al_newUntil h) - wall now \<le> 10 * minute" "wall (al_activeUntil h) - wall now \<le> hour"
proof -
  obtain m where m: "mono_ns now = Some m" "0 \<le> m" "m \<le> 2 ^ 62" "packed_wall (wall now)"
    using assms(2) by (auto simp: clock_ok_def split: option.splits)
  from assms(1) show ?thesis
  proof (rule NewOutboundE)
    assume i: "parseTime (ao_IssuedAt options) = Inr (al_issued h)"
      and n: "parseTime (ao_NewFlowsUntil options) = Inr (al_newUntil h)"
      and a: "parseTime (ao_ActiveFlowsUntil options) = Inr (al_activeUntil h)"
      and order: "\<not> time_before now (al_issued h)" "time_before now (al_newUntil h)" "\<not> time_before (al_activeUntil h) (al_newUntil h)"
      and bound: "time_sub (al_newUntil h) (al_issued h) \<le> 10 * minute" "time_sub (al_activeUntil h) (al_issued h) \<le> hour"
      and dl: "al_newDeadline h = monotonic_deadline now (al_newUntil h)"
        "al_activeDeadline h = monotonic_deadline now (al_activeUntil h)"
    note none = parseTime_wall [OF i] parseTime_wall [OF n] parseTime_wall [OF a]
    have ord: "wall (al_issued h) \<le> wall now" "wall now < wall (al_newUntil h)" "wall (al_newUntil h) \<le> wall (al_activeUntil h)"
      using order none by (simp_all add: clock_simps)
    have span: "wall (al_newUntil h) - wall (al_issued h) \<le> 10 * minute" "wall (al_activeUntil h) - wall (al_issued h) \<le> hour"
      using bound none
      by (auto simp: time_sub_def Let_def min_def max_def max_duration_def minute_def hour_def second_def split: if_splits)
    have "packed_wall (wall (al_newUntil h))"
      using packed_wall_between [OF m(4) assms(3)] ord by simp
    with monotonic_deadline_mono [OF m(1), of "al_newUntil h"] monotonic_deadline_mono [OF m(1), of "al_activeUntil h"]
    show ?thesis using that [OF m(1)] none ord span m(2,3) assms(3) dl
      by (simp add: min_duration_def max_duration_def minute_def hour_def second_def)
  qed
qed

lemma ats_steps_terms: "ats_step\<^sup>*\<^sup>* s t \<Longrightarrow> same_terms (gate s) (gate t)"
  by (induction rule: rtranclp_induct) (auto simp: same_terms_def dest!: ats_step_terms)

section \<open>Properties\<close>

text \<open>
  C1. A lease bounds real time, not wall time: whatever happens to the lease and however the wall
  clock is set meanwhile, a flow is admitted only within ten minutes, and a flow passes data only
  within one hour, of the moment the lease was loaded, both measured on the monotonic clock.
  (The lease ends before the year 2157, where clock readings stop carrying a monotonic part.)
\<close>

theorem lease_lifetime:
  assumes "ats_init manager tag options now0 s0" and "ats_step\<^sup>*\<^sup>* s0 s"
    and "clock_ok now0" and "packed_wall (wall (al_activeUntil (gate s0)))"
    and "mono_ns now0 = Some m0" and "mono_ns now = Some m"
  shows "(fst (begin_flow now (gate s)) = Inr f \<longrightarrow> m < m0 + 10 * minute)
    \<and> (current f now (gate s) \<longrightarrow> m < m0 + hour)"
proof -
  have new: "NewOutbound manager tag options now0 = Inr (gate s0)"
    using assms(1) by (auto simp: ats_init_def)
  obtain dl: "mono_ns (al_newDeadline (gate s0)) = Some (m0 + (wall (al_newUntil (gate s0)) - wall now0))"
    "mono_ns (al_activeDeadline (gate s0)) = Some (m0 + (wall (al_activeUntil (gate s0)) - wall now0))"
    "wall (al_newUntil (gate s0)) - wall now0 \<le> 10 * minute" "wall (al_activeUntil (gate s0)) - wall now0 \<le> hour"
    using NewOutbound_deadlines [OF new assms(3,4)] assms(5) by auto
  from ats_steps_terms [OF assms(2)] dl assms(6) show ?thesis
    by (auto simp: begin_flow_def admits_def current_def same_terms_def time_before_mono split: if_splits)
qed

definition demo_options :: ats_options where
  "demo_options = \<lparr>ao_LeaseID = ''lease_'' @ replicate 32 (CHR ''a''), ao_UpstreamTag = ''up'',
     ao_IssuedAt = ''2026-01-01T00:00:00Z'', ao_NewFlowsUntil = ''2026-01-01T00:05:00Z'',
     ao_ActiveFlowsUntil = ''2026-01-01T00:30:00Z''\<rparr>"

text \<open>Loaded one minute after the lease was issued.\<close>

definition demo_now :: gotime where
  "demo_now = \<lparr>wall = 1767225660 * second, mono_ns = Some (7 * second)\<rparr>"

definition demo_lease :: ats_lease where
  "demo_lease = projr (NewOutbound True ''lease'' demo_options demo_now)"

definition demo_system :: ats_system where
  "demo_system = \<lparr>gate = demo_lease, closing = {}, dialing = {}, dialed = {}\<rparr>"

lemma demo_lease_ok: "NewOutbound True ''lease'' demo_options demo_now = Inr demo_lease"
proof -
  have "isl (NewOutbound True ''lease'' demo_options demo_now) = False" by code_simp
  then show ?thesis unfolding demo_lease_def by (metis sum.collapse(2))
qed

lemma demo_init: "ats_init True ''lease'' demo_options demo_now demo_system"
  using demo_lease_ok by (simp add: ats_init_def demo_system_def)

lemma demo_clock: "clock_ok demo_now" "packed_wall (wall (al_activeUntil (gate demo_system)))"
  by code_simp+

theorem lease_lifetime_witness:
  "\<not> current 0 \<lparr>wall = 0, mono_ns = Some (7 * second + hour)\<rparr> (gate demo_system)"
  using lease_lifetime [OF demo_init rtranclp.rtrancl_refl demo_clock, of "7 * second"
      "\<lparr>wall = 0, mono_ns = Some (7 * second + hour)\<rparr>" "7 * second + hour" 0]
  by (auto simp: demo_now_def)



text \<open>
  C2. No flow and no connection leaks, in any interleaving of dials, revocations, timers and
  closes: the registry is exactly the set of open flows, a connection obtained from the upstream is
  closed unless an open flow holds it, a closed flow has its dial cancelled, and once a
  termination has worked off the flows it found, nothing is open any more.
\<close>

theorem lease_no_leak:
  assumes "reachable (ats_init manager tag options now) ats_step s"
  shows "al_flows (gate s) = {f. f < al_next (gate s) \<and> \<not> af_closed (al_flow (gate s) f)}
    \<and> ats_owned (gate s) (dialed s)
    \<and> (f < al_next (gate s) \<and> af_closed (al_flow (gate s) f) \<longrightarrow> af_cancelled (al_flow (gate s) f))
    \<and> (al_terminateActive (gate s) \<and> closing s = {} \<longrightarrow> al_flows (gate s) = {} \<and> dialed s \<subseteq> al_shut (gate s))"
proof -
  have inv: "ats_inv s" by (rule ats_flows.inv_reachable [OF assms])
  then have "al_terminateActive (gate s) \<and> closing s = {} \<Longrightarrow> al_flows (gate s) = {}"
    by (auto simp: ats_inv_def Let_def)
  then show ?thesis using inv by (auto simp: ats_inv_def ats_owned_def Let_def)
qed

theorem lease_no_leak_witness:
  "reachable (ats_init True ''lease'' demo_options demo_now) ats_step demo_system
   \<and> al_flows (gate demo_system) = {f. f < al_next (gate demo_system) \<and> \<not> af_closed (al_flow (gate demo_system) f)}"
proof -
  have "reachable (ats_init True ''lease'' demo_options demo_now) ats_step demo_system"
    by (rule reachable.start) (rule demo_init)
  with lease_no_leak [OF this] show ?thesis by blast
qed

text \<open>
  C4. A confirmation attests exactly the loaded lease: after any history, it answers yes only
  while the lease admits flows, and only to the identifier and the three instants, character for
  character, that the lease was loaded with.
\<close>

theorem confirm_exact:
  assumes "ats_init manager tag options now0 s0" and "ats_step\<^sup>*\<^sup>* s0 s"
    and "ConfirmLease leaseID issuedAt newFlowsUntil activeFlowsUntil now (gate s)"
  shows "leaseID = ao_LeaseID options \<and> issuedAt = ao_IssuedAt options
    \<and> newFlowsUntil = ao_NewFlowsUntil options \<and> activeFlowsUntil = ao_ActiveFlowsUntil options
    \<and> admits (gate s) now \<and> \<not> al_revoked (gate s)"
proof -
  have new: "NewOutbound manager tag options now0 = Inr (gate s0)"
    using assms(1) by (auto simp: ats_init_def)
  then have "al_leaseID (gate s0) = ao_LeaseID options" "format_time (al_issued (gate s0)) = ao_IssuedAt options"
    "format_time (al_newUntil (gate s0)) = ao_NewFlowsUntil options"
    "format_time (al_activeUntil (gate s0)) = ao_ActiveFlowsUntil options"
    by (auto elim!: NewOutboundE dest: parseTime_wall)
  with ats_steps_terms [OF assms(2)] assms(3) show ?thesis
    by (auto simp: ConfirmLease_def same_terms_def admits_def)
qed

theorem confirm_exact_witness:
  "ConfirmLease (''lease_'' @ replicate 32 (CHR ''a'')) ''2026-01-01T00:00:00Z'' ''2026-01-01T00:05:00Z''
     ''2026-01-01T00:30:00Z'' demo_now (demo_lease\<lparr>al_upstream := Some 1\<rparr>)
   \<and> \<not> ConfirmLease (''lease_'' @ replicate 32 (CHR ''b'')) ''2026-01-01T00:00:00Z'' ''2026-01-01T00:05:00Z''
     ''2026-01-01T00:30:00Z'' demo_now (demo_lease\<lparr>al_upstream := Some 1\<rparr>)"
proof -
  have "Start (\<lambda>_. Some (1, ''vless'')) (gate demo_system) = (None, demo_lease\<lparr>al_upstream := Some 1\<rparr>)"
  proof -
    have "al_closed demo_lease = False" by code_simp
    then show ?thesis by (simp add: Start_def demo_system_def)
  qed
  then have "ats_step demo_system (demo_system\<lparr>gate := demo_lease\<lparr>al_upstream := Some 1\<rparr>\<rparr>)"
    by (rule ats_step.start)
  then have "ats_step\<^sup>*\<^sup>* demo_system (demo_system\<lparr>gate := demo_lease\<lparr>al_upstream := Some 1\<rparr>\<rparr>)" by blast
  from confirm_exact [OF demo_init this, of "''lease_'' @ replicate 32 (CHR ''b'')"]
  have "\<not> ConfirmLease (''lease_'' @ replicate 32 (CHR ''b'')) ''2026-01-01T00:00:00Z'' ''2026-01-01T00:05:00Z''
     ''2026-01-01T00:30:00Z'' demo_now (demo_lease\<lparr>al_upstream := Some 1\<rparr>)"
    by (auto simp: demo_options_def)
  moreover have "ConfirmLease (''lease_'' @ replicate 32 (CHR ''a'')) ''2026-01-01T00:00:00Z'' ''2026-01-01T00:05:00Z''
     ''2026-01-01T00:30:00Z'' demo_now (demo_lease\<lparr>al_upstream := Some 1\<rparr>)"
    by code_simp
  ultimately show ?thesis by blast
qed

end
