(* ===== verification/Client_Hello.thy ===== *)
theory Client_Hello
  imports Net_Addr
begin

text \<open>
  Names and TLS greetings of the Smart Access relay: \<open>normalizeDomain\<close>
  (\<open>smartaccess/outbound.go\<close>) and the parser that reads a ClientHello from a connection and finds
  the server name in it (\<open>smartaccess/clienthello.go\<close>). A connection is the list of bytes that it
  will deliver before it ends or fails. Where the code advances an offset into a slice, the
  recursive functions pass on the remaining bytes.
\<close>

section \<open>Domain names\<close>

definition label_char :: "char \<Rightarrow> bool" where
  "label_char c \<longleftrightarrow> is_lower_letter c \<or> is_digit c"

text \<open>\<open>^[a-z0-9](?:[a-z0-9-]{0,61}[a-z0-9])?$\<close>\<close>

definition domainLabelPattern :: "string \<Rightarrow> bool" where
  "domainLabelPattern l \<longleftrightarrow> l \<noteq> [] \<and> length l \<le> 63 \<and> label_char (hd l) \<and> label_char (last l)
     \<and> list_all (\<lambda>c. label_char c \<or> c = CHR ''-'') l"

definition normalizeDomain :: "(string \<Rightarrow> string) \<Rightarrow> string \<Rightarrow> string option" where
  "normalizeDomain uni value =
     (let name = to_lower uni (trim_suffix value ''.'') in
      if length name = 0 \<or> length name > 253 \<or> name = ''pokrov.space'' \<or> has_suffix name ''.pokrov.space''
      then None
      else if ParseAddr name \<noteq> None then None
      else let labels = split_on CHR ''.'' name in
        if length labels < 2 then None
        else if \<not> list_all domainLabelPattern labels then None
        else Some name)"

section \<open>The greeting\<close>

text \<open>The reason is the suffix of the code's message.\<close>

datatype hello_error = InvalidClientHello string | ECHUnsupported

definition bytes_string :: "bytes \<Rightarrow> string" where
  "bytes_string bs = map (\<lambda>b. char_of (unat b)) bs"

text \<open>The names of a server name extension, after the two bytes of the list's length.\<close>

function parse_names :: "(string \<Rightarrow> string) \<Rightarrow> bytes \<Rightarrow> string \<Rightarrow> hello_error + string" where
  "parse_names uni rest serverName =
     (if rest = [] then Inr serverName
      else if length rest < 3 then Inl (InvalidClientHello [])
      else let nameType = hd rest; nameLength = be_nat (take 2 (drop 1 rest)); rest' = drop 3 rest in
        if nameLength = 0 \<or> nameLength > length rest' then Inl (InvalidClientHello [])
        else if nameType = 0 then
          if serverName \<noteq> [] then Inl (InvalidClientHello [])
          else (case normalizeDomain uni (bytes_string (take nameLength rest')) of
              None \<Rightarrow> Inl (InvalidClientHello [])
            | Some normalized \<Rightarrow> parse_names uni (drop nameLength rest') normalized)
        else parse_names uni (drop nameLength rest') serverName)"
  by pat_completeness auto
termination
  by (relation "measure (\<lambda>(_, rest, _). length rest)") auto

declare parse_names.simps [simp del]

function parse_extensions :: "(string \<Rightarrow> string) \<Rightarrow> bool \<Rightarrow> bytes \<Rightarrow> string \<Rightarrow> hello_error + string" where
  "parse_extensions uni ech rest serverName =
     (if rest = [] then Inr serverName
      else if length rest < 4 then Inl (InvalidClientHello [])
      else let extensionType = be_nat (take 2 rest); extensionLength = be_nat (take 2 (drop 2 rest));
               rest' = drop 4 rest in
        if extensionLength > length rest' then Inl (InvalidClientHello [])
        else if extensionType = 0xfe0d \<and> \<not> ech then Inl ECHUnsupported
        else if extensionType = 0 then
          if serverName \<noteq> [] \<or> extensionLength < 5 then Inl (InvalidClientHello [])
          else let extension = take extensionLength rest' in
            if be_nat (take 2 extension) \<noteq> length extension - 2 then Inl (InvalidClientHello [])
            else (case parse_names uni (drop 2 extension) serverName of
                Inl e \<Rightarrow> Inl e
              | Inr name \<Rightarrow> parse_extensions uni ech (drop extensionLength rest') name)
        else parse_extensions uni ech (drop extensionLength rest') serverName)"
  by pat_completeness auto
termination
  by (relation "measure (\<lambda>(_, _, rest, _). length rest)") auto

declare parse_extensions.simps [simp del]

definition parseClientHelloSNI :: "(string \<Rightarrow> string) \<Rightarrow> bool \<Rightarrow> bytes \<Rightarrow> hello_error + string" where
  "parseClientHelloSNI uni ech handshake =
     (if length handshake < 4 \<or> hd handshake \<noteq> 1 \<or> length handshake \<noteq> 4 + be_nat (take 3 (drop 1 handshake))
      then Inl (InvalidClientHello [])
      else let body = drop 4 handshake in
      if length body < 34 then Inl (InvalidClientHello [])
      else let offset = 34 in
      if offset \<ge> length body then Inl (InvalidClientHello [])
      else let sessionLength = unat (body ! offset); offset = offset + 1 + sessionLength in
      if offset + 2 > length body then Inl (InvalidClientHello [])
      else let cipherLength = be_nat (take 2 (drop offset body)); offset = offset + 2 + cipherLength in
      if cipherLength < 2 \<or> cipherLength mod 2 \<noteq> 0 \<or> offset \<ge> length body then Inl (InvalidClientHello [])
      else let compressionLength = unat (body ! offset); offset = offset + 1 + compressionLength in
      if compressionLength < 1 \<or> offset + 2 > length body then Inl (InvalidClientHello [])
      else let extensionsLength = be_nat (take 2 (drop offset body)); offset = offset + 2 in
      if offset + extensionsLength \<noteq> length body then Inl (InvalidClientHello [])
      else (case parse_extensions uni ech (drop offset body) [] of
          Inl e \<Rightarrow> Inl e
        | Inr serverName \<Rightarrow> if serverName = [] then Inl (InvalidClientHello []) else Inr serverName))"

text \<open>
  The loop of \<open>readClientHello\<close>: the bytes read so far, the handshake bytes in them, the length the
  handshake announces once its header is there, and what the connection still holds. On success
  the result is the raw bytes, the server name and the rest of the stream.
\<close>

function read_records ::
    "(string \<Rightarrow> string) \<Rightarrow> bool \<Rightarrow> bytes \<Rightarrow> bytes \<Rightarrow> nat option \<Rightarrow> bytes \<Rightarrow> hello_error + (bytes \<times> string \<times> bytes)" where
  "read_records uni ech raw handshake expected stream =
     (if length raw \<ge> 65535 then Inl (InvalidClientHello ''size limit'')
      else if length stream < 5 then Inl (InvalidClientHello ''record header'')
      else let header = take 5 stream; stream1 = drop 5 stream in
      if header ! 0 \<noteq> 22 \<or> header ! 1 \<noteq> 3 then Inl (InvalidClientHello ''record type'')
      else let recordLength = be_nat (drop 3 header) in
      if recordLength = 0 \<or> length raw + 5 + recordLength > 65535 then Inl (InvalidClientHello ''record length'')
      else if length stream1 < recordLength then Inl (InvalidClientHello ''record body'')
      else let body = take recordLength stream1; stream2 = drop recordLength stream1;
               raw' = raw @ header @ body; handshake' = handshake @ body in
      case (if length handshake' \<ge> 4 \<and> expected = None then
              (if hd handshake' \<noteq> 1 then Inl (InvalidClientHello ''handshake type'')
               else let n = 4 + be_nat (take 3 (drop 1 handshake')) in
                 if n > 65535 \<or> n < 42 then Inl (InvalidClientHello ''handshake length'') else Inr (Some n))
            else Inr expected) of
        Inl e \<Rightarrow> Inl e
      | Inr None \<Rightarrow> read_records uni ech raw' handshake' None stream2
      | Inr (Some n) \<Rightarrow>
          if length handshake' \<ge> n then
            (case parseClientHelloSNI uni ech (take n handshake') of
               Inl e \<Rightarrow> Inl e
             | Inr name \<Rightarrow> Inr (raw', name, stream2))
          else read_records uni ech raw' handshake' (Some n) stream2)"
  by pat_completeness auto
termination
  by (relation "measure (\<lambda>(_, _, raw, _, _, _). 65535 - length raw)") auto

declare read_records.simps [simp del]

definition readClientHello :: "(string \<Rightarrow> string) \<Rightarrow> bool \<Rightarrow> bytes \<Rightarrow> hello_error + (bytes \<times> string \<times> bytes)" where
  "readClientHello uni ech stream = read_records uni ech [] [] None stream"

section \<open>Normal names\<close>

lemma label_char_ascii: "label_char c \<Longrightarrow> (of_char c :: nat) < 128 \<and> ascii_lower c = c"
  by (auto simp: label_char_def is_lower_letter_def is_digit_def ascii_lower_def Let_def)

lemma name_char_ascii:
  "label_char c \<or> c = CHR ''-'' \<or> c = CHR ''.'' \<Longrightarrow> (of_char c :: nat) < 128 \<and> ascii_lower c = c"
  using label_char_ascii [of c] by (auto simp: ascii_lower_def)

lemma split_on_snoc_sep: "split_on sep (s @ [sep]) = split_on sep s @ [[]]"
proof (induction s)
  case (Cons c s)
  obtain w ws where "split_on sep s = w # ws" by (metis list.exhaust split_on_nonempty)
  with Cons show ?case by simp
qed simp

lemma normalizeDomain_chars:
  assumes "normalizeDomain uni v = Some n" and "c \<in> set n"
  shows "label_char c \<or> c = CHR ''-'' \<or> c = CHR ''.''"
proof (cases "c = CHR ''.''")
  case False
  have ok: "list_all domainLabelPattern (split_on CHR ''.'' n)"
    using assms(1) by (auto simp: normalizeDomain_def Let_def split: if_splits)
  from False assms(2) obtain l where "l \<in> set (split_on CHR ''.'' n)" "c \<in> set l"
    using split_on_chars [of "CHR ''.''" n] by blast
  with ok show ?thesis by (auto simp: list_all_iff domainLabelPattern_def)
qed simp

lemma to_lower_normal: "normalizeDomain uni v = Some n \<Longrightarrow> to_lower uni n = n"
  using normalizeDomain_chars [of uni v n] name_char_ascii
  by (auto simp: to_lower_def list_all_iff intro!: map_idI)

lemma trim_suffix_normal: "normalizeDomain uni v = Some n \<Longrightarrow> trim_suffix n ''.'' = n"
proof (rule ccontr)
  assume n: "normalizeDomain uni v = Some n" and "trim_suffix n ''.'' \<noteq> n"
  then obtain q where "n = q @ ''.''" by (auto simp: trim_suffix_def elim: has_suffixE split: if_splits)
  then have "[] \<in> set (split_on CHR ''.'' n)" by (simp add: split_on_snoc_sep)
  moreover have "list_all domainLabelPattern (split_on CHR ''.'' n)"
    using n by (auto simp: normalizeDomain_def Let_def split: if_splits)
  ultimately show False by (auto simp: list_all_iff domainLabelPattern_def)
qed

lemma normalizeDomain_idem: "normalizeDomain uni v = Some n \<Longrightarrow> normalizeDomain uni n = Some n"
proof -
  assume n: "normalizeDomain uni v = Some n"
  then show ?thesis
    unfolding normalizeDomain_def [of uni n] trim_suffix_normal [OF n] to_lower_normal [OF n]
    by (auto simp: normalizeDomain_def Let_def split: if_splits)
qed

lemma normalizeDomain_foreign:
  "normalizeDomain uni v = Some n \<Longrightarrow> n \<noteq> [] \<and> n \<noteq> ''pokrov.space'' \<and> \<not> has_suffix n ''.pokrov.space''"
  by (auto simp: normalizeDomain_def Let_def split: if_splits)

section \<open>What a successful parse says\<close>

text \<open>The wire form of an extension.\<close>

definition ext_bytes :: "nat \<times> bytes \<Rightarrow> bytes" where
  "ext_bytes e = be_bytes 2 (fst e) @ be_bytes 2 (length (snd e)) @ snd e"

definition normal_name :: "(string \<Rightarrow> string) \<Rightarrow> string \<Rightarrow> bool" where
  "normal_name uni n \<longleftrightarrow> normalizeDomain uni n = Some n"

lemma parse_Nil [simp]: "parse_names uni [] sn = Inr sn" "parse_extensions uni ech [] sn = Inr sn"
  by (simp_all add: parse_names.simps [of uni "[]"] parse_extensions.simps [of uni ech "[]"])

lemma parse_names_normal:
  "parse_names uni rest sn = Inr n \<Longrightarrow> n = sn \<or> normal_name uni n"
proof (induction uni rest sn rule: parse_names.induct)
  case (1 uni rest sn)
  let ?n = "be_nat (take 2 (drop 1 rest))" and ?r = "drop 3 rest"
  show ?case
  proof (cases "rest = []")
    case False
    with "1.prems" have len: "\<not> length rest < 3" "\<not> (?n = 0 \<or> ?n > length ?r)"
      by (auto simp: parse_names.simps [of uni rest] Let_def split: if_splits)
    show ?thesis
    proof (cases "hd rest = 0")
      case True
      with "1.prems" False len obtain d where "sn = []"
        and d: "normalizeDomain uni (bytes_string (take ?n ?r)) = Some d" "parse_names uni (drop ?n ?r) d = Inr n"
        by (auto simp: parse_names.simps [of uni rest] Let_def split: if_splits option.splits)
      with "1.IH"(1) [OF False len(1) refl refl refl len(2) True] normalizeDomain_idem [OF d(1)]
      show ?thesis by (auto simp: normal_name_def)
    next
      case False': False
      with "1.prems" False len have "parse_names uni (drop ?n ?r) sn = Inr n"
        by (auto simp: parse_names.simps [of uni rest] Let_def split: if_splits)
      with "1.IH"(2) [OF False len(1) refl refl refl len(2) False'] show ?thesis by simp
    qed
  qed (use "1.prems" in simp)
qed

lemma take2_split: "2 \<le> length xs \<Longrightarrow> be_bytes 2 (be_nat (take 2 xs)) = take 2 xs"
  using be_bytes_be_nat [of "take 2 xs"] by simp

lemma ext_bytes_split:
  assumes "4 \<le> length rest" and "be_nat (take 2 (drop 2 rest)) \<le> length (drop 4 rest)"
  shows "rest = ext_bytes (be_nat (take 2 rest), take (be_nat (take 2 (drop 2 rest))) (drop 4 rest))
      @ drop (be_nat (take 2 (drop 2 rest))) (drop 4 rest)"
proof -
  let ?n = "be_nat (take 2 (drop 2 rest))"
  have "be_bytes 2 (be_nat (take 2 rest)) = take 2 rest" "be_bytes 2 ?n = take 2 (drop 2 rest)"
    using assms(1) take2_split [of rest] take2_split [of "drop 2 rest"] by simp_all
  moreover have "length (take ?n (drop 4 rest)) = ?n" using assms(2) by simp
  ultimately have "ext_bytes (be_nat (take 2 rest), take ?n (drop 4 rest)) = take 2 rest @ take 2 (drop 2 rest) @ take ?n (drop 4 rest)"
    by (simp add: ext_bytes_def)
  moreover have "drop 2 (drop 2 rest) = drop 4 rest" by simp
  then have "rest = take 2 rest @ take 2 (drop 2 rest) @ drop 4 rest" by (metis append_take_drop_id)
  ultimately show ?thesis by (metis append.assoc append_take_drop_id)
qed
lemma parse_extensions_sound:
  "parse_extensions uni ech rest sn = Inr n \<Longrightarrow>
   \<exists>exts. rest = concat (map ext_bytes exts) \<and> (\<not> ech \<longrightarrow> (\<forall>e \<in> set exts. fst e \<noteq> 0xfe0d))
     \<and> (n = sn \<or> normal_name uni n) \<and> (sn \<noteq> [] \<longrightarrow> (\<forall>e \<in> set exts. fst e \<noteq> 0))"
proof (induction uni ech rest sn rule: parse_extensions.induct)
  case (1 uni ech rest sn)
  let ?t = "be_nat (take 2 rest)" and ?n = "be_nat (take 2 (drop 2 rest))" and ?r = "drop 4 rest"
  show ?case
  proof (cases "rest = []")
    case True
    with "1.prems" show ?thesis by (intro exI [of _ "[]"]) simp
  next
    case False
    with "1.prems" have len: "\<not> length rest < 4" "\<not> ?n > length ?r" and ech: "\<not> (?t = 0xfe0d \<and> \<not> ech)"
      by (auto simp: parse_extensions.simps [of uni ech rest] Let_def split: if_splits)
    have rest: "rest = ext_bytes (?t, take ?n ?r) @ drop ?n ?r"
      by (rule ext_bytes_split) (use len in simp_all)
    show ?thesis
    proof (cases "?t = 0")
      case True
      with "1.prems" False len have ok: "\<not> (sn \<noteq> [] \<or> ?n < 5)" "\<not> be_nat (take 2 (take ?n ?r)) \<noteq> length (take ?n ?r) - 2"
        by (auto simp: parse_extensions.simps [of uni ech rest] Let_def split: if_splits)
      with "1.prems" False len True obtain d where d: "parse_names uni (drop 2 (take ?n ?r)) sn = Inr d"
        "parse_extensions uni ech (drop ?n ?r) d = Inr n"
        by (auto simp: parse_extensions.simps [of uni ech rest] Let_def split: if_splits sum.splits)
      from "1.IH"(1) [OF False len(1) refl refl refl len(2) ech True ok(1) refl ok(2) d(1) d(2)] obtain exts where
        exts: "drop ?n ?r = concat (map ext_bytes exts)" "\<not> ech \<longrightarrow> (\<forall>e \<in> set exts. fst e \<noteq> 0xfe0d)"
          "n = d \<or> normal_name uni n" by blast
      have "n = sn \<or> normal_name uni n" using exts(3) parse_names_normal [OF d(1)] by blast
      moreover have "rest = concat (map ext_bytes ((?t, take ?n ?r) # exts))" using rest exts(1) by simp
      ultimately show ?thesis using exts(2) ech ok(1) True by (intro exI [of _ "(?t, take ?n ?r) # exts"]) auto
    next
      case False': False
      with "1.prems" False len ech have "parse_extensions uni ech (drop ?n ?r) sn = Inr n"
        by (auto simp: parse_extensions.simps [of uni ech rest] Let_def split: if_splits)
      from "1.IH"(2) [OF False len(1) refl refl refl len(2) ech False' this] obtain exts where
        exts: "drop ?n ?r = concat (map ext_bytes exts)" "\<not> ech \<longrightarrow> (\<forall>e \<in> set exts. fst e \<noteq> 0xfe0d)"
          "n = sn \<or> normal_name uni n" "sn \<noteq> [] \<longrightarrow> (\<forall>e \<in> set exts. fst e \<noteq> 0)" by blast
      moreover have "rest = concat (map ext_bytes ((?t, take ?n ?r) # exts))" using rest exts(1) by simp
      ultimately show ?thesis using ech False' by (intro exI [of _ "(?t, take ?n ?r) # exts"]) auto
    qed
  qed
qed

section \<open>The wire format\<close>

text \<open>
  A reference encoding of the greeting: version and random (34 bytes), session, cipher suites,
  compression methods and extensions, each with its length in front; and its transport in TLS
  handshake records, cut anywhere.
\<close>

record hello =
  ch_prefix :: bytes
  ch_session :: bytes
  ch_ciphers :: bytes
  ch_compression :: bytes
  ch_exts :: "(nat \<times> bytes) list"

definition ext_block :: "hello \<Rightarrow> bytes" where
  "ext_block h = concat (map ext_bytes (ch_exts h))"

definition hello_body :: "hello \<Rightarrow> bytes" where
  "hello_body h = ch_prefix h @ [of_nat (length (ch_session h))] @ ch_session h
     @ be_bytes 2 (length (ch_ciphers h)) @ ch_ciphers h
     @ [of_nat (length (ch_compression h))] @ ch_compression h
     @ be_bytes 2 (length (ext_block h)) @ ext_block h"

definition hello_bytes :: "hello \<Rightarrow> bytes" where
  "hello_bytes h = [1] @ be_bytes 3 (length (hello_body h)) @ hello_body h"

definition hello_ok :: "hello \<Rightarrow> bool" where
  "hello_ok h \<longleftrightarrow> length (ch_prefix h) = 34 \<and> length (ch_session h) < 256
     \<and> 2 \<le> length (ch_ciphers h) \<and> length (ch_ciphers h) mod 2 = 0 \<and> length (ch_ciphers h) < 65536
     \<and> 1 \<le> length (ch_compression h) \<and> length (ch_compression h) < 256 \<and> length (ext_block h) < 65536"

definition tls_record :: "byte \<times> bytes \<Rightarrow> bytes" where
  "tls_record r = [22, 3, fst r] @ be_bytes 2 (length (snd r)) @ snd r"

lemma be_nat_be2: "n < 65536 \<Longrightarrow> be_nat (be_bytes 2 n) = n"
  by (rule be_nat_be_bytes) simp

lemma unat_of_nat_byte: "n < 256 \<Longrightarrow> unat (of_nat n :: byte) = n"
  by (simp add: unat_of_nat take_bit_nat_eq_self)

lemma parse_hello_bytes:
  assumes "hello_ok h"
  shows "parseClientHelloSNI uni ech (hello_bytes h) =
    (case parse_extensions uni ech (ext_block h) [] of
       Inl e \<Rightarrow> Inl e | Inr n \<Rightarrow> if n = [] then Inl (InvalidClientHello []) else Inr n)"
proof -
  let ?b = "hello_body h"
  note ok = assms [unfolded hello_ok_def]
  have len: "length ?b = 34 + 1 + length (ch_session h) + 2 + length (ch_ciphers h) + 1
      + length (ch_compression h) + 2 + length (ext_block h)"
    using ok by (simp add: hello_body_def)
  then have "length ?b < 256 ^ 3" using ok by simp
  then have hs: "be_nat (be_bytes 3 (length ?b)) = length ?b" by (rule be_nat_be_bytes)
  have b34: "?b ! 34 = of_nat (length (ch_session h))" using ok by (simp add: hello_body_def nth_append)
  have c2: "take 2 (drop (34 + 1 + length (ch_session h)) ?b) = be_bytes 2 (length (ch_ciphers h))"
    using ok by (simp add: hello_body_def)
  have bc: "?b ! (34 + 1 + length (ch_session h) + 2 + length (ch_ciphers h)) = of_nat (length (ch_compression h))"
    using ok by (simp add: hello_body_def nth_append)
  define P where "P = ch_prefix h @ [of_nat (length (ch_session h))] @ ch_session h
     @ be_bytes 2 (length (ch_ciphers h)) @ ch_ciphers h @ [of_nat (length (ch_compression h))] @ ch_compression h"
  have P: "?b = P @ be_bytes 2 (length (ext_block h)) @ ext_block h"
    "34 + 1 + length (ch_session h) + 2 + length (ch_ciphers h) + 1 + length (ch_compression h) = length P"
    using ok by (simp_all add: P_def hello_body_def)
  have e2: "take 2 (drop (34 + 1 + length (ch_session h) + 2 + length (ch_ciphers h) + 1 + length (ch_compression h)) ?b)
      = be_bytes 2 (length (ext_block h))" unfolding P by simp
  have ee: "drop (34 + 1 + length (ch_session h) + 2 + length (ch_ciphers h) + 1 + length (ch_compression h) + 2) ?b
      = ext_block h" unfolding P by simp
  have d4: "drop 4 (hello_bytes h) = ?b" and hd: "hd (hello_bytes h) = 1" and l4: "length (hello_bytes h) = 4 + length ?b"
    and t3: "take 3 (drop 1 (hello_bytes h)) = be_bytes 3 (length ?b)" by (simp_all add: hello_bytes_def)
  show ?thesis
    unfolding parseClientHelloSNI_def d4 hd l4 t3 hs Let_def b34
    using ok len
    by (simp only: unat_of_nat_byte c2 be_nat_be2 bc e2 ee) auto
qed
text \<open>The offsets the parser computes in the body, and the conditions it checks on them.\<close>

definition session_end :: "bytes \<Rightarrow> nat" where
  "session_end b = 34 + 1 + unat (b ! 34)"

definition ciphers_length :: "bytes \<Rightarrow> nat" where
  "ciphers_length b = be_nat (take 2 (drop (session_end b) b))"

definition ciphers_end :: "bytes \<Rightarrow> nat" where
  "ciphers_end b = session_end b + 2 + ciphers_length b"

definition compression_end :: "bytes \<Rightarrow> nat" where
  "compression_end b = ciphers_end b + 1 + unat (b ! ciphers_end b)"

definition exts_length :: "bytes \<Rightarrow> nat" where
  "exts_length b = be_nat (take 2 (drop (compression_end b) b))"

lemmas offset_defs = session_end_def ciphers_length_def ciphers_end_def compression_end_def exts_length_def

definition body_ok :: "bytes \<Rightarrow> bool" where
  "body_ok b \<longleftrightarrow> 34 < length b \<and> session_end b + 2 \<le> length b \<and> 2 \<le> ciphers_length b
     \<and> ciphers_length b mod 2 = 0 \<and> ciphers_end b < length b \<and> 1 \<le> unat (b ! ciphers_end b)
     \<and> compression_end b + 2 + exts_length b = length b"

lemma parse_guards:
  assumes "parseClientHelloSNI uni ech hs = Inr n"
  shows "4 \<le> length hs \<and> hd hs = 1 \<and> length hs = 4 + be_nat (take 3 (drop 1 hs)) \<and> body_ok (drop 4 hs)
    \<and> parse_extensions uni ech (drop (compression_end (drop 4 hs) + 2) (drop 4 hs)) [] = Inr n \<and> n \<noteq> []"
proof -
  define hl where "hl = be_nat (take 3 (drop 1 hs))"
  define b where "b = drop 4 hs"
  have eq: "parseClientHelloSNI uni ech hs =
     (if length hs < 4 \<or> hd hs \<noteq> 1 \<or> length hs \<noteq> 4 + hl then Inl (InvalidClientHello [])
      else if length b < 34 then Inl (InvalidClientHello [])
      else if 34 \<ge> length b then Inl (InvalidClientHello [])
      else if session_end b + 2 > length b then Inl (InvalidClientHello [])
      else if ciphers_length b < 2 \<or> ciphers_length b mod 2 \<noteq> 0 \<or> ciphers_end b \<ge> length b then Inl (InvalidClientHello [])
      else if unat (b ! ciphers_end b) < 1 \<or> compression_end b + 2 > length b then Inl (InvalidClientHello [])
      else if compression_end b + 2 + exts_length b \<noteq> length b then Inl (InvalidClientHello [])
      else (case parse_extensions uni ech (drop (compression_end b + 2) b) [] of
          Inl e \<Rightarrow> Inl e
        | Inr serverName \<Rightarrow> if serverName = [] then Inl (InvalidClientHello []) else Inr serverName))"
    unfolding parseClientHelloSNI_def Let_def offset_defs hl_def b_def ..
  from assms show ?thesis
    unfolding eq guard_simps hl_def [symmetric] b_def [symmetric] body_ok_def by (auto simp: not_less not_le)
qed

lemma take_drop_split: "take k (drop i xs) @ drop (i + k) xs = drop i xs"
  by (metis append_take_drop_id drop_drop add.commute)

lemma body_split:
  assumes "body_ok b"
  shows "take 34 b @ [b ! 34] @ take (unat (b ! 34)) (drop 35 b) @ take 2 (drop (session_end b) b)
    @ take (ciphers_length b) (drop (session_end b + 2) b) @ [b ! ciphers_end b]
    @ take (unat (b ! ciphers_end b)) (drop (ciphers_end b + 1) b) @ take 2 (drop (compression_end b) b)
    @ drop (compression_end b + 2) b = b"
proof -
  have "34 < length b" "ciphers_end b < length b" using assms by (simp_all add: body_ok_def)
  then have "[b ! 34] @ drop 35 b = drop 34 b" "[b ! ciphers_end b] @ drop (ciphers_end b + 1) b = drop (ciphers_end b) b"
    using Cons_nth_drop_Suc [of 34 b] Cons_nth_drop_Suc [of "ciphers_end b" b] by simp_all
  moreover have "take (unat (b ! 34)) (drop 35 b) @ drop (session_end b) b = drop 35 b"
    using take_drop_split [of "unat (b ! 34)" 35 b] by (simp add: session_end_def)
  moreover have "take (ciphers_length b) (drop (session_end b + 2) b) @ drop (ciphers_end b) b = drop (session_end b + 2) b"
    using take_drop_split [of "ciphers_length b" "session_end b + 2" b] by (simp add: ciphers_end_def)
  moreover have "take (unat (b ! ciphers_end b)) (drop (ciphers_end b + 1) b) @ drop (compression_end b) b = drop (ciphers_end b + 1) b"
    using take_drop_split [of "unat (b ! ciphers_end b)" "ciphers_end b + 1" b] by (simp add: compression_end_def)
  ultimately show ?thesis by (simp only: take_drop_split append_take_drop_id)
qed

text \<open>The greeting that a body encodes, given its extensions.\<close>

definition hello_of :: "bytes \<Rightarrow> (nat \<times> bytes) list \<Rightarrow> hello" where
  "hello_of b exts = \<lparr>ch_prefix = take 34 b, ch_session = take (unat (b ! 34)) (drop 35 b),
     ch_ciphers = take (ciphers_length b) (drop (session_end b + 2) b),
     ch_compression = take (unat (b ! ciphers_end b)) (drop (ciphers_end b + 1) b), ch_exts = exts\<rparr>"

lemma be_bytes_be2: "2 \<le> length xs \<Longrightarrow> be_bytes 2 (be_nat (take 2 xs)) = take 2 xs \<and> be_nat (take 2 xs) < 65536"
  using take2_split [of xs] be_nat_bound [of "take 2 xs"] by simp

lemma hello_of_body:
  assumes ok: "body_ok b" and exts: "drop (compression_end b + 2) b = concat (map ext_bytes exts)"
  shows "hello_ok (hello_of b exts) \<and> hello_body (hello_of b exts) = b"
proof -
  have block: "ext_block (hello_of b exts) = drop (compression_end b + 2) b"
    unfolding exts ext_block_def hello_of_def by simp
  have bytes: "unat x < 256" for x :: byte using unsigned_less [of x] by simp
  note ok' = ok [unfolded body_ok_def]
  have l2: "2 \<le> length (drop (session_end b) b)" "2 \<le> length (drop (compression_end b) b)" using ok' by auto
  have c2: "be_bytes 2 (ciphers_length b) = take 2 (drop (session_end b) b)" "ciphers_length b < 65536"
    and e2: "be_bytes 2 (exts_length b) = take 2 (drop (compression_end b) b)" "exts_length b < 65536"
    using be_bytes_be2 [OF l2(1)] be_bytes_be2 [OF l2(2)] unfolding ciphers_length_def exts_length_def by blast+
  have lens: "length (take (unat (b ! 34)) (drop 35 b)) = unat (b ! 34)"
    "length (take (ciphers_length b) (drop (session_end b + 2) b)) = ciphers_length b"
    "length (take (unat (b ! ciphers_end b)) (drop (ciphers_end b + 1) b)) = unat (b ! ciphers_end b)"
    "length (drop (compression_end b + 2) b) = exts_length b" "length (take 34 b) = 34"
    using ok' by (auto simp: session_end_def ciphers_end_def compression_end_def)
  have "hello_body (hello_of b exts) = b"
    using body_split [OF ok] unfolding hello_body_def block lens
    unfolding hello_of_def hello.simps lens c2(1) e2(1) by simp
  moreover have "hello_ok (hello_of b exts)"
    unfolding hello_ok_def block lens unfolding hello_of_def hello.simps lens using ok' c2(2) e2(2) bytes by simp
  ultimately show ?thesis by blast
qed

lemma handshake_split:
  assumes "4 \<le> length hs" and "length hs = 4 + be_nat (take 3 (drop 1 hs))"
  shows "hs = [hd hs] @ be_bytes 3 (length (drop 4 hs)) @ drop 4 hs"
proof -
  have "be_bytes 3 (be_nat (take 3 (drop 1 hs))) = take 3 (drop 1 hs)"
    using be_bytes_be_nat [of "take 3 (drop 1 hs)"] assms(1) by simp
  moreover have "length (drop 4 hs) = be_nat (take 3 (drop 1 hs))" using assms(2) unfolding length_drop by linarith
  moreover have "hs = [hd hs] @ take 3 (drop 1 hs) @ drop 4 hs"
    using assms(1) by (cases hs) (simp_all add: numeral_eq_Suc)
  ultimately show ?thesis by metis
qed

lemma parse_sound:
  assumes "parseClientHelloSNI uni ech hs = Inr n"
  shows "normal_name uni n \<and> (\<exists>h. hello_ok h \<and> hs = hello_bytes h \<and> (\<not> ech \<longrightarrow> (\<forall>e \<in> set (ch_exts h). fst e \<noteq> 0xfe0d)))"
proof -
  let ?b = "drop 4 hs"
  note g = parse_guards [OF assms]
  from g parse_extensions_sound [of uni ech "drop (compression_end ?b + 2) ?b" "[]" n] obtain exts where
    exts: "drop (compression_end ?b + 2) ?b = concat (map ext_bytes exts)"
      "\<not> ech \<longrightarrow> (\<forall>e \<in> set exts. fst e \<noteq> 0xfe0d)" "normal_name uni n" by blast
  have "hello_ok (hello_of ?b exts)" "hello_body (hello_of ?b exts) = ?b" using hello_of_body [OF _ exts(1)] g by blast+
  moreover have "hs = hello_bytes (hello_of ?b exts)"
    unfolding hello_bytes_def calculation(2) using handshake_split [of hs] g by metis
  ultimately show ?thesis using exts by (intro conjI exI [of _ "hello_of ?b exts"]) (simp_all add: hello_of_def)
qed
section \<open>Greetings are read back\<close>

definition sni_ext :: "bytes \<Rightarrow> nat \<times> bytes" where
  "sni_ext host = (0, be_bytes 2 (length host + 3) @ [0] @ be_bytes 2 (length host) @ host)"

text \<open>An extension that the parser steps over.\<close>

definition plain_ext :: "bool \<Rightarrow> nat \<times> bytes \<Rightarrow> bool" where
  "plain_ext ech e \<longleftrightarrow> fst e \<noteq> 0 \<and> fst e < 65536 \<and> length (snd e) < 65536 \<and> (ech \<or> fst e \<noteq> 0xfe0d)"

lemma parse_extensions_step:
  assumes "t < 65536" and "length d < 65536"
  shows "parse_extensions uni ech (ext_bytes (t, d) @ rest) sn =
     (if t = 0xfe0d \<and> \<not> ech then Inl ECHUnsupported
      else if t = 0 then
        if sn \<noteq> [] \<or> length d < 5 then Inl (InvalidClientHello [])
        else if be_nat (take 2 d) \<noteq> length d - 2 then Inl (InvalidClientHello [])
        else (case parse_names uni (drop 2 d) sn of Inl e \<Rightarrow> Inl e | Inr name \<Rightarrow> parse_extensions uni ech rest name)
      else parse_extensions uni ech rest sn)"
proof -
  let ?x = "ext_bytes (t, d) @ rest"
  have l: "\<not> length ?x < 4" by (simp add: ext_bytes_def)
  then have ne: "?x \<noteq> []" by (cases ?x) simp_all
  have td: "take (length d) (d @ rest) = d" "drop (length d) (d @ rest) = rest" by simp_all
  have x: "be_nat (take 2 ?x) = t" "be_nat (take 2 (drop 2 ?x)) = length d"
    "drop 4 ?x = d @ rest"
    using assms by (simp_all add: ext_bytes_def be_nat_be2)
  show ?thesis
    unfolding parse_extensions.simps [of uni ech ?x] Let_def x td if_not_P [OF ne] if_not_P [OF l]
    by (simp split del: if_split)
qed

lemma parse_plain_exts:
  "list_all (plain_ext ech) exts \<Longrightarrow>
   parse_extensions uni ech (concat (map ext_bytes exts) @ rest) sn = parse_extensions uni ech rest sn"
proof (induction exts)
  case (Cons e exts)
  then show ?case by (cases e) (auto simp: parse_extensions_step plain_ext_def)
qed simp

lemma parse_names_host:
  assumes "normalizeDomain uni (bytes_string host) = Some n" and "length host < 65536"
  shows "parse_names uni ([0] @ be_bytes 2 (length host) @ host) [] = Inr n"
proof -
  have "host \<noteq> []" using assms(1) by (auto simp: normalizeDomain_def bytes_string_def trim_suffix_def has_suffix_def to_lower_def)
  then show ?thesis using assms by (subst parse_names.simps) (simp add: Let_def be_nat_be2)
qed

lemma parse_sni_ext:
  assumes "normalizeDomain uni (bytes_string host) = Some n" and "length host < 65000"
  shows "parse_extensions uni ech (ext_bytes (sni_ext host) @ rest) [] = parse_extensions uni ech rest n"
proof -
  have "host \<noteq> []" using assms(1) by (auto simp: normalizeDomain_def bytes_string_def trim_suffix_def has_suffix_def to_lower_def)
  then have "length host \<ge> 1" by (cases host) auto
  with assms parse_names_host [OF assms(1)] show ?thesis
    unfolding sni_ext_def by (subst parse_extensions_step) (simp_all add: be_nat_be2)
qed

lemma parse_hello_sni:
  assumes "hello_ok h" and "ch_exts h = pre @ [sni_ext host] @ post"
    and "list_all (plain_ext ech) pre" and "list_all (plain_ext ech) post"
    and "normalizeDomain uni (bytes_string host) = Some n" and "length host < 65000"
  shows "parseClientHelloSNI uni ech (hello_bytes h) = Inr n"
proof -
  have "parse_extensions uni ech (ext_block h) [] = Inr n"
    unfolding ext_block_def assms(2)
    using parse_plain_exts [OF assms(3)] parse_sni_ext [OF assms(5,6)] parse_plain_exts [OF assms(4), of uni "[]"]
    by simp
  moreover have "n \<noteq> []" using normalizeDomain_foreign [OF assms(5)] by simp
  ultimately show ?thesis by (simp add: parse_hello_bytes [OF assms(1)])
qed

lemma read_record_step:
  assumes "body \<noteq> []" and "length raw + 5 + length body \<le> 65535"
  shows "read_records uni ech raw hs ex (tls_record (v, body) @ rest) =
     (case (if length (hs @ body) \<ge> 4 \<and> ex = None then
              (if hd (hs @ body) \<noteq> 1 then Inl (InvalidClientHello ''handshake type'')
               else let n = 4 + be_nat (take 3 (drop 1 (hs @ body))) in
                 if n > 65535 \<or> n < 42 then Inl (InvalidClientHello ''handshake length'') else Inr (Some n))
            else Inr ex) of
        Inl e \<Rightarrow> Inl e
      | Inr None \<Rightarrow> read_records uni ech (raw @ tls_record (v, body)) (hs @ body) None rest
      | Inr (Some n) \<Rightarrow>
          if length (hs @ body) \<ge> n then
            (case parseClientHelloSNI uni ech (take n (hs @ body)) of
               Inl e \<Rightarrow> Inl e
             | Inr name \<Rightarrow> Inr (raw @ tls_record (v, body), name, rest))
          else read_records uni ech (raw @ tls_record (v, body)) (hs @ body) (Some n) rest)"
proof -
  let ?x = "tls_record (v, body) @ rest"
  have t5: "take 5 ?x = [22, 3, v] @ be_bytes 2 (length body)" and d5: "drop 5 ?x = body @ rest"
    by (simp_all add: tls_record_def)
  have d3: "drop 3 ([22, 3, v] @ be_bytes 2 (length body)) = be_bytes 2 (length body)" by simp
  have n: "be_nat (be_bytes 2 (length body)) = length body" using assms(2) by (intro be_nat_be2) simp
  have guards: "\<not> 65535 \<le> length raw" "\<not> length ?x < 5"
    "\<not> (([22, 3, v] @ be_bytes 2 (length body)) ! 0 \<noteq> 22 \<or> ([22, 3, v] @ be_bytes 2 (length body)) ! 1 \<noteq> 3)"
    "\<not> (length body = 0 \<or> 65535 < length raw + 5 + length body)" "\<not> length (body @ rest) < length body"
    using assms by (simp_all add: tls_record_def)
  have td: "take (length body) (body @ rest) = body" "drop (length body) (body @ rest) = rest"
    "raw @ ([22, 3, v] @ be_bytes 2 (length body)) @ body = raw @ tls_record (v, body)"
    by (simp_all add: tls_record_def)
  show ?thesis
    unfolding read_records.simps [of uni ech raw hs ex ?x] t5 d5 Let_def d3 n td
      if_not_P [OF guards(1)] if_not_P [OF guards(2)] if_not_P [OF guards(3)] if_not_P [OF guards(4)] if_not_P [OF guards(5)] ..
qed

lemma length3_prefix: "4 \<le> length xs \<and> P \<Longrightarrow> take 3 (drop 1 (xs @ ys)) = take 3 (drop 1 xs)"
  by (cases xs) auto

lemma read_records_complete:
  assumes "frags \<noteq> []" and "\<forall>f \<in> set frags. snd f \<noteq> []"
    and "hs0 @ concat (map snd frags) = hs" and "parseClientHelloSNI uni ech hs = Inr n"
    and "length raw + length (concat (map tls_record frags)) \<le> 65535" and "length hs \<le> 65535"
    and "ex = (if 4 \<le> length hs0 then Some (length hs) else None)"
  shows "read_records uni ech raw hs0 ex (concat (map tls_record frags) @ rest) = Inr (raw @ concat (map tls_record frags), n, rest)"
  using assms(1,2,3,5,7)
proof (induction frags arbitrary: raw hs0 ex)
  case (Cons f frags)
  obtain v body where f: "f = (v, body)" by (cases f)
  let ?hs = "hs0 @ body" and ?raw = "raw @ tls_record (v, body)"
  have hs: "hs = ?hs @ concat (map snd frags)" using Cons.prems(3) f by simp
  have body: "body \<noteq> []" "length raw + 5 + length body \<le> 65535" using Cons.prems(2,4) f by (auto simp: tls_record_def)
  have g: "4 \<le> length hs" "hd hs = 1" "length hs = 4 + be_nat (take 3 (drop 1 hs))" "42 \<le> length hs"
  proof -
    obtain h where "hello_ok h" "hs = hello_bytes h" using parse_sound [OF assms(4)] by blast
    then show "42 \<le> length hs" by (auto simp: hello_ok_def hello_bytes_def hello_body_def)
  qed (use parse_guards [OF assms(4)] in blast)+
  have ex': "(if length ?hs \<ge> 4 \<and> ex = None then
              (if hd ?hs \<noteq> 1 then Inl (InvalidClientHello ''handshake type'')
               else let n = 4 + be_nat (take 3 (drop 1 ?hs)) in
                 if n > 65535 \<or> n < 42 then Inl (InvalidClientHello ''handshake length'') else Inr (Some n))
            else Inr ex) = Inr (if 4 \<le> length ?hs then Some (length hs) else None)"
  proof (cases "length ?hs \<ge> 4 \<and> ex = None")
    case True
    then have "hd ?hs = 1" using g(2) hs by (metis hd_append2 length_0_conv not_numeral_le_zero)
    moreover have "take 3 (drop 1 ?hs) = take 3 (drop 1 hs)"
      unfolding hs using length3_prefix [OF True] by metis
    then have "4 + be_nat (take 3 (drop 1 ?hs)) = length hs" using g(3) by argo
    ultimately show ?thesis using True g(4) assms(6) by (simp only: Let_def) simp
  next
    case False
    then show ?thesis using Cons.prems(5) by (auto split: if_splits)
  qed
  have step: "read_records uni ech raw hs0 ex (tls_record (v, body) @ r) =
      (if 4 \<le> length ?hs \<and> length hs \<le> length ?hs then
         (case parseClientHelloSNI uni ech (take (length hs) ?hs) of
            Inl e \<Rightarrow> Inl e | Inr name \<Rightarrow> Inr (?raw, name, r))
       else read_records uni ech ?raw ?hs (if 4 \<le> length ?hs then Some (length hs) else None) r)" for r
    unfolding read_record_step [OF body] ex' by (cases "4 \<le> length ?hs") simp_all
  show ?case
  proof (cases "frags = []")
    case True
    then have "hs = ?hs" using hs by simp
    with g(1) assms(4) step [of rest] True show ?thesis by (simp add: f)
  next
    case False
    then have "concat (map snd frags) \<noteq> []" using Cons.prems(2) by (cases frags) auto
    then have short: "\<not> length ?hs \<ge> length hs" unfolding hs by simp
    have "read_records uni ech ?raw ?hs (if 4 \<le> length ?hs then Some (length hs) else None)
        (concat (map tls_record frags) @ rest) = Inr (?raw @ concat (map tls_record frags), n, rest)"
      using Cons.IH [OF False _ hs [symmetric], of ?raw] Cons.prems(2,4) f by simp
    then show ?thesis
      using short step [of "concat (map tls_record frags) @ rest"] by (simp add: f)
  qed
qed simp

section \<open>What a successful read says\<close>

lemma first_three:
  assumes "3 \<le> length xs"
  shows "xs = [xs ! 0, xs ! 1, xs ! 2] @ drop 3 xs"
proof -
  obtain a b c ys where "xs = a # b # c # ys"
    using assms by (cases xs; cases "tl xs"; cases "tl (tl xs)") auto
  then show ?thesis by simp
qed

lemma read_records_record:
  assumes "read_records uni ech raw hs ex stream = Inr x"
  obtains v body rest where "stream = tls_record (v, body) @ rest" "body \<noteq> []" "length raw + 5 + length body \<le> 65535"
proof -
  define n where "n = be_nat (drop 3 (take 5 stream))"
  have guards: "\<not> length stream < 5" "take 5 stream ! 0 = 22" "take 5 stream ! 1 = 3" "n \<noteq> 0"
    "length raw + 5 + n \<le> 65535" "\<not> length (drop 5 stream) < n"
    using assms unfolding read_records.simps [of uni ech raw hs ex stream] Let_def n_def [symmetric] guard_simps
    by auto
  have "take 5 stream = [take 5 stream ! 0, take 5 stream ! 1, take 5 stream ! 2] @ drop 3 (take 5 stream)"
    by (rule first_three) (use guards(1) in simp)
  moreover have "be_bytes 2 n = drop 3 (take 5 stream)"
    using be_bytes_be_nat [of "drop 3 (take 5 stream)"] guards(1) by (simp add: n_def)
  moreover have "length (take n (drop 5 stream)) = n" using guards(6) by simp
  ultimately have "tls_record (take 5 stream ! 2, take n (drop 5 stream)) = take 5 stream @ take n (drop 5 stream)"
    using guards(2,3) by (simp add: tls_record_def)
  then have "stream = tls_record (take 5 stream ! 2, take n (drop 5 stream)) @ drop n (drop 5 stream)"
    by (metis append.assoc append_take_drop_id)
  then show ?thesis using that [of "take 5 stream ! 2" "take n (drop 5 stream)"] guards(4,5,6) by simp
qed

lemma read_records_sound:
  "read_records uni ech raw hs ex stream = Inr (raw', n, rest) \<Longrightarrow>
   \<exists>frags k. raw' = raw @ concat (map tls_record frags) \<and> stream = concat (map tls_record frags) @ rest
     \<and> length raw' \<le> 65535 \<and> parseClientHelloSNI uni ech (take k (hs @ concat (map snd frags))) = Inr n"
proof (induction "length stream" arbitrary: raw hs ex stream rule: less_induct)
  case less
  from less.prems obtain v body s where s: "stream = tls_record (v, body) @ s"
    and body: "body \<noteq> []" "length raw + 5 + length body \<le> 65535" by (rule read_records_record)
  note step = less.prems [unfolded s read_record_step [OF body]]
  have shorter: "length s < length stream" by (simp add: s tls_record_def)
  from step consider
      (final) k where "raw' = raw @ tls_record (v, body)" "rest = s" "parseClientHelloSNI uni ech (take k (hs @ body)) = Inr n"
    | (more) ex' where "read_records uni ech (raw @ tls_record (v, body)) (hs @ body) ex' s = Inr (raw', n, rest)"
    unfolding Let_def by (auto split: sum.splits option.splits if_splits)
  then show ?case
  proof cases
    case (final k)
    with body s show ?thesis
      by (intro exI [of _ "[(v, body)]"] exI [of _ k]) (simp add: tls_record_def)
  next
    case (more ex')
    from less.hyps [OF shorter more] obtain frags k where
      "raw' = (raw @ tls_record (v, body)) @ concat (map tls_record frags)" "s = concat (map tls_record frags) @ rest"
      "length raw' \<le> 65535" "parseClientHelloSNI uni ech (take k ((hs @ body) @ concat (map snd frags))) = Inr n" by blast
    with s show ?thesis by (intro exI [of _ "(v, body) # frags"] exI [of _ k]) simp
  qed
qed

section \<open>Properties\<close>

text \<open>
  C30. Every well-formed greeting is understood, however it is cut into records: for a greeting
  with one server name (and no encrypted greeting, unless that is authorised), sent in any
  number of non-empty handshake records within the size limit and followed by anything, the
  reader returns exactly the bytes of those records, the normalised name, and leaves the rest.
\<close>

theorem hello_read_back:
  assumes "hello_ok h" and "ch_exts h = pre @ [sni_ext host] @ post"
    and "list_all (plain_ext ech) pre" and "list_all (plain_ext ech) post"
    and "normalizeDomain uni (bytes_string host) = Some n" and "length host < 65000"
    and "concat (map snd frags) = hello_bytes h" and "list_all (\<lambda>f. snd f \<noteq> []) frags"
    and "length (concat (map tls_record frags)) \<le> 65535"
  shows "readClientHello uni ech (concat (map tls_record frags) @ rest) = Inr (concat (map tls_record frags), n, rest)"
proof -
  have "length (concat (map snd frags)) \<le> length (concat (map tls_record frags))"
    by (induction frags) (auto simp: tls_record_def)
  with assms(7,9) have "length (hello_bytes h) \<le> 65535" by simp
  moreover have "frags \<noteq> []" using assms(7) by (auto simp: hello_bytes_def)
  ultimately show ?thesis
    unfolding readClientHello_def
    using read_records_complete [of frags "[]" "hello_bytes h" uni ech n "[]" None rest]
      parse_hello_sni [OF assms(1-6)] assms(7-9) by (simp add: list_all_iff)
qed

definition demo_hello :: hello where
  "demo_hello = \<lparr>ch_prefix = replicate 34 0, ch_session = [], ch_ciphers = [0x13, 0x01], ch_compression = [0],
     ch_exts = [(43, [2, 3, 4]), sni_ext (map of_char ''Example.org''), (10, [])]\<rparr>"

theorem hello_read_back_witness:
  "readClientHello (\<lambda>s. s) False (tls_record (1, take 30 (hello_bytes demo_hello)) @ tls_record (3, drop 30 (hello_bytes demo_hello)) @ [9])
     = Inr (tls_record (1, take 30 (hello_bytes demo_hello)) @ tls_record (3, drop 30 (hello_bytes demo_hello)), ''example.org'', [9])"
proof -
  have ok: "hello_ok demo_hello" "list_all (plain_ext False) [(43, [2, 3, 4])]" "list_all (plain_ext False) [(10, [])]"
    "normalizeDomain (\<lambda>s. s) (bytes_string (map of_char ''Example.org'')) = Some ''example.org''"
    "length (map of_char ''Example.org'' :: bytes) < 65000"
    "list_all (\<lambda>f. snd f \<noteq> []) [(1 :: byte, take 30 (hello_bytes demo_hello)), (3, drop 30 (hello_bytes demo_hello))]"
    "length (concat (map tls_record [(1, take 30 (hello_bytes demo_hello)), (3, drop 30 (hello_bytes demo_hello))])) \<le> 65535"
    by code_simp+
  have ext: "ch_exts demo_hello = [(43, [2, 3, 4])] @ [sni_ext (map of_char ''Example.org'')] @ [(10, [])]"
    by (simp add: demo_hello_def)
  have cut: "concat (map snd [(1 :: byte, take 30 (hello_bytes demo_hello)), (3, drop 30 (hello_bytes demo_hello))])
      = hello_bytes demo_hello" by simp
  from hello_read_back [OF ok(1) ext ok(2-5) cut ok(6,7), of "[9]"] show ?thesis by simp
qed

text \<open>
  C31. A greeting that passes is exactly what was on the wire: the returned bytes are the prefix of
  the stream, a sequence of handshake records of at most 65535 bytes, untouched; they carry a
  well-formed greeting; the name is normalised and is neither the operator's own domain nor below
  it; and without authorisation there is no encrypted greeting in it.
\<close>

theorem hello_read_sound:
  assumes "readClientHello uni ech stream = Inr (raw, n, rest)"
  shows "stream = raw @ rest \<and> length raw \<le> 65535
    \<and> normalizeDomain uni n = Some n \<and> n \<noteq> ''pokrov.space'' \<and> \<not> has_suffix n ''.pokrov.space''
    \<and> (\<exists>frags h tail. raw = concat (map tls_record frags) \<and> concat (map snd frags) = hello_bytes h @ tail
         \<and> hello_ok h \<and> (\<not> ech \<longrightarrow> (\<forall>e \<in> set (ch_exts h). fst e \<noteq> 0xfe0d)))"
proof -
  from read_records_sound [OF assms [unfolded readClientHello_def]] obtain frags k where
    r: "raw = concat (map tls_record frags)" "stream = concat (map tls_record frags) @ rest" "length raw \<le> 65535"
      "parseClientHelloSNI uni ech (take k (concat (map snd frags))) = Inr n" by auto
  from parse_sound [OF r(4)] obtain h where h: "hello_ok h" "take k (concat (map snd frags)) = hello_bytes h"
    "\<not> ech \<longrightarrow> (\<forall>e \<in> set (ch_exts h). fst e \<noteq> 0xfe0d)" and n: "normalizeDomain uni n = Some n"
    by (auto simp: normal_name_def)
  have "concat (map snd frags) = hello_bytes h @ drop k (concat (map snd frags))"
    using h(2) by (metis append_take_drop_id)
  with r h n normalizeDomain_foreign [OF n] show ?thesis by blast
qed

theorem hello_read_sound_witness:
  "readClientHello (\<lambda>s. s) False (tls_record (1, hello_bytes demo_hello) @ [9])
     = Inr (tls_record (1, hello_bytes demo_hello), ''example.org'', [9])
   \<and> length (tls_record (1, hello_bytes demo_hello)) \<le> 65535"
proof -
  have run: "readClientHello (\<lambda>s. s) False (tls_record (1, hello_bytes demo_hello) @ [9])
     = Inr (tls_record (1, hello_bytes demo_hello), ''example.org'', [9])" by code_simp
  with hello_read_sound [OF run] show ?thesis by blast
qed

end
