(* ===== verification/Smart_Access.thy ===== *)
theory Smart_Access
  imports Go_Time Probe_Error Client_Hello
begin

text \<open>
  The Smart Access outbound (\<open>smartaccess/outbound.go\<close>): leases with their dates and latches,
  renewal and revocation, admission of connections under two quotas, and the flows that carry
  them. The circuit breaker of its relays is state of the same object and is declared here; its
  operations are in the next theory. Leases and flows are heap objects (\<open>so_auth\<close>, \<open>so_flow\<close>); a
  connection that the code closes is added to \<open>so_shut\<close>.
\<close>

section \<open>State\<close>

datatype sa_error = errLease | errScope | errRetain

record sa_lease =
  sl_id :: string
  sl_issued :: gotime
  sl_newUntil :: gotime
  sl_activeUntil :: gotime
  sl_newDeadline :: gotime
  sl_activeDeadline :: gotime
  sl_admissionExpired :: bool
  sl_probeFailure :: "probe_stage option"
  sl_revoked :: bool
  sl_terminateActive :: bool

record sa_flow =
  sf_lease :: ref
  sf_conn :: ref
  sf_remote :: "ref option"
  sf_closed :: bool
  sf_active :: bool
  sf_timer :: bool
  sf_cancelled :: bool

record relayConnectState =
  rs_failures :: "gotime list"
  rs_openUntil :: gotime
  rs_probing :: bool
  rs_epoch :: u64

record relay_policy =
  rp_FailureThreshold :: int
  rp_FailureWindowMS :: int
  rp_CooldownMS :: int
  rp_ConnectTimeoutMS :: int
  rp_TotalTimeoutMS :: int
  rp_MaxAttempts :: int

record sa_domain =
  dm_Name :: string
  dm_Match :: string

record smart =
  so_tag :: string
  so_relays :: "addr list"
  so_policy :: "relay_policy option"
  so_relayStates :: "relayConnectState list"
  so_preferred :: nat
  so_domains :: "sa_domain list"
  so_ech :: bool
  so_lease :: ref
  so_leases :: "(string \<times> ref) list"
  so_auth :: "ref \<Rightarrow> sa_lease"
  so_next_lease :: ref
  so_maxNew :: int
  so_maxConcurrent :: int
  so_closed :: bool
  so_revoked :: bool
  so_terminateActive :: bool
  so_attempts :: "gotime list"
  so_flows :: "ref list"
  so_flow :: "ref \<Rightarrow> sa_flow"
  so_next_flow :: ref
  so_shut :: "ref set"

record sa_options =
  op_LeaseID :: string
  op_IssuedAt :: string
  op_NewFlowsUntil :: string
  op_ActiveFlowsUntil :: string
  op_RelayAddresses :: "string list"
  op_RelayConnectPolicy :: "relay_policy option"
  op_ExternalECHOuterSNI :: bool
  op_Domains :: "sa_domain list"
  op_MaxNew :: int
  op_MaxConcurrent :: int
  op_Detour :: string

section \<open>Construction\<close>

definition leaseIDPattern :: "string \<Rightarrow> bool" where
  "leaseIDPattern s \<longleftrightarrow> length s = 32 \<and> list_all is_lower_hex s"

definition newLeaseAuthorization ::
    "string \<Rightarrow> string \<Rightarrow> string \<Rightarrow> string \<Rightarrow> gotime \<Rightarrow> sa_error + sa_lease" where
  "newLeaseAuthorization lid issuedAt newFlowsUntil activeFlowsUntil now =
     (case canonical_time issuedAt of None \<Rightarrow> Inl errLease | Some issued \<Rightarrow>
      case canonical_time newFlowsUntil of None \<Rightarrow> Inl errLease | Some newUntil \<Rightarrow>
      case canonical_time activeFlowsUntil of None \<Rightarrow> Inl errLease | Some activeUntil \<Rightarrow>
      if \<not> leaseIDPattern lid \<or> \<not> time_after newUntil issued \<or> time_before activeUntil newUntil
         \<or> time_sub newUntil issued > 10 * minute \<or> time_sub activeUntil issued > hour \<or> time_before now issued
      then Inl errLease
      else Inr \<lparr>sl_id = lid, sl_issued = issued, sl_newUntil = newUntil, sl_activeUntil = activeUntil,
        sl_newDeadline = monotonic_deadline now newUntil, sl_activeDeadline = monotonic_deadline now activeUntil,
        sl_admissionExpired = (\<not> time_before now newUntil), sl_probeFailure = None,
        sl_revoked = False, sl_terminateActive = False\<rparr>)"

definition validRelayConnectPolicy :: "relay_policy option \<Rightarrow> bool" where
  "validRelayConnectPolicy policy =
     (case policy of
        None \<Rightarrow> True
      | Some p \<Rightarrow>
          \<not> (rp_FailureThreshold p < 1 \<or> rp_FailureThreshold p > 10000 \<or> rp_MaxAttempts p < 1 \<or> rp_MaxAttempts p > 8)
          \<and> list_all (\<lambda>v. \<not> (v < 1 \<or> v > 600000))
              [rp_FailureWindowMS p, rp_CooldownMS p, rp_ConnectTimeoutMS p, rp_TotalTimeoutMS p]
          \<and> rp_ConnectTimeoutMS p \<le> rp_TotalTimeoutMS p)"

definition new_relay_state :: relayConnectState where
  "new_relay_state = \<lparr>rs_failures = [], rs_openUntil = zero_time, rs_probing = False, rs_epoch = 0\<rparr>"

text \<open>The loop over the relay addresses: public, not seen before.\<close>

fun check_relays :: "addr list \<Rightarrow> string list \<Rightarrow> addr list option" where
  "check_relays relays [] = Some relays"
| "check_relays relays (value # vs) =
     (case ParseAddr value of
        None \<Rightarrow> None
      | Some relay \<Rightarrow>
          if \<not> publicRelayAddress relay \<or> relay \<in> set relays then None
          else check_relays (relays @ [relay]) vs)"

fun check_domains :: "(string \<Rightarrow> string) \<Rightarrow> bool \<Rightarrow> sa_domain list \<Rightarrow> sa_domain list \<Rightarrow> bool" where
  "check_domains uni ech seen [] = True"
| "check_domains uni ech seen (d # ds) =
     (if normalizeDomain uni (dm_Name d) \<noteq> Some (dm_Name d) \<or> (dm_Match d \<noteq> ''exact'' \<and> dm_Match d \<noteq> ''suffix'')
         \<or> d \<in> set seen \<or> (ech \<and> dm_Match d \<noteq> ''exact'') then False
      else check_domains uni ech (d # seen) ds)"

definition new_sa_flow :: sa_flow where
  "new_sa_flow = \<lparr>sf_lease = 0, sf_conn = 0, sf_remote = None, sf_closed = False, sf_active = False,
     sf_timer = False, sf_cancelled = False\<rparr>"

text \<open>\<open>dialer_ok\<close> and \<open>manager\<close> say whether the dialer could be built and the context holds a manager.\<close>

definition NewOutbound ::
    "(string \<Rightarrow> string) \<Rightarrow> bool \<Rightarrow> bool \<Rightarrow> string \<Rightarrow> sa_options \<Rightarrow> gotime \<Rightarrow> sa_error + smart" where
  "NewOutbound uni dialer_ok manager tag options now =
     (case newLeaseAuthorization (op_LeaseID options) (op_IssuedAt options) (op_NewFlowsUntil options)
             (op_ActiveFlowsUntil options) now of Inl e \<Rightarrow> Inl e | Inr lease \<Rightarrow>
      if op_MaxNew options < 1 \<or> op_MaxNew options > 10000 \<or> op_MaxConcurrent options < 1
         \<or> op_MaxConcurrent options > 256 \<or> length (op_Domains options) = 0 \<or> length (op_Domains options) > 256
      then Inl errLease
      else if length (op_RelayAddresses options) < 1 \<or> length (op_RelayAddresses options) > 8
         \<or> \<not> validRelayConnectPolicy (op_RelayConnectPolicy options) then Inl errLease
      else case check_relays [] (op_RelayAddresses options) of None \<Rightarrow> Inl errScope | Some relays \<Rightarrow>
      if op_Detour options \<noteq> [] then Inl errScope
      else if \<not> check_domains uni (op_ExternalECHOuterSNI options) [] (op_Domains options) then Inl errScope
      else if \<not> dialer_ok then Inl errScope
      else if \<not> manager then Inl errLease
      else Inr \<lparr>so_tag = tag, so_relays = relays, so_policy = op_RelayConnectPolicy options,
        so_relayStates = replicate (length relays) new_relay_state, so_preferred = 0,
        so_domains = op_Domains options, so_ech = op_ExternalECHOuterSNI options,
        so_lease = 0, so_leases = [(sl_id lease, 0)], so_auth = (\<lambda>_. lease), so_next_lease = 1,
        so_maxNew = op_MaxNew options, so_maxConcurrent = op_MaxConcurrent options,
        so_closed = False, so_revoked = False, so_terminateActive = False, so_attempts = [],
        so_flows = [], so_flow = (\<lambda>_. new_sa_flow), so_next_flow = 0, so_shut = {}\<rparr>)"

definition Start :: "smart \<Rightarrow> sa_error option" where
  "Start h = (if so_closed h then Some errLease else None)"

section \<open>Leases\<close>

definition set_lease :: "ref \<Rightarrow> sa_lease \<Rightarrow> smart \<Rightarrow> smart" where
  "set_lease l v h = h\<lparr>so_auth := (so_auth h)(l := v)\<rparr>"

definition LeaseID :: "smart \<Rightarrow> string" where
  "LeaseID h = sl_id (so_auth h (so_lease h))"

text \<open>The check also latches the end of admission.\<close>

definition admitsLeaseLocked :: "ref \<Rightarrow> gotime \<Rightarrow> smart \<Rightarrow> bool \<times> smart" where
  "admitsLeaseLocked l now h =
     (let lease = so_auth h l;
          lease' = (if time_before now (sl_issued lease) \<or> \<not> time_before now (sl_newUntil lease)
                       \<or> \<not> time_before now (sl_newDeadline lease)
                    then lease\<lparr>sl_admissionExpired := True\<rparr> else lease)
      in (\<not> so_closed h \<and> \<not> so_revoked h \<and> \<not> sl_revoked lease' \<and> \<not> sl_admissionExpired lease'
            \<and> sl_probeFailure lease' = None,
          set_lease l lease' h))"

definition admitsLocked :: "gotime \<Rightarrow> smart \<Rightarrow> bool \<times> smart" where
  "admitsLocked now h = admitsLeaseLocked (so_lease h) now h"

definition AdmitsNewFlows :: "gotime \<Rightarrow> smart \<Rightarrow> bool \<times> smart" where
  "AdmitsNewFlows now h = admitsLocked now h"

definition AcceptsRenewalEnrollment ::
    "string \<Rightarrow> string \<Rightarrow> string \<Rightarrow> string \<Rightarrow> gotime \<Rightarrow> smart \<Rightarrow> bool \<times> smart" where
  "AcceptsRenewalEnrollment lid issuedAt newFlowsUntil activeFlowsUntil now h =
     (let lease = so_auth h (so_lease h) in
      if sl_id lease = lid \<and> format_time (sl_issued lease) = issuedAt
         \<and> format_time (sl_newUntil lease) = newFlowsUntil \<and> format_time (sl_activeUntil lease) = activeFlowsUntil
      then admitsLocked now h else (False, h))"

definition CanRenewLease :: "string \<Rightarrow> smart \<Rightarrow> bool" where
  "CanRenewLease lid h \<longleftrightarrow> \<not> so_closed h \<and> \<not> so_revoked h \<and> \<not> sl_revoked (so_auth h (so_lease h)) \<and> LeaseID h = lid"

text \<open>
  The three readings of the clock are those in \<open>newLeaseAuthorization\<close>, before the pruning of
  retained leases, and after the expiry was persisted; \<open>retain\<close> is the persistence.
\<close>

definition RenewLease ::
    "string \<Rightarrow> string \<Rightarrow> string \<Rightarrow> string \<Rightarrow> string \<Rightarrow> gotime \<Rightarrow> gotime \<Rightarrow> (gotime \<Rightarrow> bool) \<Rightarrow> gotime
      \<Rightarrow> smart \<Rightarrow> (bool \<times> sa_error option) \<times> smart" where
  "RenewLease expectedID nextID issuedAt newFlowsUntil activeFlowsUntil now1 now2 retain now3 h =
     (if map_of (so_leases h) expectedID = None then ((False, None), h)
      else if so_closed h \<or> so_revoked h \<or> sl_revoked (so_auth h (so_lease h)) then ((False, Some errLease), h)
      else case newLeaseAuthorization nextID issuedAt newFlowsUntil activeFlowsUntil now1 of
        Inl _ \<Rightarrow> ((False, Some errLease), h)
      | Inr next \<Rightarrow>
          let lease = so_auth h (so_lease h) in
          if sl_admissionExpired next then ((False, Some errLease), h)
          else if sl_id lease = nextID \<and> time_equal (sl_issued lease) (sl_issued next)
             \<and> time_equal (sl_newUntil lease) (sl_newUntil next) \<and> time_equal (sl_activeUntil lease) (sl_activeUntil next)
          then ((True, None), h)
          else if sl_id lease \<noteq> expectedID \<or> nextID = expectedID \<or> time_before (sl_issued next) (sl_issued lease)
             \<or> \<not> time_after (sl_newUntil next) (sl_newUntil lease) then ((False, Some errLease), h)
          else if map_of (so_leases h) nextID \<noteq> None then ((False, Some errLease), h)
          else let h1 = h\<lparr>so_leases := filter (\<lambda>(i, r). \<not> (i \<noteq> expectedID \<and>
                     (\<not> time_before now2 (sl_activeUntil (so_auth h r)) \<or> \<not> time_before now2 (sl_activeDeadline (so_auth h r)))))
                   (so_leases h)\<rparr> in
            if length (so_leases h1) \<ge> 256 then ((False, Some errLease), h1)
            else if \<not> retain (sl_activeUntil next) then ((False, Some errRetain), h1)
            else if time_before now3 (sl_issued next) \<or> \<not> time_before now3 (sl_newUntil next)
               \<or> \<not> time_before now3 (sl_newDeadline next) then ((False, Some errLease), h1)
            else ((True, None),
              h1\<lparr>so_leases := (nextID, so_next_lease h) # so_leases h1, so_lease := so_next_lease h,
                 so_auth := (so_auth h)(so_next_lease h := next), so_next_lease := so_next_lease h + 1\<rparr>))"

definition recordProbeFailure :: "ref \<Rightarrow> probe_stage \<Rightarrow> gotime \<Rightarrow> smart \<Rightarrow> smart" where
  "recordProbeFailure l stage now h =
     (if so_lease h \<noteq> l then h
      else case admitsLeaseLocked l now h of
        (ok, h') \<Rightarrow> if ok then set_lease l ((so_auth h' l)\<lparr>sl_probeFailure := Some stage\<rparr>) h' else h')"

definition allows :: "string \<Rightarrow> smart \<Rightarrow> bool" where
  "allows name h = list_ex (\<lambda>d. name = dm_Name d \<or>
     (dm_Match d = ''suffix'' \<and> has_suffix name (''.'' @ dm_Name d))) (so_domains h)"

section \<open>Flows\<close>

definition set_flow :: "ref \<Rightarrow> sa_flow \<Rightarrow> smart \<Rightarrow> smart" where
  "set_flow f v h = h\<lparr>so_flow := (so_flow h)(f := v)\<rparr>"

text \<open>
  \<open>leaseFlow.Close\<close> in its two critical sections: the first marks the flow and closes its
  connections, the second takes it off the owner's list. The first says whether there is more to do.
\<close>

definition close_mark :: "ref \<Rightarrow> smart \<Rightarrow> bool \<times> smart" where
  "close_mark f h =
     (let fl = so_flow h f in
      if sf_closed fl then (False, h)
      else (True, (set_flow f (fl\<lparr>sf_closed := True, sf_timer := False, sf_cancelled := True\<rparr>) h)
              \<lparr>so_shut := so_shut h \<union> {sf_conn fl} \<union> set_option (sf_remote fl)\<rparr>))"

definition close_unlist :: "ref \<Rightarrow> smart \<Rightarrow> smart" where
  "close_unlist f h = h\<lparr>so_flows := removeAll f (so_flows h)\<rparr>"

definition close_flow :: "ref \<Rightarrow> smart \<Rightarrow> smart" where
  "close_flow f h = (case close_mark f h of (live, h') \<Rightarrow> if live then close_unlist f h' else h')"

definition setRemote :: "ref \<Rightarrow> ref \<Rightarrow> smart \<Rightarrow> bool \<times> smart" where
  "setRemote f remote h =
     (if sf_closed (so_flow h f) then (False, h)
      else (True, set_flow f ((so_flow h f)\<lparr>sf_remote := Some remote\<rparr>) h))"

definition current :: "ref \<Rightarrow> gotime \<Rightarrow> smart \<Rightarrow> bool \<times> smart" where
  "current f now h =
     (let lease = so_auth h (sf_lease (so_flow h f)) in
      if time_before now (sl_issued lease) \<or> \<not> time_before now (sl_activeUntil lease)
         \<or> \<not> time_before now (sl_activeDeadline lease) then (False, close_flow f h)
      else if so_terminateActive h \<or> sl_terminateActive lease then (False, h)
      else (\<not> sf_closed (so_flow h f), h))"

text \<open>\<open>Read\<close> and \<open>Write\<close>, of the client side and of the relay side alike.\<close>

definition flow_read ::
    "ref \<Rightarrow> gotime \<Rightarrow> (smart \<Rightarrow> 'r \<times> smart) \<Rightarrow> gotime \<Rightarrow> smart \<Rightarrow> (sa_error + 'r) \<times> smart" where
  "flow_read f now1 read now2 h =
     (case current f now1 h of
        (False, h1) \<Rightarrow> (Inl errLease, h1)
      | (True, h1) \<Rightarrow> (case read h1 of (r, h2) \<Rightarrow>
          (case current f now2 h2 of (False, h3) \<Rightarrow> (Inl errLease, h3) | (True, h3) \<Rightarrow> (Inr r, h3))))"

definition flow_write ::
    "ref \<Rightarrow> gotime \<Rightarrow> (smart \<Rightarrow> 'r \<times> smart) \<Rightarrow> smart \<Rightarrow> (sa_error + 'r) \<times> smart" where
  "flow_write f now write h =
     (case current f now h of
        (False, h1) \<Rightarrow> (Inl errLease, h1)
      | (True, h1) \<Rightarrow> (case write h1 of (r, h2) \<Rightarrow> (Inr r, h2)))"

text \<open>The critical sections of \<open>Close\<close>, \<open>Revoke\<close> and \<open>RevokeLease\<close>: the flows to close, and the state.\<close>

definition close_locked :: "smart \<Rightarrow> ref list \<times> smart" where
  "close_locked h = (so_flows h, h\<lparr>so_closed := True, so_terminateActive := True\<rparr>)"

definition revoke_locked :: "bool \<Rightarrow> smart \<Rightarrow> ref list \<times> smart" where
  "revoke_locked terminate h =
     (filter (\<lambda>f. terminate \<or> \<not> sf_active (so_flow h f)) (so_flows h),
      h\<lparr>so_revoked := True, so_terminateActive := so_terminateActive h \<or> terminate\<rparr>)"

definition revokeLease_locked :: "string \<Rightarrow> bool \<Rightarrow> smart \<Rightarrow> (ref list \<times> smart) option" where
  "revokeLease_locked leaseID terminate h =
     (case map_of (so_leases h) leaseID of
        None \<Rightarrow> None
      | Some l \<Rightarrow>
          let lease = so_auth h l in
          Some (filter (\<lambda>f. sf_lease (so_flow h f) = l \<and> (terminate \<or> \<not> sf_active (so_flow h f))) (so_flows h),
            set_lease l (lease\<lparr>sl_revoked := True, sl_terminateActive := sl_terminateActive lease \<or> terminate\<rparr>) h))"

definition Close :: "smart \<Rightarrow> smart" where
  "Close h = (case close_locked h of (fs, h') \<Rightarrow> fold close_flow fs h')"

definition Revoke :: "bool \<Rightarrow> smart \<Rightarrow> smart" where
  "Revoke terminate h = (case revoke_locked terminate h of (fs, h') \<Rightarrow> fold close_flow fs h')"

definition RevokeLease :: "string \<Rightarrow> bool \<Rightarrow> smart \<Rightarrow> bool \<times> smart" where
  "RevokeLease leaseID terminate h =
     (case revokeLease_locked leaseID terminate h of
        None \<Rightarrow> (False, h)
      | Some (fs, h') \<Rightarrow> (True, fold close_flow fs h'))"

text \<open>The sliding minute of attempts.\<close>

definition prune_attempts :: "gotime \<Rightarrow> smart \<Rightarrow> smart" where
  "prune_attempts now h = h\<lparr>so_attempts := dropWhile (\<lambda>a. time_sub now a \<ge> minute) (so_attempts h)\<rparr>"

text \<open>The first critical section of \<open>newConnection\<close>: admission of a client connection.\<close>

definition admit_connection :: "gotime \<Rightarrow> ref \<Rightarrow> smart \<Rightarrow> ref option \<times> smart" where
  "admit_connection now conn h =
     (case admitsLocked now (prune_attempts now h) of
        (ok, h1) \<Rightarrow>
          if \<not> ok \<or> int (length (so_flows h1)) \<ge> so_maxConcurrent h1 \<or> int (length (so_attempts h1)) \<ge> so_maxNew h1
          then (None, h1)
          else let f = so_next_flow h1 in
            (Some f, h1\<lparr>so_flows := f # so_flows h1,
                so_flow := (so_flow h1)(f := new_sa_flow\<lparr>sf_lease := so_lease h1, sf_conn := conn, sf_timer := True\<rparr>),
                so_next_flow := f + 1, so_attempts := so_attempts h1 @ [now]\<rparr>))"

text \<open>Its last one: the flow becomes active if its own lease still admits.\<close>

definition activate :: "ref \<Rightarrow> gotime \<Rightarrow> smart \<Rightarrow> bool \<times> smart" where
  "activate f now h =
     (case admitsLeaseLocked (sf_lease (so_flow h f)) now h of
        (ok, h1) \<Rightarrow> (ok, if ok then set_flow f ((so_flow h1 f)\<lparr>sf_active := True\<rparr>) h1 else h1))"

end
