(* ===== verification/Relay_Connect.thy ===== *)
theory Relay_Connect
  imports Smart_Access
begin

text \<open>
  How a Smart Access connection reaches a relay: the circuit breaker per relay
  (\<open>smartaccess/relay_connect.go\<close>), the availability check the service group makes
  (\<open>availableForNewFlows\<close> of \<open>service_group.go\<close>), and the whole of \<open>newConnection\<close>. Calls that block are
  arguments: functions that return what the call returns together with the state after whatever
  other goroutines did meanwhile.
\<close>

section \<open>The circuit breaker\<close>

definition set_state :: "nat \<Rightarrow> relayConnectState \<Rightarrow> smart \<Rightarrow> smart" where
  "set_state i v h = h\<lparr>so_relayStates := (so_relayStates h)[i := v]\<rparr>"

definition relay_blocked :: "gotime \<Rightarrow> relayConnectState \<Rightarrow> bool" where
  "relay_blocked now state \<longleftrightarrow>
     \<not> is_zero (rs_openUntil state) \<and> (rs_probing state \<or> time_before now (rs_openUntil state))"

text \<open>The first relay, counted from the preferred one, that was not tried and is not blocked.\<close>

definition find_relay :: "gotime \<Rightarrow> nat list \<Rightarrow> smart \<Rightarrow> nat option" where
  "find_relay now visited h =
     find (\<lambda>index. index \<notin> set visited \<and> \<not> relay_blocked now (so_relayStates h ! index))
       (map (\<lambda>offset. (so_preferred h + offset) mod length (so_relays h)) [0..<length (so_relays h)])"

text \<open>The result is the relay, its epoch and whether this is a half-open probe.\<close>

definition reserveRelay ::
    "ref \<Rightarrow> nat list \<Rightarrow> bool \<Rightarrow> gotime \<Rightarrow> smart \<Rightarrow> (nat \<times> u64 \<times> bool) option \<times> smart" where
  "reserveRelay l visited extra now h =
     (case admitsLeaseLocked l now h of
        (ok, h1) \<Rightarrow>
          if \<not> ok then (None, h1)
          else let h2 = prune_attempts now h1 in
            if extra \<and> int (length (so_attempts h2)) \<ge> so_maxNew h2 then (None, h2)
            else (case find_relay now visited h2 of
                None \<Rightarrow> (None, h2)
              | Some index \<Rightarrow>
                  let state = so_relayStates h2 ! index;
                      probe = (\<not> is_zero (rs_openUntil state));
                      h3 = (if probe then set_state index (state\<lparr>rs_probing := True\<rparr>) h2 else h2);
                      h4 = (if extra then h3\<lparr>so_attempts := so_attempts h3 @ [now]\<rparr> else h3)
                  in (Some (index, rs_epoch state, probe), h4)))"

definition completeRelay :: "nat \<Rightarrow> u64 \<Rightarrow> bool \<Rightarrow> bool \<Rightarrow> bool \<Rightarrow> gotime \<Rightarrow> smart \<Rightarrow> bool \<times> smart" where
  "completeRelay index epoch probe success cancelled now h =
     (let state = so_relayStates h ! index in
      if rs_epoch state \<noteq> epoch then (False, h)
      else let state1 = (if probe then state\<lparr>rs_probing := False\<rparr> else state) in
      if cancelled then (False, set_state index state1 h)
      else if success then
        (let state2 = state1\<lparr>rs_failures := []\<rparr>;
             state3 = (if probe then state2\<lparr>rs_openUntil := zero_time, rs_epoch := rs_epoch state2 + 1\<rparr> else state2)
         in (True, (set_state index state3 h)\<lparr>so_preferred := index\<rparr>))
      else
        (case so_policy h of
           None \<Rightarrow> (False, h)
         | Some p \<Rightarrow>
             let window = rp_FailureWindowMS p * millisecond;
                 failures = dropWhile (\<lambda>a. time_sub now a \<ge> window) (rs_failures state1) @ [now];
                 state2 = state1\<lparr>rs_failures := failures\<rparr>;
                 state3 = (if probe \<or> int (length failures) \<ge> rp_FailureThreshold p
                           then state2\<lparr>rs_failures := [], rs_openUntil := time_add now (rp_CooldownMS p * millisecond),
                                  rs_epoch := rs_epoch state2 + 1\<rparr>
                           else state2)
             in (False, set_state index state3 h)))"

text \<open>What a dial returns, and the readings around it.\<close>

record relay_dial =
  rd_conn :: "ref option"
  rd_within :: bool
  rd_cancelled :: bool
  rd_now :: gotime
  rd_dead :: bool

text \<open>
  The loop over attempts: \<open>n\<close> attempts are left, \<open>visited\<close> lists the relays tried. \<open>alive\<close> is the
  state of the context before an attempt and \<open>clock\<close> the reading at its reservation. A policy is
  present.
\<close>

fun connect_attempts ::
    "(nat \<Rightarrow> bool) \<Rightarrow> (nat \<Rightarrow> gotime) \<Rightarrow> (nat \<Rightarrow> smart \<Rightarrow> relay_dial \<times> smart) \<Rightarrow> ref \<Rightarrow> nat \<Rightarrow> nat list \<Rightarrow> smart
      \<Rightarrow> (ref option \<times> nat list) \<times> smart" where
  "connect_attempts alive clock dial l 0 visited h = ((None, visited), h)"
| "connect_attempts alive clock dial l (Suc n) visited h =
     (if \<not> alive (length visited) then ((None, visited), h)
      else case reserveRelay l visited (length visited > 0) (clock (length visited)) h of
        (None, h1) \<Rightarrow> ((None, visited), h1)
      | (Some (index, epoch, probe), h1) \<Rightarrow>
          (case dial index h1 of
             (d, h2) \<Rightarrow>
               (case completeRelay index epoch probe (rd_conn d \<noteq> None \<and> rd_within d) (rd_cancelled d) (rd_now d) h2 of
                  (accepted, h3) \<Rightarrow>
                    if rd_conn d \<noteq> None \<and> accepted \<and> \<not> rd_dead d then ((rd_conn d, visited @ [index]), h3)
                    else let h4 = h3\<lparr>so_shut := so_shut h3 \<union> set_option (rd_conn d)\<rparr> in
                      if rd_cancelled d then ((None, visited @ [index]), h4)
                      else connect_attempts alive clock dial l n (visited @ [index]) h4)))"

definition connectRelay ::
    "(nat \<Rightarrow> bool) \<Rightarrow> (nat \<Rightarrow> gotime) \<Rightarrow> (nat \<Rightarrow> smart \<Rightarrow> relay_dial \<times> smart) \<Rightarrow> ref \<Rightarrow> smart
      \<Rightarrow> (ref option \<times> nat list) \<times> smart" where
  "connectRelay alive clock dial l h =
     (case so_policy h of
        None \<Rightarrow>
          (case dial 0 h of
             (d, h1) \<Rightarrow>
               if rd_conn d \<noteq> None \<and> rd_dead d
               then ((None, [0]), h1\<lparr>so_shut := so_shut h1 \<union> set_option (rd_conn d)\<rparr>)
               else ((rd_conn d, [0]), h1))
      | Some p \<Rightarrow> connect_attempts alive clock dial l (nat (rp_MaxAttempts p)) [] h)"

definition availableForNewFlows :: "gotime \<Rightarrow> smart \<Rightarrow> bool \<times> smart" where
  "availableForNewFlows now h =
     (case admitsLocked now h of
        (ok, h1) \<Rightarrow>
          if \<not> ok \<or> int (length (so_flows h1)) \<ge> so_maxConcurrent h1 then (False, h1)
          else let h2 = prune_attempts now h1 in
            if int (length (so_attempts h2)) \<ge> so_maxNew h2 then (False, h2)
            else if so_policy h2 = None then (True, h2)
            else (list_ex (\<lambda>state. is_zero (rs_openUntil state) \<or>
                    (\<not> rs_probing state \<and> \<not> time_before now (rs_openUntil state))) (so_relayStates h2), h2))"

section \<open>A connection from admission to relaying\<close>

text \<open>
  What the client's connection and the context do: the port asked for, whether the two deadlines
  could be set, the greeting, and the clock at each check. The result is the raw greeting and the
  server name that the connection manager relays, or nothing when the connection was refused.
  The marks that a running probe receives (\<open>connected\<close>, \<open>connectError\<close>) are left out.
\<close>

record nc_world =
  nw_port :: nat
  nw_conn :: ref
  nw_now1 :: gotime
  nw_deadline1 :: bool
  nw_hello :: "smart \<Rightarrow> (hello_error + (bytes \<times> string \<times> bytes)) \<times> smart"
  nw_now2 :: gotime
  nw_now3 :: gotime
  nw_connect :: "ref \<Rightarrow> smart \<Rightarrow> (ref option \<times> nat list) \<times> smart"
  nw_now4 :: gotime
  nw_deadline2 :: bool

text \<open>The instant by which the greeting and the relay must have answered.\<close>

definition connect_deadline :: "gotime \<Rightarrow> ref \<Rightarrow> smart \<Rightarrow> gotime" where
  "connect_deadline now f h =
     (let newDeadline = sl_newDeadline (so_auth h (sf_lease (so_flow h f))) in
      case so_policy h of
        None \<Rightarrow> newDeadline
      | Some p \<Rightarrow> let budget = time_add now (rp_TotalTimeoutMS p * millisecond) in
          if time_before budget newDeadline then budget else newDeadline)"

definition newConnection :: "nc_world \<Rightarrow> smart \<Rightarrow> (ref \<times> bytes \<times> string) option \<times> smart" where
  "newConnection w h =
     (if nw_port w \<noteq> 443 then (None, h\<lparr>so_shut := insert (nw_conn w) (so_shut h)\<rparr>)
      else case admit_connection (nw_now1 w) (nw_conn w) h of
        (None, h1) \<Rightarrow> (None, h1\<lparr>so_shut := insert (nw_conn w) (so_shut h1)\<rparr>)
      | (Some f, h1) \<Rightarrow>
          if \<not> nw_deadline1 w then (None, close_flow f h1)
          else (case nw_hello w h1 of
            (Inl e, h2) \<Rightarrow>
              (None, close_flow f (if e = ECHUnsupported
                 then recordProbeFailure (sf_lease (so_flow h2 f)) ProbeStageTLS (nw_now2 w) h2 else h2))
          | (Inr (raw, serverName, _), h2) \<Rightarrow>
              if \<not> allows serverName h2 then (None, close_flow f h2)
              else (case admitsLeaseLocked (sf_lease (so_flow h2 f)) (nw_now3 w) h2 of
                (False, h3) \<Rightarrow> (None, close_flow f h3)
              | (True, h3) \<Rightarrow>
                  (case nw_connect w (sf_lease (so_flow h3 f)) h3 of
                    ((None, _), h4) \<Rightarrow> (None, close_flow f h4)
                  | ((Some remote, _), h4) \<Rightarrow>
                      (case setRemote f remote h4 of
                        (False, h5) \<Rightarrow> (None, close_flow f (h5\<lparr>so_shut := insert remote (so_shut h5)\<rparr>))
                      | (True, h5) \<Rightarrow>
                          (case activate f (nw_now4 w) h5 of
                            (False, h6) \<Rightarrow> (None, close_flow f h6)
                          | (True, h6) \<Rightarrow>
                              if \<not> nw_deadline2 w then (None, close_flow f h6)
                              else (Some (f, raw, serverName), h6)))))))"

end
