(* ===== verification/Smart_System.thy ===== *)
theory Smart_System
  imports Relay_Connect
begin

text \<open>
  The Smart Access outbound under concurrency: its critical sections in any order, driven by a
  monotonic clock, and what holds in every such history. Ghost components record every attempt
  that was counted against the quota, when each lease was accepted, which flows a revocation has
  still to close and which relay reservations are outstanding.
\<close>

section \<open>Interleavings\<close>

record sa_system =
  sm :: smart
  sm_log :: "gotime list"
  sm_born :: "ref \<Rightarrow> gotime"
  sm_closing :: "ref set"
  sm_marked :: "ref set"
  sm_reserved :: "(nat \<times> u64 \<times> bool) list"
  sm_completed :: nat
  sm_clock :: int

text \<open>
  A reading of the clock that is not older than the one before. A critical section and the reading
  it works with are one step; \<open>newConnection\<close> takes its first reading just before it locks, so
  the order of the readings is the order of the sections when no other section comes between.
\<close>

definition tick :: "gotime \<Rightarrow> sa_system \<Rightarrow> bool" where
  "tick now s \<longleftrightarrow> clock_ok now \<and> sm_clock s \<le> the (mono_ns now)"

definition at_time :: "gotime \<Rightarrow> smart \<Rightarrow> sa_system \<Rightarrow> sa_system" where
  "at_time now h s = s\<lparr>sm := h, sm_clock := the (mono_ns now)\<rparr>"

inductive sa_step :: "sa_system \<Rightarrow> sa_system \<Rightarrow> bool" where
  admit: "tick now s \<Longrightarrow>
    sa_step s ((at_time now (snd (admit_connection now conn (sm s))) s)
      \<lparr>sm_log := sm_log s @ (if fst (admit_connection now conn (sm s)) = None then [] else [now])\<rparr>)"
| check: "tick now s \<Longrightarrow> l < so_next_lease (sm s) \<Longrightarrow>
    sa_step s (at_time now (snd (admitsLeaseLocked l now (sm s))) s)"
| available: "tick now s \<Longrightarrow> sa_step s (at_time now (snd (availableForNewFlows now (sm s))) s)"
| probe_failure: "tick now s \<Longrightarrow> l < so_next_lease (sm s) \<Longrightarrow>
    sa_step s (at_time now (recordProbeFailure l stage now (sm s)) s)"
| remote: "f < so_next_flow (sm s) \<Longrightarrow> sa_step s (s\<lparr>sm := snd (setRemote f c (sm s))\<rparr>)"
| activate: "tick now s \<Longrightarrow> f < so_next_flow (sm s) \<Longrightarrow> sa_step s (at_time now (snd (activate f now (sm s))) s)"
| mark: "f < so_next_flow (sm s) \<Longrightarrow>
    sa_step s (s\<lparr>sm := snd (close_mark f (sm s)), sm_closing := sm_closing s - {f},
      sm_marked := (if fst (close_mark f (sm s)) then insert f (sm_marked s) else sm_marked s)\<rparr>)"
| unlist: "f \<in> sm_marked s \<Longrightarrow> sa_step s (s\<lparr>sm := close_unlist f (sm s), sm_marked := sm_marked s - {f}\<rparr>)"
| close: "sa_step s (s\<lparr>sm := snd (close_locked (sm s)), sm_closing := sm_closing s \<union> set (fst (close_locked (sm s)))\<rparr>)"
| revoke: "sa_step s (s\<lparr>sm := snd (revoke_locked t (sm s)),
    sm_closing := sm_closing s \<union> set (fst (revoke_locked t (sm s)))\<rparr>)"
| revoke_lease: "revokeLease_locked i t (sm s) = Some (fs, h) \<Longrightarrow>
    sa_step s (s\<lparr>sm := h, sm_closing := sm_closing s \<union> set fs\<rparr>)"
| renew: "tick now1 s \<Longrightarrow>
    sa_step s ((at_time now1 (snd (RenewLease i j d1 d2 d3 now1 now2 retain now3 (sm s))) s)
      \<lparr>sm_born := (sm_born s)(so_next_lease (sm s) := now1)\<rparr>)"
| reserve: "tick now s \<Longrightarrow> l < so_next_lease (sm s) \<Longrightarrow> so_policy (sm s) \<noteq> None \<Longrightarrow>
    sa_step s ((at_time now (snd (reserveRelay l visited extra now (sm s))) s)
      \<lparr>sm_log := sm_log s @ (if extra \<and> fst (reserveRelay l visited extra now (sm s)) \<noteq> None then [now] else []),
       sm_reserved := (case fst (reserveRelay l visited extra now (sm s)) of
           Some v \<Rightarrow> v # sm_reserved s | None \<Rightarrow> sm_reserved s)\<rparr>)"
| complete: "tick now s \<Longrightarrow> (index, epoch, probe) \<in> set (sm_reserved s) \<Longrightarrow> so_policy (sm s) \<noteq> None \<Longrightarrow>
    sa_step s ((at_time now (snd (completeRelay index epoch probe success cancelled now (sm s))) s)
      \<lparr>sm_reserved := remove1 (index, epoch, probe) (sm_reserved s), sm_completed := sm_completed s + 1\<rparr>)"

inductive_cases sa_stepE: "sa_step s t"

definition sa_init :: "(string \<Rightarrow> string) \<Rightarrow> string \<Rightarrow> sa_options \<Rightarrow> gotime \<Rightarrow> sa_system \<Rightarrow> bool" where
  "sa_init uni tag options now s \<longleftrightarrow> clock_ok now \<and>
     (\<exists>h. NewOutbound uni True True tag options now = Inr h \<and>
        s = \<lparr>sm = h, sm_log = [], sm_born = (\<lambda>_. now), sm_closing = {}, sm_marked = {}, sm_reserved = [],
             sm_completed = 0, sm_clock = the (mono_ns now)\<rparr>)"

section \<open>Frames\<close>

text \<open>What each operation leaves alone.\<close>

lemma admitsLeaseLocked_frame [frame_simps]:
  "so_relays (snd (admitsLeaseLocked l now h)) = so_relays h"
  "so_policy (snd (admitsLeaseLocked l now h)) = so_policy h"
  "so_maxNew (snd (admitsLeaseLocked l now h)) = so_maxNew h"
  "so_maxConcurrent (snd (admitsLeaseLocked l now h)) = so_maxConcurrent h"
  "so_lease (snd (admitsLeaseLocked l now h)) = so_lease h"
  "so_leases (snd (admitsLeaseLocked l now h)) = so_leases h"
  "so_next_lease (snd (admitsLeaseLocked l now h)) = so_next_lease h"
  "so_closed (snd (admitsLeaseLocked l now h)) = so_closed h"
  "so_revoked (snd (admitsLeaseLocked l now h)) = so_revoked h"
  "so_terminateActive (snd (admitsLeaseLocked l now h)) = so_terminateActive h"
  "so_attempts (snd (admitsLeaseLocked l now h)) = so_attempts h"
  "so_flows (snd (admitsLeaseLocked l now h)) = so_flows h" "so_flow (snd (admitsLeaseLocked l now h)) = so_flow h"
  "so_next_flow (snd (admitsLeaseLocked l now h)) = so_next_flow h"
  "so_relayStates (snd (admitsLeaseLocked l now h)) = so_relayStates h"
  by (simp_all add: admitsLeaseLocked_def set_lease_def Let_def)

lemma prune_attempts_frame [frame_simps]:
  "so_relays (prune_attempts now h) = so_relays h" "so_policy (prune_attempts now h) = so_policy h"
  "so_maxNew (prune_attempts now h) = so_maxNew h" "so_maxConcurrent (prune_attempts now h) = so_maxConcurrent h"
  "so_lease (prune_attempts now h) = so_lease h" "so_leases (prune_attempts now h) = so_leases h"
  "so_auth (prune_attempts now h) = so_auth h" "so_next_lease (prune_attempts now h) = so_next_lease h"
  "so_closed (prune_attempts now h) = so_closed h" "so_revoked (prune_attempts now h) = so_revoked h"
  "so_terminateActive (prune_attempts now h) = so_terminateActive h" "so_flows (prune_attempts now h) = so_flows h"
  "so_flow (prune_attempts now h) = so_flow h" "so_next_flow (prune_attempts now h) = so_next_flow h"
  "so_relayStates (prune_attempts now h) = so_relayStates h"
  by (simp_all add: prune_attempts_def)

lemma close_mark_frame [frame_simps]:
  "so_relays (snd (close_mark f h)) = so_relays h" "so_policy (snd (close_mark f h)) = so_policy h"
  "so_maxNew (snd (close_mark f h)) = so_maxNew h" "so_maxConcurrent (snd (close_mark f h)) = so_maxConcurrent h"
  "so_lease (snd (close_mark f h)) = so_lease h" "so_leases (snd (close_mark f h)) = so_leases h"
  "so_auth (snd (close_mark f h)) = so_auth h" "so_next_lease (snd (close_mark f h)) = so_next_lease h"
  "so_closed (snd (close_mark f h)) = so_closed h" "so_revoked (snd (close_mark f h)) = so_revoked h"
  "so_terminateActive (snd (close_mark f h)) = so_terminateActive h"
  "so_attempts (snd (close_mark f h)) = so_attempts h" "so_flows (snd (close_mark f h)) = so_flows h"
  "so_next_flow (snd (close_mark f h)) = so_next_flow h" "so_relayStates (snd (close_mark f h)) = so_relayStates h"
  by (simp_all add: close_mark_def set_flow_def Let_def)

lemma close_unlist_frame [frame_simps]:
  "so_relays (close_unlist f h) = so_relays h" "so_policy (close_unlist f h) = so_policy h"
  "so_maxNew (close_unlist f h) = so_maxNew h" "so_maxConcurrent (close_unlist f h) = so_maxConcurrent h"
  "so_lease (close_unlist f h) = so_lease h" "so_leases (close_unlist f h) = so_leases h"
  "so_auth (close_unlist f h) = so_auth h" "so_next_lease (close_unlist f h) = so_next_lease h"
  "so_closed (close_unlist f h) = so_closed h" "so_revoked (close_unlist f h) = so_revoked h"
  "so_terminateActive (close_unlist f h) = so_terminateActive h" "so_attempts (close_unlist f h) = so_attempts h"
  "so_flow (close_unlist f h) = so_flow h" "so_next_flow (close_unlist f h) = so_next_flow h"
  "so_relayStates (close_unlist f h) = so_relayStates h"
  by (simp_all add: close_unlist_def)

lemma setRemote_frame [frame_simps]:
  "so_relays (snd (setRemote f c h)) = so_relays h" "so_policy (snd (setRemote f c h)) = so_policy h"
  "so_maxNew (snd (setRemote f c h)) = so_maxNew h" "so_maxConcurrent (snd (setRemote f c h)) = so_maxConcurrent h"
  "so_lease (snd (setRemote f c h)) = so_lease h" "so_leases (snd (setRemote f c h)) = so_leases h"
  "so_auth (snd (setRemote f c h)) = so_auth h" "so_next_lease (snd (setRemote f c h)) = so_next_lease h"
  "so_closed (snd (setRemote f c h)) = so_closed h" "so_revoked (snd (setRemote f c h)) = so_revoked h"
  "so_terminateActive (snd (setRemote f c h)) = so_terminateActive h"
  "so_attempts (snd (setRemote f c h)) = so_attempts h" "so_flows (snd (setRemote f c h)) = so_flows h"
  "so_next_flow (snd (setRemote f c h)) = so_next_flow h" "so_relayStates (snd (setRemote f c h)) = so_relayStates h"
  by (simp_all add: setRemote_def set_flow_def)

lemma activate_frame [frame_simps]:
  "so_relays (snd (activate f now h)) = so_relays h" "so_policy (snd (activate f now h)) = so_policy h"
  "so_maxNew (snd (activate f now h)) = so_maxNew h" "so_maxConcurrent (snd (activate f now h)) = so_maxConcurrent h"
  "so_lease (snd (activate f now h)) = so_lease h" "so_leases (snd (activate f now h)) = so_leases h"
  "so_next_lease (snd (activate f now h)) = so_next_lease h" "so_closed (snd (activate f now h)) = so_closed h"
  "so_revoked (snd (activate f now h)) = so_revoked h"
  "so_terminateActive (snd (activate f now h)) = so_terminateActive h"
  "so_attempts (snd (activate f now h)) = so_attempts h" "so_flows (snd (activate f now h)) = so_flows h"
  "so_next_flow (snd (activate f now h)) = so_next_flow h"
  "so_relayStates (snd (activate f now h)) = so_relayStates h"
  by (simp_all add: activate_def set_flow_def frame_simps case_prod_beta)

lemma recordProbeFailure_frame [frame_simps]:
  "so_relays (recordProbeFailure l stage now h) = so_relays h"
  "so_policy (recordProbeFailure l stage now h) = so_policy h"
  "so_maxNew (recordProbeFailure l stage now h) = so_maxNew h"
  "so_maxConcurrent (recordProbeFailure l stage now h) = so_maxConcurrent h"
  "so_lease (recordProbeFailure l stage now h) = so_lease h"
  "so_leases (recordProbeFailure l stage now h) = so_leases h"
  "so_next_lease (recordProbeFailure l stage now h) = so_next_lease h"
  "so_closed (recordProbeFailure l stage now h) = so_closed h"
  "so_revoked (recordProbeFailure l stage now h) = so_revoked h"
  "so_terminateActive (recordProbeFailure l stage now h) = so_terminateActive h"
  "so_attempts (recordProbeFailure l stage now h) = so_attempts h"
  "so_flows (recordProbeFailure l stage now h) = so_flows h" "so_flow (recordProbeFailure l stage now h) = so_flow h"
  "so_next_flow (recordProbeFailure l stage now h) = so_next_flow h"
  "so_relayStates (recordProbeFailure l stage now h) = so_relayStates h"
  by (simp_all add: recordProbeFailure_def set_lease_def frame_simps case_prod_beta)

lemma admit_connection_frame [frame_simps]:
  "so_relays (snd (admit_connection now c h)) = so_relays h"
  "so_policy (snd (admit_connection now c h)) = so_policy h"
  "so_maxNew (snd (admit_connection now c h)) = so_maxNew h"
  "so_maxConcurrent (snd (admit_connection now c h)) = so_maxConcurrent h"
  "so_lease (snd (admit_connection now c h)) = so_lease h" "so_leases (snd (admit_connection now c h)) = so_leases h"
  "so_next_lease (snd (admit_connection now c h)) = so_next_lease h"
  "so_closed (snd (admit_connection now c h)) = so_closed h"
  "so_revoked (snd (admit_connection now c h)) = so_revoked h"
  "so_terminateActive (snd (admit_connection now c h)) = so_terminateActive h"
  "so_relayStates (snd (admit_connection now c h)) = so_relayStates h"
  by (simp_all add: admit_connection_def admitsLocked_def frame_simps Let_def case_prod_beta)

lemma reserveRelay_frame [frame_simps]:
  "so_relays (snd (reserveRelay l visited extra now h)) = so_relays h"
  "so_policy (snd (reserveRelay l visited extra now h)) = so_policy h"
  "so_maxNew (snd (reserveRelay l visited extra now h)) = so_maxNew h"
  "so_maxConcurrent (snd (reserveRelay l visited extra now h)) = so_maxConcurrent h"
  "so_lease (snd (reserveRelay l visited extra now h)) = so_lease h"
  "so_leases (snd (reserveRelay l visited extra now h)) = so_leases h"
  "so_next_lease (snd (reserveRelay l visited extra now h)) = so_next_lease h"
  "so_closed (snd (reserveRelay l visited extra now h)) = so_closed h"
  "so_revoked (snd (reserveRelay l visited extra now h)) = so_revoked h"
  "so_terminateActive (snd (reserveRelay l visited extra now h)) = so_terminateActive h"
  "so_flows (snd (reserveRelay l visited extra now h)) = so_flows h"
  "so_flow (snd (reserveRelay l visited extra now h)) = so_flow h"
  "so_next_flow (snd (reserveRelay l visited extra now h)) = so_next_flow h"
  by (simp_all add: reserveRelay_def set_state_def frame_simps Let_def case_prod_beta split: option.splits)

lemma completeRelay_frame [frame_simps]:
  "so_relays (snd (completeRelay i e p ok c now h)) = so_relays h"
  "so_policy (snd (completeRelay i e p ok c now h)) = so_policy h"
  "so_maxNew (snd (completeRelay i e p ok c now h)) = so_maxNew h"
  "so_maxConcurrent (snd (completeRelay i e p ok c now h)) = so_maxConcurrent h"
  "so_lease (snd (completeRelay i e p ok c now h)) = so_lease h"
  "so_leases (snd (completeRelay i e p ok c now h)) = so_leases h"
  "so_auth (snd (completeRelay i e p ok c now h)) = so_auth h"
  "so_next_lease (snd (completeRelay i e p ok c now h)) = so_next_lease h"
  "so_closed (snd (completeRelay i e p ok c now h)) = so_closed h"
  "so_revoked (snd (completeRelay i e p ok c now h)) = so_revoked h"
  "so_terminateActive (snd (completeRelay i e p ok c now h)) = so_terminateActive h"
  "so_attempts (snd (completeRelay i e p ok c now h)) = so_attempts h"
  "so_flows (snd (completeRelay i e p ok c now h)) = so_flows h"
  "so_flow (snd (completeRelay i e p ok c now h)) = so_flow h"
  "so_next_flow (snd (completeRelay i e p ok c now h)) = so_next_flow h"
  by (simp_all add: completeRelay_def set_state_def Let_def split: option.splits)

lemma availableForNewFlows_frame [frame_simps]:
  "so_relays (snd (availableForNewFlows now h)) = so_relays h"
  "so_policy (snd (availableForNewFlows now h)) = so_policy h"
  "so_maxNew (snd (availableForNewFlows now h)) = so_maxNew h"
  "so_maxConcurrent (snd (availableForNewFlows now h)) = so_maxConcurrent h"
  "so_lease (snd (availableForNewFlows now h)) = so_lease h"
  "so_leases (snd (availableForNewFlows now h)) = so_leases h"
  "so_next_lease (snd (availableForNewFlows now h)) = so_next_lease h"
  "so_closed (snd (availableForNewFlows now h)) = so_closed h"
  "so_revoked (snd (availableForNewFlows now h)) = so_revoked h"
  "so_terminateActive (snd (availableForNewFlows now h)) = so_terminateActive h"
  "so_flows (snd (availableForNewFlows now h)) = so_flows h" "so_flow (snd (availableForNewFlows now h)) = so_flow h"
  "so_next_flow (snd (availableForNewFlows now h)) = so_next_flow h"
  "so_relayStates (snd (availableForNewFlows now h)) = so_relayStates h"
  by (simp_all add: availableForNewFlows_def admitsLocked_def frame_simps Let_def case_prod_beta)

lemma RenewLease_frame [frame_simps]:
  "so_relays (snd (RenewLease i j d1 d2 d3 now1 now2 retain now3 h)) = so_relays h"
  "so_policy (snd (RenewLease i j d1 d2 d3 now1 now2 retain now3 h)) = so_policy h"
  "so_maxNew (snd (RenewLease i j d1 d2 d3 now1 now2 retain now3 h)) = so_maxNew h"
  "so_maxConcurrent (snd (RenewLease i j d1 d2 d3 now1 now2 retain now3 h)) = so_maxConcurrent h"
  "so_closed (snd (RenewLease i j d1 d2 d3 now1 now2 retain now3 h)) = so_closed h"
  "so_revoked (snd (RenewLease i j d1 d2 d3 now1 now2 retain now3 h)) = so_revoked h"
  "so_terminateActive (snd (RenewLease i j d1 d2 d3 now1 now2 retain now3 h)) = so_terminateActive h"
  "so_attempts (snd (RenewLease i j d1 d2 d3 now1 now2 retain now3 h)) = so_attempts h"
  "so_flows (snd (RenewLease i j d1 d2 d3 now1 now2 retain now3 h)) = so_flows h"
  "so_flow (snd (RenewLease i j d1 d2 d3 now1 now2 retain now3 h)) = so_flow h"
  "so_next_flow (snd (RenewLease i j d1 d2 d3 now1 now2 retain now3 h)) = so_next_flow h"
  "so_relayStates (snd (RenewLease i j d1 d2 d3 now1 now2 retain now3 h)) = so_relayStates h"
  by (simp_all add: RenewLease_def Let_def split: sum.splits)

section \<open>Quotas\<close>

abbreviation mono_of :: "gotime \<Rightarrow> int" where
  "mono_of t \<equiv> the (mono_ns t)"

text \<open>The attempts that lie less than a minute before the \<open>i\<close>-th, itself included.\<close>

definition minute_before :: "gotime list \<Rightarrow> nat \<Rightarrow> nat list" where
  "minute_before log i = filter (\<lambda>j. mono_of (log ! i) - mono_of (log ! j) < minute) [0..<Suc i]"

definition readings_ok :: "gotime list \<Rightarrow> int \<Rightarrow> bool" where
  "readings_ok log c \<longleftrightarrow> 0 \<le> c \<and> c \<le> 2 ^ 62 \<and> sorted (map mono_of log)
     \<and> list_all (\<lambda>t. mono_ns t \<noteq> None \<and> 0 \<le> mono_of t \<and> mono_of t \<le> c) log"

definition attempts_inv :: "gotime list \<Rightarrow> int \<Rightarrow> gotime list \<Rightarrow> int \<Rightarrow> bool" where
  "attempts_inv log c attempts maxNew \<longleftrightarrow> readings_ok log c
     \<and> (\<exists>k. attempts = drop k log \<and> (\<forall>i < k. i < length log \<longrightarrow> c - mono_of (log ! i) \<ge> minute))
     \<and> (\<forall>i < length log. int (length (minute_before log i)) \<le> maxNew)"

lemma time_sub_readings:
  assumes "mono_ns t = Some a" and "mono_ns u = Some b" and "0 \<le> a" "a \<le> 2 ^ 62" "0 \<le> b" "b \<le> 2 ^ 62"
  shows "time_sub t u = a - b"
  using assms by (simp add: time_sub_def Let_def min_duration_def max_duration_def)

lemma dropWhile_drop: "\<exists>k. dropWhile P xs = drop k xs \<and> (\<forall>i < k. i < length xs \<longrightarrow> P (xs ! i))"
proof (intro exI conjI)
  show "dropWhile P xs = drop (length (takeWhile P xs)) xs" by (rule dropWhile_eq_drop)
  show "\<forall>i < length (takeWhile P xs). i < length xs \<longrightarrow> P (xs ! i)"
    by (metis nth_mem set_takeWhileD takeWhile_nth)
qed

lemma attempts_inv_later:
  assumes "attempts_inv log c attempts maxNew" and "c \<le> c'" and "c' \<le> 2 ^ 62"
  shows "attempts_inv log c' attempts maxNew"
  using assms unfolding attempts_inv_def readings_ok_def list_all_iff by fastforce

lemma attempts_inv_prune:
  assumes inv: "attempts_inv log c attempts maxNew" and m: "mono_ns now = Some c" and c: "0 \<le> c" "c \<le> 2 ^ 62"
  defines "p \<equiv> dropWhile (\<lambda>a. time_sub now a \<ge> minute) attempts"
  shows "attempts_inv log c p maxNew"
proof -
  obtain k where k: "attempts = drop k log" "\<forall>i < k. i < length log \<longrightarrow> c - mono_of (log ! i) \<ge> minute"
    using inv by (auto simp: attempts_inv_def)
  have ok: "readings_ok log c" using inv by (simp add: attempts_inv_def)
  have sub: "time_sub now t = c - mono_of t" if "t \<in> set log" for t
  proof -
    from ok that obtain b where "mono_ns t = Some b" "0 \<le> b" "b \<le> c" by (force simp: readings_ok_def list_all_iff)
    with m c show ?thesis by (simp add: time_sub_readings)
  qed
  obtain j where j: "p = drop j attempts" "\<forall>i < j. i < length attempts \<longrightarrow> time_sub now (attempts ! i) \<ge> minute"
    using dropWhile_drop [of "\<lambda>a. time_sub now a \<ge> minute" attempts] by (auto simp: p_def)
  have "c - mono_of (log ! i) \<ge> minute" if i: "i < j + k" "i < length log" for i
  proof (cases "i < k")
    case False
    then have "attempts ! (i - k) = log ! i" "i - k < j" "i - k < length attempts" using i by (auto simp: k(1))
    with j(2) sub [of "log ! i"] i(2) show ?thesis by (metis nth_mem)
  qed (use k(2) i(2) in simp)
  then show "attempts_inv log c p maxNew"
    using inv j(1) k(1) by (auto simp: attempts_inv_def intro!: exI [of _ "j + k"])
qed

lemma attempts_inv_append:
  assumes inv: "attempts_inv log c attempts maxNew" and m: "mono_ns now = Some c" and c: "0 \<le> c" "c \<le> 2 ^ 62"
    and room: "int (length attempts) < maxNew"
  shows "attempts_inv (log @ [now]) c (attempts @ [now]) maxNew"
proof -
  obtain k where k: "attempts = drop k log" "\<forall>i < k. i < length log \<longrightarrow> c - mono_of (log ! i) \<ge> minute"
    using inv by (auto simp: attempts_inv_def)
  define k' where "k' = min k (length log)"
  have k': "attempts = drop k' log" "k' \<le> length log" "\<forall>i < k'. c - mono_of (log ! i) \<ge> minute"
    using k(1) k(2) [rule_format] by (simp_all add: k'_def min_def)
  have old: "minute_before (log @ [now]) i = minute_before log i" if "i < length log" for i
    using that by (auto simp: minute_before_def nth_append intro!: filter_cong)
  have "[0..<Suc (length log)] = [0..<k'] @ [k'..<Suc (length log)]"
    using upt_add_eq_append [of 0 k' "Suc (length log) - k'"] k'(2) by (simp del: upt_Suc)
  then have "minute_before (log @ [now]) (length log)
      = filter (\<lambda>j. mono_of now - mono_of ((log @ [now]) ! j) < minute) ([0..<k'] @ [k'..<Suc (length log)])"
    by (simp add: minute_before_def del: upt_Suc)
  also have "filter (\<lambda>j. mono_of now - mono_of ((log @ [now]) ! j) < minute) [0..<k'] = []"
    using k'(2,3) m by (auto simp: filter_empty_conv nth_append)
  then have "length (filter (\<lambda>j. mono_of now - mono_of ((log @ [now]) ! j) < minute) ([0..<k'] @ [k'..<Suc (length log)]))
      \<le> Suc (length attempts)"
    using length_filter_le [of "\<lambda>j. mono_of now - mono_of ((log @ [now]) ! j) < minute" "[k'..<Suc (length log)]"] k'(1,2)
    by (simp add: Suc_diff_le)
  finally have "int (length (minute_before (log @ [now]) (length log))) \<le> maxNew" using room by simp
  moreover have "readings_ok (log @ [now]) c"
    using inv m c by (auto simp: attempts_inv_def readings_ok_def list_all_iff sorted_append)
  moreover have "attempts @ [now] = drop k' (log @ [now])" using k' by simp
  ultimately show ?thesis
    using inv old k'(2,3) unfolding attempts_inv_def
    by (auto simp: less_Suc_eq nth_append intro!: exI [of _ k'])
qed

abbreviation pruned :: "gotime \<Rightarrow> smart \<Rightarrow> gotime list" where
  "pruned now h \<equiv> dropWhile (\<lambda>a. time_sub now a \<ge> minute) (so_attempts h)"

lemma admit_attempts:
  "fst (admit_connection now c h) = None \<Longrightarrow> so_attempts (snd (admit_connection now c h)) = pruned now h"
  "fst (admit_connection now c h) \<noteq> None \<Longrightarrow> so_attempts (snd (admit_connection now c h)) = pruned now h @ [now]
     \<and> int (length (pruned now h)) < so_maxNew h"
  by (auto simp: admit_connection_def admitsLocked_def case_prod_beta frame_simps Let_def split: if_splits)
    (auto simp: prune_attempts_def)

lemma admit_flows:
  "length (so_flows (snd (admit_connection now c h))) =
     (if fst (admit_connection now c h) = None then length (so_flows h) else Suc (length (so_flows h)))"
  "fst (admit_connection now c h) \<noteq> None \<Longrightarrow> int (length (so_flows h)) < so_maxConcurrent h"
  by (auto simp: admit_connection_def admitsLocked_def case_prod_beta frame_simps Let_def split: if_splits)

lemma reserve_attempts:
  obtains "so_attempts (snd (reserveRelay l visited extra now h)) = so_attempts h" "fst (reserveRelay l visited extra now h) = None"
  | "so_attempts (snd (reserveRelay l visited extra now h)) = pruned now h"
      "\<not> (extra \<and> fst (reserveRelay l visited extra now h) \<noteq> None)"
  | "so_attempts (snd (reserveRelay l visited extra now h)) = pruned now h @ [now]" "int (length (pruned now h)) < so_maxNew h"
      "extra" "fst (reserveRelay l visited extra now h) \<noteq> None"
proof -
  obtain ok h1 where a: "admitsLeaseLocked l now h = (ok, h1)" by fastforce
  then have h1: "so_attempts h1 = so_attempts h" "so_maxNew h1 = so_maxNew h"
    using admitsLeaseLocked_frame [of l now h] by simp_all
  show thesis
  proof (cases "ok \<and> \<not> (extra \<and> int (length (pruned now h)) \<ge> so_maxNew h)")
    case True
    then show thesis using a h1 that(2,3)
      by (cases "find_relay now visited (prune_attempts now h1)"; cases extra)
        (auto simp: reserveRelay_def Let_def prune_attempts_def set_state_def)
  next
    case False
    then show thesis using a h1 that(1,2)
      by (cases ok) (auto simp: reserveRelay_def Let_def prune_attempts_def)
  qed
qed

lemma available_attempts:
  obtains "so_attempts (snd (availableForNewFlows now h)) = so_attempts h"
  | "so_attempts (snd (availableForNewFlows now h)) = pruned now h"
proof -
  have "so_attempts (snd (admitsLocked now h)) = so_attempts h" by (simp add: admitsLocked_def frame_simps)
  then have "so_attempts (snd (availableForNewFlows now h)) \<in> {so_attempts h, pruned now h}"
    by (auto simp: availableForNewFlows_def case_prod_beta Let_def prune_attempts_def)
  then show thesis using that by blast
qed

lemma locked_frame [frame_simps]:
  "so_attempts (snd (close_locked h)) = so_attempts h" "so_attempts (snd (revoke_locked t h)) = so_attempts h"
  "so_flows (snd (close_locked h)) = so_flows h" "so_flows (snd (revoke_locked t h)) = so_flows h"
  "so_maxNew (snd (close_locked h)) = so_maxNew h" "so_maxNew (snd (revoke_locked t h)) = so_maxNew h"
  "so_maxConcurrent (snd (close_locked h)) = so_maxConcurrent h"
  "so_maxConcurrent (snd (revoke_locked t h)) = so_maxConcurrent h"
  "so_relayStates (snd (close_locked h)) = so_relayStates h" "so_relayStates (snd (revoke_locked t h)) = so_relayStates h"
  "so_relays (snd (close_locked h)) = so_relays h" "so_relays (snd (revoke_locked t h)) = so_relays h"
  "so_policy (snd (close_locked h)) = so_policy h" "so_policy (snd (revoke_locked t h)) = so_policy h"
  "so_auth (snd (close_locked h)) = so_auth h" "so_auth (snd (revoke_locked t h)) = so_auth h"
  "so_lease (snd (close_locked h)) = so_lease h" "so_lease (snd (revoke_locked t h)) = so_lease h"
  "so_leases (snd (close_locked h)) = so_leases h" "so_leases (snd (revoke_locked t h)) = so_leases h"
  "so_next_lease (snd (close_locked h)) = so_next_lease h" "so_next_lease (snd (revoke_locked t h)) = so_next_lease h"
  "so_flow (snd (close_locked h)) = so_flow h" "so_flow (snd (revoke_locked t h)) = so_flow h"
  "so_next_flow (snd (close_locked h)) = so_next_flow h" "so_next_flow (snd (revoke_locked t h)) = so_next_flow h"
  by (simp_all add: close_locked_def revoke_locked_def)

lemma revokeLease_frame:
  assumes "revokeLease_locked i t h = Some (fs, h')"
  shows "so_attempts h' = so_attempts h \<and> so_flows h' = so_flows h \<and> so_maxNew h' = so_maxNew h
    \<and> so_maxConcurrent h' = so_maxConcurrent h \<and> so_relayStates h' = so_relayStates h \<and> so_lease h' = so_lease h
    \<and> so_leases h' = so_leases h \<and> so_next_lease h' = so_next_lease h \<and> so_flow h' = so_flow h
    \<and> so_next_flow h' = so_next_flow h \<and> so_closed h' = so_closed h \<and> so_revoked h' = so_revoked h
    \<and> so_terminateActive h' = so_terminateActive h \<and> so_relays h' = so_relays h \<and> so_policy h' = so_policy h"
  using assms by (auto simp: revokeLease_locked_def set_lease_def Let_def split: option.splits)

definition quota_inv :: "sa_system \<Rightarrow> bool" where
  "quota_inv s \<longleftrightarrow> attempts_inv (sm_log s) (sm_clock s) (so_attempts (sm s)) (so_maxNew (sm s))
     \<and> int (length (so_flows (sm s))) \<le> so_maxConcurrent (sm s)"

lemma at_time_sel [simp]:
  "sm (at_time now h s) = h" "sm_log (at_time now h s) = sm_log s" "sm_clock (at_time now h s) = mono_of now"
  "sm_born (at_time now h s) = sm_born s" "sm_closing (at_time now h s) = sm_closing s"
  "sm_marked (at_time now h s) = sm_marked s" "sm_reserved (at_time now h s) = sm_reserved s"
  "sm_completed (at_time now h s) = sm_completed s"
  by (simp_all add: at_time_def)

lemma tick_attempts:
  assumes "tick now s" and "attempts_inv (sm_log s) (sm_clock s) attempts maxNew"
  shows "attempts_inv (sm_log s) (mono_of now) attempts maxNew"
    and "attempts_inv (sm_log s) (mono_of now) (dropWhile (\<lambda>a. time_sub now a \<ge> minute) attempts) maxNew"
    and "int (length (dropWhile (\<lambda>a. time_sub now a \<ge> minute) attempts)) < maxNew \<Longrightarrow>
      attempts_inv (sm_log s @ [now]) (mono_of now) (dropWhile (\<lambda>a. time_sub now a \<ge> minute) attempts @ [now]) maxNew"
proof -
  obtain m where m: "mono_ns now = Some m" "sm_clock s \<le> m" "m \<le> 2 ^ 62"
    using assms(1) by (auto simp: tick_def clock_ok_def split: option.splits)
  have "0 \<le> sm_clock s" using assms(2) by (simp add: attempts_inv_def readings_ok_def)
  with m show now: "attempts_inv (sm_log s) (mono_of now) attempts maxNew"
    using attempts_inv_later [OF assms(2)] by simp
  then show p: "attempts_inv (sm_log s) (mono_of now) (dropWhile (\<lambda>a. time_sub now a \<ge> minute) attempts) maxNew"
    using attempts_inv_prune [of _ "mono_of now" attempts maxNew now] m \<open>0 \<le> sm_clock s\<close> by simp
  then show "int (length (dropWhile (\<lambda>a. time_sub now a \<ge> minute) attempts)) < maxNew \<Longrightarrow>
      attempts_inv (sm_log s @ [now]) (mono_of now) (dropWhile (\<lambda>a. time_sub now a \<ge> minute) attempts @ [now]) maxNew"
    using attempts_inv_append [OF p, of now] m \<open>0 \<le> sm_clock s\<close> by simp
qed

lemma quota_inv_step:
  assumes inv: "quota_inv s" and "sa_step s t"
  shows "quota_inv t"
  using assms(2)
proof cases
  case (admit now conn)
  note T = tick_attempts [OF admit(2), of "so_attempts (sm s)" "so_maxNew (sm s)"]
  show ?thesis using inv T admit_attempts [of now conn "sm s"] admit_flows [of now conn "sm s"]
    unfolding admit(1) quota_inv_def
    by (cases "fst (admit_connection now conn (sm s)) = None") (auto simp: frame_simps)
next
  case (available now)
  note T = tick_attempts [OF available(2), of "so_attempts (sm s)" "so_maxNew (sm s)"]
  show ?thesis using inv T unfolding available(1) quota_inv_def
    by (cases rule: available_attempts [of now "sm s"]) (auto simp: frame_simps)
next
  case (reserve now l visited extra)
  note T = tick_attempts [OF reserve(2), of "so_attempts (sm s)" "so_maxNew (sm s)"]
  show ?thesis using inv T unfolding reserve(1) quota_inv_def
    by (cases rule: reserve_attempts [of l visited extra now "sm s"]) (auto simp: frame_simps)
next
  case (unlist f)
  have flows: "so_flows (close_unlist f (sm s)) = removeAll f (so_flows (sm s))" by (simp add: close_unlist_def)
  show ?thesis using inv unfolding unlist(1) quota_inv_def
    by (simp add: frame_simps flows) (meson length_removeAll_less_eq of_nat_le_iff order_trans)
next
  case (revoke_lease i t fs h)
  with inv revokeLease_frame [OF revoke_lease(2)] show ?thesis unfolding quota_inv_def by simp
qed (use inv in \<open>auto simp: quota_inv_def frame_simps dest: tick_attempts(1)\<close>)

end
