(* ===== verification/Smart_Leases.thy ===== *)
theory Smart_Leases
  imports Smart_System
begin

text \<open>
  Leases of the Smart Access outbound over any history: their terms never change, their latches
  only close, and their deadlines stand on the monotonic clock of the moment they were accepted.
  On top of that: the quotas, the one-way end of admission, the lifetime bounds and renewal.
\<close>

section \<open>Leases only close\<close>

definition lease_le :: "sa_lease \<Rightarrow> sa_lease \<Rightarrow> bool" where
  "lease_le a b \<longleftrightarrow> sl_id b = sl_id a \<and> sl_issued b = sl_issued a \<and> sl_newUntil b = sl_newUntil a
     \<and> sl_activeUntil b = sl_activeUntil a \<and> sl_newDeadline b = sl_newDeadline a
     \<and> sl_activeDeadline b = sl_activeDeadline a
     \<and> (sl_admissionExpired a \<longrightarrow> sl_admissionExpired b) \<and> (sl_revoked a \<longrightarrow> sl_revoked b)
     \<and> (sl_terminateActive a \<longrightarrow> sl_terminateActive b) \<and> (sl_probeFailure a \<noteq> None \<longrightarrow> sl_probeFailure b \<noteq> None)"

definition leases_grow :: "smart \<Rightarrow> smart \<Rightarrow> bool" where
  "leases_grow h h' \<longleftrightarrow> so_next_lease h \<le> so_next_lease h' \<and> (so_closed h \<longrightarrow> so_closed h')
     \<and> (so_revoked h \<longrightarrow> so_revoked h') \<and> (so_terminateActive h \<longrightarrow> so_terminateActive h')
     \<and> (\<forall>l < so_next_lease h. lease_le (so_auth h l) (so_auth h' l))"

lemma lease_le_refl [simp]: "lease_le a a"
  by (simp add: lease_le_def)

lemma lease_le_trans: "lease_le a b \<Longrightarrow> lease_le b c \<Longrightarrow> lease_le a c"
  by (simp add: lease_le_def)

lemma leases_grow_refl [simp]: "leases_grow h h"
  by (simp add: leases_grow_def)

lemma leases_grow_trans: "leases_grow h h' \<Longrightarrow> leases_grow h' h'' \<Longrightarrow> leases_grow h h''"
  by (auto simp: leases_grow_def intro: lease_le_trans)

lemma leases_grow_same:
  "so_next_lease h' = so_next_lease h \<Longrightarrow> so_closed h' = so_closed h \<Longrightarrow> so_revoked h' = so_revoked h
   \<Longrightarrow> so_terminateActive h' = so_terminateActive h \<Longrightarrow> so_auth h' = so_auth h \<Longrightarrow> leases_grow h h'"
  by (simp add: leases_grow_def)

lemma leases_grow_admits [simp]: "leases_grow h (snd (admitsLeaseLocked l now h))"
  by (auto simp: leases_grow_def admitsLeaseLocked_def set_lease_def Let_def lease_le_def)

lemma admits_auth_of:
  "so_auth (snd (admit_connection now c h)) = so_auth (snd (admitsLocked now h))"
  "so_auth (snd (availableForNewFlows now h)) = so_auth (snd (admitsLocked now h))"
  "so_auth (snd (reserveRelay l visited extra now h)) = so_auth (snd (admitsLeaseLocked l now h))"
  "so_auth (snd (activate f now h)) = so_auth (snd (admitsLeaseLocked (sf_lease (so_flow h f)) now h))"
  by (simp_all add: admit_connection_def availableForNewFlows_def reserveRelay_def activate_def set_flow_def
      set_state_def case_prod_beta Let_def admitsLocked_def prune_attempts_frame split: option.splits)
    (auto simp: admitsLeaseLocked_def prune_attempts_def set_lease_def Let_def)

lemma leases_grow_if_auth:
  assumes "leases_grow h k" and "so_auth h' = so_auth k" and "so_next_lease h' = so_next_lease k"
    and "so_closed h' = so_closed k" and "so_revoked h' = so_revoked k" and "so_terminateActive h' = so_terminateActive k"
  shows "leases_grow h h'"
  using assms by (simp add: leases_grow_def)

lemma leases_grow_ops [simp]:
  "leases_grow h (snd (admit_connection now c h))" "leases_grow h (snd (availableForNewFlows now h))"
  "leases_grow h (snd (reserveRelay l visited extra now h))" "leases_grow h (snd (activate f now h))"
  by (rule leases_grow_if_auth [OF leases_grow_admits admits_auth_of(1) [unfolded admitsLocked_def]]
      leases_grow_if_auth [OF leases_grow_admits admits_auth_of(2) [unfolded admitsLocked_def]]
      leases_grow_if_auth [OF leases_grow_admits admits_auth_of(3)]
      leases_grow_if_auth [OF leases_grow_admits admits_auth_of(4)]; simp add: frame_simps)+

lemma leases_grow_probe [simp]: "leases_grow h (recordProbeFailure l stage now h)"
proof -
  have "leases_grow h' (set_lease l ((so_auth h' l)\<lparr>sl_probeFailure := Some stage\<rparr>) h')" for h'
    by (simp add: leases_grow_def set_lease_def lease_le_def)
  then show ?thesis unfolding recordProbeFailure_def case_prod_beta
    by (auto intro: leases_grow_trans [OF leases_grow_admits])
qed

lemma leases_grow_renew [simp]: "leases_grow h (snd (RenewLease i j d1 d2 d3 now1 now2 retain now3 h))"
  by (auto simp: RenewLease_def Let_def leases_grow_def split: sum.splits)

lemma leases_grow_revokeLease: "revokeLease_locked i t h = Some (fs, h') \<Longrightarrow> leases_grow h h'"
  by (auto simp: revokeLease_locked_def Let_def leases_grow_def set_lease_def lease_le_def split: option.splits)

lemma leases_grow_locked [simp]: "leases_grow h (snd (close_locked h))" "leases_grow h (snd (revoke_locked t h))"
  by (simp_all add: close_locked_def revoke_locked_def leases_grow_def)

lemma sa_step_grows: "sa_step s t \<Longrightarrow> leases_grow (sm s) (sm t)"
  by (erule sa_stepE) (auto simp: frame_simps intro: leases_grow_revokeLease leases_grow_same)

lemma sa_steps_grow: "sa_step\<^sup>*\<^sup>* s t \<Longrightarrow> leases_grow (sm s) (sm t)"
  by (induction rule: rtranclp_induct) (auto intro: leases_grow_trans sa_step_grows)

section \<open>Dates\<close>

text \<open>Years in which an instant with a monotonic reading can be stored.\<close>

definition lease_packed :: "sa_lease \<Rightarrow> bool" where
  "lease_packed lease \<longleftrightarrow> packed_wall (wall (sl_issued lease)) \<and> packed_wall (wall (sl_activeUntil lease))"

definition lease_dates :: "gotime \<Rightarrow> sa_lease \<Rightarrow> bool" where
  "lease_dates now lease \<longleftrightarrow>
     (\<exists>m d a. mono_ns now = Some m \<and> mono_ns (sl_newDeadline lease) = Some (m + d)
        \<and> mono_ns (sl_activeDeadline lease) = Some (m + a) \<and> d \<le> 10 * minute \<and> a \<le> hour)"

lemma newLeaseAuthorizationE:
  assumes "newLeaseAuthorization lid d1 d2 d3 now = Inr lease"
  obtains "canonical_time d1 = Some (sl_issued lease)" "canonical_time d2 = Some (sl_newUntil lease)"
    "canonical_time d3 = Some (sl_activeUntil lease)" "sl_id lease = lid" "leaseIDPattern lid"
    "time_after (sl_newUntil lease) (sl_issued lease)" "\<not> time_before (sl_activeUntil lease) (sl_newUntil lease)"
    "time_sub (sl_newUntil lease) (sl_issued lease) \<le> 10 * minute" "time_sub (sl_activeUntil lease) (sl_issued lease) \<le> hour"
    "\<not> time_before now (sl_issued lease)" "sl_newDeadline lease = monotonic_deadline now (sl_newUntil lease)"
    "sl_activeDeadline lease = monotonic_deadline now (sl_activeUntil lease)"
    "sl_admissionExpired lease \<longleftrightarrow> \<not> time_before now (sl_newUntil lease)"
    "sl_probeFailure lease = None" "\<not> sl_revoked lease" "\<not> sl_terminateActive lease"
  using assms unfolding newLeaseAuthorization_def
  by (auto simp: not_less guard_simps split: option.splits if_splits)

lemma packed_wall_range: "packed_wall a \<Longrightarrow> - 2682288000 * second \<le> a \<and> a < (2 ^ 33 - 2682288000) * second"
  by (auto simp: packed_wall_def Let_def second_def)

lemma newLeaseAuthorization_dates:
  assumes new: "newLeaseAuthorization lid d1 d2 d3 now = Inr lease" and "clock_ok now" and "lease_packed lease"
  shows "lease_dates now lease"
  using new
proof (rule newLeaseAuthorizationE)
  obtain m where m: "mono_ns now = Some m" "0 \<le> m" "m \<le> 2 ^ 62" "packed_wall (wall now)"
    using assms(2) by (auto simp: clock_ok_def split: option.splits)
  assume d: "canonical_time d1 = Some (sl_issued lease)" "canonical_time d2 = Some (sl_newUntil lease)"
      "canonical_time d3 = Some (sl_activeUntil lease)"
    and order: "time_after (sl_newUntil lease) (sl_issued lease)" "\<not> time_before (sl_activeUntil lease) (sl_newUntil lease)"
      "\<not> time_before now (sl_issued lease)"
    and bound: "time_sub (sl_newUntil lease) (sl_issued lease) \<le> 10 * minute"
      "time_sub (sl_activeUntil lease) (sl_issued lease) \<le> hour"
    and dl: "sl_newDeadline lease = monotonic_deadline now (sl_newUntil lease)"
      "sl_activeDeadline lease = monotonic_deadline now (sl_activeUntil lease)"
  note none = d [THEN canonical_time_wall]
  have ord: "wall (sl_issued lease) \<le> wall now" "wall (sl_issued lease) \<le> wall (sl_newUntil lease)"
    "wall (sl_newUntil lease) \<le> wall (sl_activeUntil lease)"
    using order none by (simp_all add: time_after_def clock_simps)
  have span: "wall (sl_newUntil lease) - wall (sl_issued lease) \<le> 10 * minute"
    "wall (sl_activeUntil lease) - wall (sl_issued lease) \<le> hour"
    using bound none
    by (auto simp: time_sub_def Let_def min_def max_def max_duration_def minute_def hour_def second_def split: if_splits)
  have p: "packed_wall (wall (sl_activeUntil lease))" "packed_wall (wall (sl_newUntil lease))"
    using assms(3) ord packed_wall_between [of "wall (sl_issued lease)" "wall (sl_activeUntil lease)"]
    by (simp_all add: lease_packed_def)
  have "mono_ns (monotonic_deadline now u) = Some (m + (wall u - wall now))"
    if "mono_ns u = None" "packed_wall (wall u)" "wall u - wall now \<le> hour" for u
    using packed_wall_range [OF that(2)] packed_wall_range [OF m(4)] that(3) m
    by (subst monotonic_deadline_mono [OF m(1) that(1)])
      (auto simp: that min_duration_def max_duration_def second_def hour_def minute_def)
  then show ?thesis unfolding lease_dates_def
    using m(1) none p ord span dl by (auto simp: hour_def minute_def second_def)
qed

section \<open>Renewal\<close>

lemma RenewLease_cases:
  obtains "so_auth (snd (RenewLease i j d1 d2 d3 now1 now2 retain now3 h)) = so_auth h"
      "so_lease (snd (RenewLease i j d1 d2 d3 now1 now2 retain now3 h)) = so_lease h"
      "so_next_lease (snd (RenewLease i j d1 d2 d3 now1 now2 retain now3 h)) = so_next_lease h"
  | lease where "newLeaseAuthorization j d1 d2 d3 now1 = Inr lease"
      "so_auth (snd (RenewLease i j d1 d2 d3 now1 now2 retain now3 h)) = (so_auth h)(so_next_lease h := lease)"
      "so_lease (snd (RenewLease i j d1 d2 d3 now1 now2 retain now3 h)) = so_next_lease h"
      "so_next_lease (snd (RenewLease i j d1 d2 d3 now1 now2 retain now3 h)) = so_next_lease h + 1"
      "fst (RenewLease i j d1 d2 d3 now1 now2 retain now3 h) = (True, None)"
      "\<not> so_closed h" "\<not> so_revoked h" "\<not> sl_revoked (so_auth h (so_lease h))" "\<not> sl_admissionExpired lease"
      "LeaseID h = i" "j \<noteq> i" "\<not> time_before (sl_issued lease) (sl_issued (so_auth h (so_lease h)))"
      "time_after (sl_newUntil lease) (sl_newUntil (so_auth h (so_lease h)))" "retain (sl_activeUntil lease)"
      "\<not> time_before now3 (sl_issued lease)" "time_before now3 (sl_newUntil lease)" "time_before now3 (sl_newDeadline lease)"
proof (cases "so_lease (snd (RenewLease i j d1 d2 d3 now1 now2 retain now3 h)) = so_lease h
    \<and> so_next_lease (snd (RenewLease i j d1 d2 d3 now1 now2 retain now3 h)) = so_next_lease h
    \<and> so_auth (snd (RenewLease i j d1 d2 d3 now1 now2 retain now3 h)) = so_auth h")
  case True
  then show ?thesis using that(1) by blast
next
  case False
  then obtain lease where n: "newLeaseAuthorization j d1 d2 d3 now1 = Inr lease"
    by (cases "newLeaseAuthorization j d1 d2 d3 now1") (auto simp: RenewLease_def split: if_splits)
  show ?thesis by (rule that(2) [OF n])
    (use False n in \<open>auto simp: RenewLease_def LeaseID_def Let_def split: if_splits\<close>)
qed

lemma RenewLease_leases:
  assumes "map_of (so_leases h) i = Some r"
  shows "map_of (so_leases (snd (RenewLease i j d1 d2 d3 now1 now2 retain now3 h))) i = Some r"
proof -
  have f: "map_of (filter (\<lambda>(k, r). k = i \<or> P r) xs) i = map_of xs i" for P xs
    by (induction xs) auto
  show ?thesis using assms by (auto simp: RenewLease_def Let_def f split: sum.splits)
qed

lemma RenewLease_error:
  assumes "\<not> fst (fst (RenewLease i j d1 d2 d3 now1 now2 retain now3 h))"
  shows "so_auth (snd (RenewLease i j d1 d2 d3 now1 now2 retain now3 h)) = so_auth h"
    and "so_lease (snd (RenewLease i j d1 d2 d3 now1 now2 retain now3 h)) = so_lease h"
  using assms by (cases rule: RenewLease_cases [of i j d1 d2 d3 now1 now2 retain now3 h]; simp)+

text \<open>The leases that flows and the table refer to exist.\<close>

definition refs_ok :: "smart \<Rightarrow> bool" where
  "refs_ok h \<longleftrightarrow> so_lease h < so_next_lease h \<and> (\<forall>f < so_next_flow h. sf_lease (so_flow h f) < so_next_lease h)"


lemma check_relays_longer: "check_relays rs vs = Some relays \<Longrightarrow> length relays = length rs + length vs"
  by (induction rs vs rule: check_relays.induct) (auto split: option.splits if_splits)

lemma check_relays_none [simp]: "check_relays [] vs = Some [] \<longleftrightarrow> vs = []"
  using check_relays_longer [of "[]" vs "[]"] by auto

lemma NewOutbound_start:
  assumes "NewOutbound uni dialer manager tag options now = Inr h"
  shows "so_maxNew h = op_MaxNew options \<and> so_maxConcurrent h = op_MaxConcurrent options \<and> so_attempts h = []
    \<and> so_flows h = [] \<and> so_next_flow h = 0 \<and> so_lease h = 0 \<and> so_next_lease h = 1
    \<and> op_MaxConcurrent options \<ge> 1 \<and> so_relayStates h = replicate (length (so_relays h)) new_relay_state
    \<and> newLeaseAuthorization (op_LeaseID options) (op_IssuedAt options) (op_NewFlowsUntil options)
        (op_ActiveFlowsUntil options) now = Inr (so_auth h 0)
    \<and> \<not> so_closed h \<and> \<not> so_revoked h \<and> \<not> so_terminateActive h \<and> so_shut h = {}
    \<and> so_leases h = [(LeaseID h, 0)] \<and> so_policy h = op_RelayConnectPolicy options
    \<and> so_domains h = op_Domains options \<and> so_relays h \<noteq> []"
  using assms unfolding NewOutbound_def
  by (auto simp: guard_simps LeaseID_def split: option.splits)

section \<open>A loaded outbound\<close>

definition demo_policy :: relay_policy where
  "demo_policy = \<lparr>rp_FailureThreshold = 2, rp_FailureWindowMS = 1000, rp_CooldownMS = 2000,
     rp_ConnectTimeoutMS = 300, rp_TotalTimeoutMS = 900, rp_MaxAttempts = 2\<rparr>"

definition demo_smart_options :: sa_options where
  "demo_smart_options = \<lparr>op_LeaseID = replicate 32 (CHR ''a''), op_IssuedAt = ''2026-01-01T00:00:00Z'',
     op_NewFlowsUntil = ''2026-01-01T00:05:00Z'', op_ActiveFlowsUntil = ''2026-01-01T00:30:00Z'',
     op_RelayAddresses = [''8.8.8.8'', ''9.9.9.9''], op_RelayConnectPolicy = Some demo_policy,
     op_ExternalECHOuterSNI = False, op_Domains = [\<lparr>dm_Name = ''example.org'', dm_Match = ''suffix''\<rparr>],
     op_MaxNew = 2, op_MaxConcurrent = 3, op_Detour = []\<rparr>"

text \<open>Loaded one minute after the lease was issued.\<close>

definition demo_load :: gotime where
  "demo_load = \<lparr>wall = 1767225660 * second, mono_ns = Some (7 * second)\<rparr>"

definition demo_smart :: smart where
  "demo_smart = projr (NewOutbound (\<lambda>s. s) True True ''smart'' demo_smart_options demo_load)"

definition demo_world :: sa_system where
  "demo_world = \<lparr>sm = demo_smart, sm_log = [], sm_born = (\<lambda>_. demo_load), sm_closing = {}, sm_marked = {},
     sm_reserved = [], sm_completed = 0, sm_clock = 7 * second\<rparr>"

definition demo_first :: sa_lease where
  "demo_first = \<lparr>sl_id = replicate 32 (CHR ''a''), sl_issued = wall_time 1767225600000000000,
     sl_newUntil = wall_time 1767225900000000000, sl_activeUntil = wall_time 1767227400000000000,
     sl_newDeadline = \<lparr>wall = 1767225900000000000, mono_ns = Some 247000000000\<rparr>,
     sl_activeDeadline = \<lparr>wall = 1767227400000000000, mono_ns = Some 1747000000000\<rparr>,
     sl_admissionExpired = False, sl_probeFailure = None, sl_revoked = False, sl_terminateActive = False\<rparr>"

lemma demo_first_ok:
  "newLeaseAuthorization (replicate 32 (CHR ''a'')) ''2026-01-01T00:00:00Z'' ''2026-01-01T00:05:00Z''
     ''2026-01-01T00:30:00Z'' demo_load = Inr demo_first"
  by code_simp

lemma demo_smart_ok: "NewOutbound (\<lambda>s. s) True True ''smart'' demo_smart_options demo_load = Inr demo_smart"
proof -
  have "check_relays [] [''8.8.8.8'', ''9.9.9.9''] \<noteq> None" by code_simp
  moreover have "validRelayConnectPolicy (Some demo_policy)"
    "check_domains (\<lambda>s. s) False [] [\<lparr>dm_Name = ''example.org'', dm_Match = ''suffix''\<rparr>]" by code_simp+
  ultimately have "\<exists>h. NewOutbound (\<lambda>s. s) True True ''smart'' demo_smart_options demo_load = Inr h"
    unfolding NewOutbound_def demo_smart_options_def sa_options.simps demo_first_ok by auto
  then show ?thesis unfolding demo_smart_def by auto
qed

lemma demo_load_ok: "clock_ok demo_load"
  by code_simp

lemma demo_smart_init: "sa_init (\<lambda>s. s) ''smart'' demo_smart_options demo_load demo_world"
  using demo_smart_ok demo_load_ok by (simp add: sa_init_def demo_world_def demo_load_def)

lemma demo_smart_reachable: "reachable (sa_init (\<lambda>s. s) ''smart'' demo_smart_options demo_load) sa_step demo_world"
  by (rule reachable.start) (rule demo_smart_init)

lemma demo_smart_leases:
  "so_leases demo_smart = [(replicate 32 (CHR ''a''), 0)]" "so_next_lease demo_smart = 1" "so_lease demo_smart = 0"
  "so_next_flow demo_smart = 0" "so_auth demo_smart 0 = demo_first" "so_flows demo_smart = []" "so_attempts demo_smart = []"
  "\<not> so_closed demo_smart" "\<not> so_revoked demo_smart" "so_maxNew demo_smart = 2" "so_maxConcurrent demo_smart = 3"
  "so_domains demo_smart = [\<lparr>dm_Name = ''example.org'', dm_Match = ''suffix''\<rparr>]" "so_policy demo_smart = Some demo_policy"
  using NewOutbound_start [OF demo_smart_ok] demo_first_ok
  by (auto simp: LeaseID_def demo_smart_options_def elim: newLeaseAuthorizationE)

definition demo_renewal :: gotime where
  "demo_renewal = \<lparr>wall = 1767225780 * second, mono_ns = Some (127 * second)\<rparr>"

definition demo_renewed :: "(bool \<times> sa_error option) \<times> smart" where
  "demo_renewed = RenewLease (replicate 32 (CHR ''a'')) (replicate 32 (CHR ''b'')) ''2026-01-01T00:02:00Z''
      ''2026-01-01T00:07:00Z'' ''2026-01-01T00:30:00Z'' demo_renewal demo_renewal (\<lambda>_. True) demo_renewal demo_smart"


section \<open>Quotas\<close>

lemma sa_step_limits:
  "sa_step s t \<Longrightarrow> so_maxNew (sm t) = so_maxNew (sm s) \<and> so_maxConcurrent (sm t) = so_maxConcurrent (sm s)"
  by (erule sa_stepE) (auto simp: frame_simps dest: revokeLease_frame)

interpretation smart_quota: invariant_system "sa_init uni tag options now" sa_step
  "\<lambda>s. quota_inv s \<and> so_maxNew (sm s) = op_MaxNew options \<and> so_maxConcurrent (sm s) = op_MaxConcurrent options"
  for uni tag options now
proof
  fix s assume "sa_init uni tag options now s"
  then show "quota_inv s \<and> so_maxNew (sm s) = op_MaxNew options \<and> so_maxConcurrent (sm s) = op_MaxConcurrent options"
    by (auto simp: sa_init_def quota_inv_def attempts_inv_def readings_ok_def clock_ok_def
        dest!: NewOutbound_start split: option.splits)
qed (auto dest: quota_inv_step sa_step_limits)


text \<open>The loaded outbound after it admitted a first connection.\<close>

definition demo_admitted :: sa_system where
  "demo_admitted = (at_time demo_load (snd (admit_connection demo_load 5 demo_smart)) demo_world)\<lparr>sm_log := [demo_load]\<rparr>"

lemma demo_admits: "fst (admit_connection demo_load 5 demo_smart) = Some 0"
  by (simp add: admit_connection_def admitsLocked_def admitsLeaseLocked_def prune_attempts_def demo_smart_leases
      set_lease_def Let_def) (simp add: demo_first_def demo_load_def clock_simps second_def)

lemma demo_admitted_reachable:
  "reachable (sa_init (\<lambda>s. s) ''smart'' demo_smart_options demo_load) sa_step demo_admitted"
proof -
  have "tick demo_load demo_world" using demo_load_ok by (simp add: tick_def demo_world_def demo_load_def)
  then have "sa_step demo_world demo_admitted"
    using sa_step.admit [of demo_load demo_world 5] demo_admits by (simp add: demo_admitted_def demo_world_def)
  then show ?thesis by (rule reachable.next_step [OF demo_smart_reachable])
qed


section \<open>Admission ends once\<close>

definition lease_shut :: "ref \<Rightarrow> smart \<Rightarrow> bool" where
  "lease_shut l h \<longleftrightarrow> l < so_next_lease h \<and> (so_closed h \<or> so_revoked h \<or> sl_revoked (so_auth h l)
     \<or> sl_admissionExpired (so_auth h l) \<or> sl_probeFailure (so_auth h l) \<noteq> None)"

lemma lease_shut_grows: "leases_grow h h' \<Longrightarrow> lease_shut l h \<Longrightarrow> lease_shut l h'"
  by (auto simp: lease_shut_def leases_grow_def lease_le_def)

interpretation smart_gate: terminal_gate sa_step "\<lambda>s. lease_shut l (sm s)"
  "\<lambda>s now. fst (admitsLeaseLocked l now (sm s))" for l
proof
  fix s t assume "lease_shut l (sm s)" and "sa_step s t"
  then show "lease_shut l (sm t)" by (blast intro: lease_shut_grows sa_step_grows)
qed (auto simp: lease_shut_def admitsLeaseLocked_def Let_def)

lemma denial_shuts:
  "l < so_next_lease h \<Longrightarrow> \<not> fst (admitsLeaseLocked l now h) \<Longrightarrow> lease_shut l (snd (admitsLeaseLocked l now h))"
  by (auto simp: lease_shut_def admitsLeaseLocked_def set_lease_def Let_def split: if_splits)

text \<open>
  C12. Once a lease has been refused it is refused for good: after one check that denies it, for
  whatever reason, no later check admits it, in any history and even if the wall clock is set back
  into the admission window.
\<close>

theorem admission_ends_once:
  assumes "l < so_next_lease (sm s)" and "\<not> fst (admitsLeaseLocked l now (sm s))"
    and "sa_step\<^sup>*\<^sup>* (at_time now (snd (admitsLeaseLocked l now (sm s))) s) t"
  shows "\<not> fst (admitsLeaseLocked l later (sm t))"
  using smart_gate.never_admits_again [OF assms(3)] denial_shuts [OF assms(1,2)] by simp

theorem admission_ends_once_witness:
  "\<not> fst (admitsLeaseLocked 0 demo_load (snd (admitsLeaseLocked 0 \<lparr>wall = 0, mono_ns = Some (8 * second)\<rparr> demo_smart)))"
proof -
  have "\<not> fst (admitsLeaseLocked 0 \<lparr>wall = 0, mono_ns = Some (8 * second)\<rparr> demo_smart)"
    by (simp add: admitsLeaseLocked_def demo_smart_leases demo_first_def clock_simps)
  then show ?thesis
    using admission_ends_once [of 0 demo_world "\<lparr>wall = 0, mono_ns = Some (8 * second)\<rparr>" _ demo_load,
        OF _ _ rtranclp.rtrancl_refl]
    by (simp add: demo_world_def demo_smart_leases)
qed

section \<open>Lifetimes\<close>

definition born_inv :: "sa_system \<Rightarrow> bool" where
  "born_inv s \<longleftrightarrow> (\<forall>l < so_next_lease (sm s). lease_packed (so_auth (sm s) l) \<longrightarrow> lease_dates (sm_born s l) (so_auth (sm s) l))"

lemma lease_le_dates: "lease_le a b \<Longrightarrow> lease_packed b = lease_packed a \<and> lease_dates now b = lease_dates now a"
  by (simp add: lease_le_def lease_packed_def lease_dates_def)

lemma born_inv_grows:
  assumes "born_inv s" and "leases_grow (sm s) (sm t)" and "so_next_lease (sm t) = so_next_lease (sm s)"
    and "sm_born t = sm_born s"
  shows "born_inv t"
  using assms lease_le_dates unfolding born_inv_def leases_grow_def by metis

lemma sa_step_leases:
  assumes "sa_step s t"
  obtains "so_next_lease (sm t) = so_next_lease (sm s)" "so_lease (sm t) = so_lease (sm s)" "sm_born t = sm_born s"
  | now1 i j d1 d2 d3 now2 retain now3 where "tick now1 s"
    "t = (at_time now1 (snd (RenewLease i j d1 d2 d3 now1 now2 retain now3 (sm s))) s)
       \<lparr>sm_born := (sm_born s)(so_next_lease (sm s) := now1)\<rparr>"
  using assms
proof cases
  case (renew now1 i j d1 d2 d3 now2 retain now3)
  from renew(2,1) show thesis by (rule that(2))
next
  case (revoke_lease i b fs h)
  with revokeLease_frame [OF revoke_lease(2)] show thesis by (intro that(1)) simp_all
qed (rule that(1); simp add: frame_simps)+

lemma born_inv_step:
  assumes "born_inv s" and step: "sa_step s t"
  shows "born_inv t"
  using step
proof (cases rule: sa_step_leases)
  case 1
  then show ?thesis using born_inv_grows [OF assms(1) sa_step_grows [OF step]] by blast
next
  case (2 now1 i j d1 d2 d3 now2 retain now3)
  have clock: "clock_ok now1" using 2(1) by (simp add: tick_def)
  show ?thesis
  proof (cases rule: RenewLease_cases [of i j d1 d2 d3 now1 now2 retain now3 "sm s"])
    case 1
    then show ?thesis using assms(1) by (simp add: 2(2) born_inv_def)
  next
    case (2 lease)
    then show ?thesis using assms(1) newLeaseAuthorization_dates [OF 2(1) clock]
      by (simp add: \<open>t = _\<close> born_inv_def less_Suc_eq)
  qed
qed

interpretation smart_dates: invariant_system "sa_init uni tag options now" sa_step born_inv for uni tag options now
proof
  fix s assume "sa_init uni tag options now s"
  then show "born_inv s"
    by (auto simp: sa_init_def born_inv_def dest!: NewOutbound_start intro: newLeaseAuthorization_dates)
qed (rule born_inv_step)

text \<open>
  C8. A lease bounds real time: in every history, whichever leases were loaded and renewed and
  however the wall clock is set, a lease admits a connection only within ten minutes, and a flow
  under it passes data only within one hour, of the moment that lease was accepted, measured on the
  monotonic clock. A renewal does not extend what was admitted before it. (The lease lies within the
  years 1885 to 2157, where clock readings carry a monotonic part.)
\<close>

theorem smart_lifetime:
  assumes "reachable (sa_init uni tag options now0) sa_step s"
    and "l < so_next_lease (sm s)" and "lease_packed (so_auth (sm s) l)"
    and "mono_ns (sm_born s l) = Some m0" and "mono_ns now = Some m"
  shows "(fst (admitsLeaseLocked l now (sm s)) \<longrightarrow> m < m0 + 10 * minute)
    \<and> (sf_lease (so_flow (sm s) f) = l \<and> fst (current f now (sm s)) \<longrightarrow> m < m0 + hour)"
proof -
  have "lease_dates (sm_born s l) (so_auth (sm s) l)"
    using smart_dates.inv_reachable [OF assms(1)] assms(2,3) by (simp add: born_inv_def)
  then obtain d a where "mono_ns (sl_newDeadline (so_auth (sm s) l)) = Some (m0 + d)" "d \<le> 10 * minute"
    "mono_ns (sl_activeDeadline (so_auth (sm s) l)) = Some (m0 + a)" "a \<le> hour"
    using assms(4) by (auto simp: lease_dates_def)
  then show ?thesis using assms(5)
    by (auto simp: admitsLeaseLocked_def current_def Let_def time_before_mono split: if_splits)
qed

lemma admit_result:
  assumes "fst (admit_connection now c h) = Some f"
  shows "f = so_next_flow h" and "so_next_flow (snd (admit_connection now c h)) = Suc (so_next_flow h)"
    and "so_flows (snd (admit_connection now c h)) = f # so_flows h"
    and "so_flow (snd (admit_connection now c h)) =
      (so_flow h)(f := new_sa_flow\<lparr>sf_lease := so_lease h, sf_conn := c, sf_timer := True\<rparr>)"
    and "fst (admitsLocked now h)"
  using assms
  by (auto simp: admit_connection_def admitsLocked_def case_prod_beta frame_simps Let_def split: if_splits)
    (simp add: admitsLeaseLocked_def prune_attempts_def Let_def)

theorem smart_lifetime_witness:
  "\<not> fst (current 0 \<lparr>wall = 0, mono_ns = Some (7 * second + hour)\<rparr> (sm demo_admitted))"
proof -
  have h: "sm demo_admitted = snd (admit_connection demo_load 5 demo_smart)" by (simp add: demo_admitted_def)
  have "lease_packed (so_auth demo_smart 0)" unfolding demo_smart_leases by code_simp
  then have "lease_packed (so_auth (sm demo_admitted) 0)"
    using lease_le_dates leases_grow_ops(1) [of demo_smart demo_load 5]
    by (auto simp: h leases_grow_def demo_smart_leases)
  moreover have "sf_lease (so_flow (sm demo_admitted) 0) = 0" "so_next_lease (sm demo_admitted) = 1"
    using admit_result(4) [OF demo_admits] by (simp_all add: h demo_smart_leases admit_connection_frame)
  ultimately show ?thesis
    using smart_lifetime [OF demo_admitted_reachable, of 0 "7 * second" "\<lparr>wall = 0, mono_ns = Some (7 * second + hour)\<rparr>"
        "7 * second + hour" 0] by (auto simp: demo_admitted_def demo_world_def demo_load_def)
qed

end
