(* ===== verification/Smart_Flows.thy ===== *)
theory Smart_Flows
  imports Smart_Leases
begin

text \<open>
  Flows and relays of the Smart Access outbound over any history: the registry holds exactly the
  open flows, a revocation leaves nothing behind, the breaker has at most one probe per relay
  and never gets stuck, and a connection that is refused is closed.
\<close>

section \<open>The registry of flows\<close>

definition open_flow :: "smart \<Rightarrow> ref \<Rightarrow> bool" where
  "open_flow h f \<longleftrightarrow> f < so_next_flow h \<and> \<not> sf_closed (so_flow h f)"

definition lease_draining :: "smart \<Rightarrow> ref \<Rightarrow> bool" where
  "lease_draining h l \<longleftrightarrow> so_closed h \<or> so_revoked h \<or> sl_revoked (so_auth h l)"

definition lease_ending :: "smart \<Rightarrow> ref \<Rightarrow> bool" where
  "lease_ending h l \<longleftrightarrow> so_terminateActive h \<or> sl_terminateActive (so_auth h l)"

text \<open>What a flow may still be when no revocation has it on its list.\<close>

definition flow_settled :: "smart \<Rightarrow> ref \<Rightarrow> bool" where
  "flow_settled h f \<longleftrightarrow> \<not> lease_ending h (sf_lease (so_flow h f))
     \<and> (lease_draining h (sf_lease (so_flow h f)) \<longrightarrow> sf_active (so_flow h f))"

definition flow_inv :: "sa_system \<Rightarrow> bool" where
  "flow_inv s \<longleftrightarrow> refs_ok (sm s)
     \<and> set (so_flows (sm s)) = Collect (open_flow (sm s)) \<union> sm_marked s
     \<and> (\<forall>f \<in> sm_marked s. f < so_next_flow (sm s) \<and> sf_closed (so_flow (sm s) f))
     \<and> (\<forall>l < so_next_lease (sm s). lease_ending (sm s) l \<longrightarrow> lease_draining (sm s) l)
     \<and> (\<forall>f. open_flow (sm s) f \<longrightarrow> f \<in> sm_closing s \<or> flow_settled (sm s) f)"

text \<open>Steps that keep the flows and change at most latches of leases that end admission.\<close>

lemma flow_inv_same:
  assumes "flow_inv s" and "so_flows (sm t) = so_flows (sm s)" and "so_flow (sm t) = so_flow (sm s)"
    and "so_next_flow (sm t) = so_next_flow (sm s)" and "sm_closing t = sm_closing s" and "sm_marked t = sm_marked s"
    and "so_lease (sm t) = so_lease (sm s)" and "so_next_lease (sm t) = so_next_lease (sm s)"
    and "\<And>l. lease_draining (sm t) l = lease_draining (sm s) l" "\<And>l. lease_ending (sm t) l = lease_ending (sm s) l"
  shows "flow_inv t"
proof -
  have "open_flow (sm t) = open_flow (sm s)" "flow_settled (sm t) = flow_settled (sm s)"
    using assms by (simp_all add: open_flow_def flow_settled_def fun_eq_iff)
  then show ?thesis using assms by (simp add: flow_inv_def refs_ok_def)
qed

lemma admits_ends [simp]:
  "lease_draining (snd (admitsLeaseLocked l now h)) k = lease_draining h k"
  "lease_ending (snd (admitsLeaseLocked l now h)) k = lease_ending h k"
  by (simp_all add: lease_draining_def lease_ending_def admitsLeaseLocked_def set_lease_def Let_def)

lemma ends_cong:
  "so_closed h' = so_closed h \<Longrightarrow> so_revoked h' = so_revoked h \<Longrightarrow> so_auth h' = so_auth h
     \<Longrightarrow> lease_draining h' l = lease_draining h l"
  "so_terminateActive h' = so_terminateActive h \<Longrightarrow> so_auth h' = so_auth h \<Longrightarrow> lease_ending h' l = lease_ending h l"
  by (simp_all add: lease_draining_def lease_ending_def)

lemma ops_end [simp]:
  "lease_draining (snd (admit_connection now c h)) k = lease_draining h k"
  "lease_ending (snd (admit_connection now c h)) k = lease_ending h k"
  "lease_draining (snd (availableForNewFlows now h)) k = lease_draining h k"
  "lease_ending (snd (availableForNewFlows now h)) k = lease_ending h k"
  "lease_draining (snd (reserveRelay l visited extra now h)) k = lease_draining h k"
  "lease_ending (snd (reserveRelay l visited extra now h)) k = lease_ending h k"
  "lease_draining (snd (activate f now h)) k = lease_draining h k"
  "lease_ending (snd (activate f now h)) k = lease_ending h k"
  by (simp_all add: lease_draining_def lease_ending_def admits_auth_of admitsLocked_def frame_simps)
    (simp_all add: admitsLeaseLocked_def set_lease_def Let_def)

lemma probe_ends [simp]:
  "lease_draining (recordProbeFailure l stage now h) k = lease_draining h k"
  "lease_ending (recordProbeFailure l stage now h) k = lease_ending h k"
proof -
  have "lease_draining (set_lease l ((so_auth h' l)\<lparr>sl_probeFailure := x\<rparr>) h') k = lease_draining h' k"
    "lease_ending (set_lease l ((so_auth h' l)\<lparr>sl_probeFailure := x\<rparr>) h') k = lease_ending h' k" for h' x
    by (simp_all add: lease_draining_def lease_ending_def set_lease_def)
  then show "lease_draining (recordProbeFailure l stage now h) k = lease_draining h k"
    "lease_ending (recordProbeFailure l stage now h) k = lease_ending h k"
    by (simp_all add: recordProbeFailure_def case_prod_beta)
qed

lemma flow_inv_admit:
  assumes inv: "flow_inv s" and some: "fst (admit_connection now c (sm s)) = Some f"
    and t: "sm t = snd (admit_connection now c (sm s))" "sm_closing t = sm_closing s" "sm_marked t = sm_marked s"
  shows "flow_inv t"
proof -
  note r = admit_result [OF some]
  have l: "so_lease (sm s) < so_next_lease (sm s)" using inv by (simp add: flow_inv_def refs_ok_def)
  have nd: "\<not> lease_draining (sm s) (so_lease (sm s))"
    using r(5) by (auto simp: admitsLocked_def admitsLeaseLocked_def lease_draining_def Let_def split: if_splits)
  then have ne: "\<not> lease_ending (sm s) (so_lease (sm s))" using inv l by (auto simp: flow_inv_def)
  have o: "open_flow (sm t) g \<longleftrightarrow> g = f \<or> open_flow (sm s) g" for g
    using r(1,2,4) by (auto simp: open_flow_def t(1) new_sa_flow_def)
  have d: "flow_settled (sm t) g \<longleftrightarrow> g = f \<or> flow_settled (sm s) g" if "g \<le> f" for g
    using r(4) nd ne that by (auto simp: flow_settled_def t(1) new_sa_flow_def)
  have "refs_ok (sm t)" using inv l r by (auto simp: flow_inv_def refs_ok_def t(1) frame_simps less_Suc_eq new_sa_flow_def)
  moreover have "open_flow (sm s) g \<Longrightarrow> g \<le> f" for g using r(1) by (simp add: open_flow_def)
  moreover have "\<forall>g \<in> sm_marked s. g < so_next_flow (sm t) \<and> sf_closed (so_flow (sm t) g)"
    using inv r(1,2,4) by (auto simp: flow_inv_def t(1))
  ultimately show ?thesis using inv o d r(3) unfolding flow_inv_def t
    by (auto simp: frame_simps)
qed

text \<open>Steps that change one flow, which stays what it was except that it may become active or closed.\<close>

lemma flow_inv_upd:
  assumes inv: "flow_inv s" and f: "f < so_next_flow (sm s)" and flow: "so_flow (sm t) = (so_flow (sm s))(f := v)"
    and same: "so_next_flow (sm t) = so_next_flow (sm s)" "so_flows (sm t) = so_flows (sm s)"
      "so_lease (sm t) = so_lease (sm s)" "so_next_lease (sm t) = so_next_lease (sm s)"
      "\<And>l. lease_draining (sm t) l = lease_draining (sm s) l" "\<And>l. lease_ending (sm t) l = lease_ending (sm s) l"
    and v: "sf_lease v = sf_lease (so_flow (sm s) f)" "sf_active (so_flow (sm s) f) \<longrightarrow> sf_active v"
      "sf_closed (so_flow (sm s) f) \<longrightarrow> sf_closed v"
    and m: "sm_marked t = (if sf_closed v \<and> \<not> sf_closed (so_flow (sm s) f) then insert f (sm_marked s) else sm_marked s)"
      "sm_closing s \<subseteq> sm_closing t \<union> (if sf_closed v then {f} else {})"
  shows "flow_inv t"
proof -
  have d: "flow_settled (sm s) g \<Longrightarrow> flow_settled (sm t) g" for g
    using v by (auto simp: flow_settled_def flow same)
  have "refs_ok (sm t)" using inv v(1) f by (auto simp: flow_inv_def refs_ok_def flow same)
  moreover have "set (so_flows (sm t)) = Collect (open_flow (sm t)) \<union> sm_marked t"
    using inv f v(3) by (auto simp: flow_inv_def flow same m(1) open_flow_def split: if_splits)
  moreover have "\<forall>g \<in> sm_marked t. g < so_next_flow (sm t) \<and> sf_closed (so_flow (sm t) g)"
    using inv f v(3) by (auto simp: flow_inv_def m(1) flow same split: if_splits)
  moreover have "\<forall>g. open_flow (sm t) g \<longrightarrow> g \<in> sm_closing t \<or> flow_settled (sm t) g"
    using inv d v(3) m(2) f by (auto simp: flow_inv_def flow same open_flow_def split: if_splits)
  ultimately show ?thesis using inv by (simp add: flow_inv_def same)
qed

lemma flow_inv_locked:
  assumes inv: "flow_inv s"
    and same: "so_next_flow (sm t) = so_next_flow (sm s)" "so_flows (sm t) = so_flows (sm s)" "so_flow (sm t) = so_flow (sm s)"
      "so_lease (sm t) = so_lease (sm s)" "so_next_lease (sm t) = so_next_lease (sm s)" "sm_marked t = sm_marked s"
    and ends: "\<And>l. l < so_next_lease (sm s) \<Longrightarrow> lease_ending (sm t) l \<Longrightarrow> lease_ending (sm s) l \<or> lease_draining (sm t) l"
      "\<And>l. lease_draining (sm s) l \<Longrightarrow> lease_draining (sm t) l"
    and closing: "sm_closing s \<subseteq> sm_closing t"
      "\<And>f. f \<in> set (so_flows (sm s)) \<Longrightarrow> f \<notin> sm_closing t \<Longrightarrow> flow_settled (sm s) f \<Longrightarrow> flow_settled (sm t) f"
  shows "flow_inv t"
proof -
  have o: "open_flow (sm t) = open_flow (sm s)" by (simp add: open_flow_def fun_eq_iff same)
  have "f \<in> sm_closing t \<or> flow_settled (sm t) f" if "open_flow (sm s) f" for f
  proof -
    have "f \<in> set (so_flows (sm s))" "f \<in> sm_closing s \<or> flow_settled (sm s) f" using inv that by (auto simp: flow_inv_def)
    then show ?thesis using closing by blast
  qed
  moreover have "lease_draining (sm t) l" if "l < so_next_lease (sm s)" "lease_ending (sm t) l" for l
    using inv ends that by (meson flow_inv_def)
  ultimately show ?thesis using inv by (simp add: flow_inv_def refs_ok_def o same)
qed

lemma close_locked_ends:
  "lease_draining (snd (close_locked h)) l" "fst (close_locked h) = so_flows h"
  by (simp_all add: lease_draining_def close_locked_def)

lemma revoke_locked_ends:
  "lease_draining (snd (revoke_locked b h)) l"
  "lease_ending (snd (revoke_locked b h)) l \<longleftrightarrow> b \<or> lease_ending h l"
  "set (fst (revoke_locked b h)) = {f \<in> set (so_flows h). b \<or> \<not> sf_active (so_flow h f)}"
  by (auto simp: lease_draining_def lease_ending_def revoke_locked_def)

lemma revokeLease_ends:
  assumes "revokeLease_locked i b h = Some (fs, h')"
  obtains l where "map_of (so_leases h) i = Some l"
    "\<And>k. lease_draining h' k \<longleftrightarrow> k = l \<or> lease_draining h k"
    "\<And>k. lease_ending h' k \<longleftrightarrow> (k = l \<and> b) \<or> lease_ending h k"
    "set fs = {f \<in> set (so_flows h). sf_lease (so_flow h f) = l \<and> (b \<or> \<not> sf_active (so_flow h f))}"
proof (cases "map_of (so_leases h) i")
  case (Some l)
  then show thesis using assms
    by (intro that [of l]) (auto simp: revokeLease_locked_def lease_draining_def lease_ending_def set_lease_def Let_def split: if_splits)
qed (use assms in \<open>simp add: revokeLease_locked_def\<close>)

lemma flow_inv_renew:
  assumes inv: "flow_inv s" and t: "sm t = snd (RenewLease i j d1 d2 d3 now1 now2 retain now3 (sm s))"
    "sm_closing t = sm_closing s" "sm_marked t = sm_marked s"
  shows "flow_inv t"
proof (cases rule: RenewLease_cases [of i j d1 d2 d3 now1 now2 retain now3 "sm s"])
  case 1
  then show ?thesis
    by (intro flow_inv_same [OF inv]) (simp_all add: t frame_simps lease_draining_def lease_ending_def)
next
  case (2 lease)
  have refs: "so_lease (sm s) < so_next_lease (sm s)" "\<And>f. f < so_next_flow (sm s) \<Longrightarrow> sf_lease (so_flow (sm s) f) < so_next_lease (sm s)"
    using inv by (auto simp: flow_inv_def refs_ok_def)
  have old: "lease_draining (sm t) l = lease_draining (sm s) l" "lease_ending (sm t) l = lease_ending (sm s) l"
    if "l < so_next_lease (sm s)" for l
    using that by (simp_all add: lease_draining_def lease_ending_def t 2 frame_simps)
  have "\<not> lease_draining (sm s) (so_lease (sm s))" using 2 by (simp add: lease_draining_def)
  then have "\<not> so_terminateActive (sm s)" using inv refs(1) by (auto simp: flow_inv_def lease_ending_def)
  moreover have "\<not> sl_terminateActive lease" by (rule newLeaseAuthorizationE [OF 2(1)])
  ultimately have new: "\<not> lease_ending (sm t) (so_next_lease (sm s))"
    by (simp add: lease_ending_def t 2 frame_simps)
  have o: "open_flow (sm t) = open_flow (sm s)" by (simp add: open_flow_def fun_eq_iff t frame_simps)
  have "flow_settled (sm t) f = flow_settled (sm s) f" if "open_flow (sm s) f" for f
    using that refs(2) old by (simp add: flow_settled_def open_flow_def) (simp add: t frame_simps)
  moreover have "refs_ok (sm t)" using refs by (auto simp: refs_ok_def t 2 frame_simps less_Suc_eq)
  ultimately show ?thesis using inv old new o
    by (auto simp: flow_inv_def t 2 frame_simps less_Suc_eq)
qed

lemma admit_none:
  assumes "fst (admit_connection now c h) = None"
  shows "so_flows (snd (admit_connection now c h)) = so_flows h" "so_flow (snd (admit_connection now c h)) = so_flow h"
    "so_next_flow (snd (admit_connection now c h)) = so_next_flow h"
  using assms
  by (auto simp: admit_connection_def admitsLocked_def case_prod_beta frame_simps Let_def split: if_splits)

lemma activate_flow:
  "so_flow (snd (activate f now h)) =
     (so_flow h)(f := (so_flow h f)\<lparr>sf_active := sf_active (so_flow h f) \<or> fst (activate f now h)\<rparr>)"
  by (simp add: activate_def set_flow_def case_prod_beta frame_simps)

lemma close_mark_flow:
  "fst (close_mark f h) \<longleftrightarrow> \<not> sf_closed (so_flow h f)"
  "so_flow (snd (close_mark f h)) = (so_flow h)(f := if sf_closed (so_flow h f) then so_flow h f
     else (so_flow h f)\<lparr>sf_closed := True, sf_timer := False, sf_cancelled := True\<rparr>)"
  by (auto simp: close_mark_def set_flow_def Let_def)

lemma complete_ends [simp]:
  "lease_draining (snd (completeRelay i e p ok c now h)) k = lease_draining h k"
  "lease_ending (snd (completeRelay i e p ok c now h)) k = lease_ending h k"
  by (rule ends_cong; simp add: frame_simps)+

lemma flow_inv_step:
  assumes inv: "flow_inv s" and "sa_step s t"
  shows "flow_inv t"
  using assms(2)
proof cases
  case (admit now conn)
  show ?thesis
  proof (cases "fst (admit_connection now conn (sm s))")
    case None
    then show ?thesis
      by (intro flow_inv_same [OF inv]) (simp_all add: admit frame_simps admit_none)
  qed (auto intro: flow_inv_admit [OF inv] simp: admit)
next
  case (remote f c)
  show ?thesis
    by (rule flow_inv_upd [OF inv remote(2), where v = "so_flow (snd (setRemote f c (sm s))) f"])
      (auto simp: remote frame_simps setRemote_def set_flow_def lease_draining_def lease_ending_def)
next
  case (activate now f)
  show ?thesis
    by (rule flow_inv_upd [OF inv activate(3), where v = "so_flow (snd (activate f now (sm s))) f"])
      (auto simp: activate frame_simps activate_flow)
next
  case (mark f)
  show ?thesis
    by (rule flow_inv_upd [OF inv mark(2), where v = "so_flow (snd (close_mark f (sm s))) f"])
      (auto simp: mark frame_simps lease_draining_def lease_ending_def close_mark_flow)
next
  case (unlist f)
  have "\<not> open_flow (sm s) f" using inv unlist(2) by (auto simp: flow_inv_def open_flow_def)
  moreover have "open_flow (sm t) = open_flow (sm s)" "flow_settled (sm t) = flow_settled (sm s)"
    by (simp_all add: unlist open_flow_def flow_settled_def lease_draining_def lease_ending_def fun_eq_iff frame_simps)
  moreover have "lease_draining (sm t) = lease_draining (sm s)" "lease_ending (sm t) = lease_ending (sm s)"
    by (simp_all add: unlist lease_draining_def lease_ending_def fun_eq_iff frame_simps)
  ultimately show ?thesis using inv
    by (auto simp: flow_inv_def refs_ok_def) (auto simp: unlist close_unlist_def)
next
  case close
  show ?thesis
    by (rule flow_inv_locked [OF inv]) (auto simp: close frame_simps close_locked_ends)
next
  case (revoke b)
  show ?thesis
    by (rule flow_inv_locked [OF inv]) (auto simp: revoke frame_simps revoke_locked_ends flow_settled_def)
next
  case (revoke_lease i b fs h)
  from revoke_lease(2) show ?thesis
  proof (rule revokeLease_ends)
    fix l
    assume e: "\<And>k. lease_draining h k \<longleftrightarrow> k = l \<or> lease_draining (sm s) k"
      "\<And>k. lease_ending h k \<longleftrightarrow> (k = l \<and> b) \<or> lease_ending (sm s) k"
      "set fs = {f \<in> set (so_flows (sm s)). sf_lease (so_flow (sm s) f) = l \<and> (b \<or> \<not> sf_active (so_flow (sm s) f))}"
    show ?thesis
      using revokeLease_frame [OF revoke_lease(2)]
      by (intro flow_inv_locked [OF inv]) (auto simp: revoke_lease(1) e flow_settled_def)
  qed
next
  case (renew now1 i j d1 d2 d3 now2 retain now3)
  then show ?thesis by (intro flow_inv_renew [OF inv]) simp_all
qed (rule flow_inv_same [OF inv]; simp add: frame_simps)+

lemma flow_inv_init:
  assumes "sa_init uni tag options now s"
  shows "flow_inv s"
  using assms
  by (auto simp: sa_init_def flow_inv_def refs_ok_def open_flow_def lease_ending_def
      dest!: NewOutbound_start elim!: newLeaseAuthorizationE)

interpretation smart_flows: invariant_system "sa_init uni tag options now" sa_step flow_inv for uni tag options now
  by unfold_locales (auto intro: flow_inv_init flow_inv_step)

text \<open>
  C9. Revocation leaves nothing behind, in every interleaving of admissions, dials, renewals,
  revocations and closes: the registry holds exactly the open flows and those on their way out; and
  whenever no revocation has flows left to close, no flow is open under a lease (or an outbound)
  that was revoked with termination, and under one that was revoked to drain only flows that were
  already relaying are open.
\<close>

theorem revocation_settles:
  assumes "reachable (sa_init uni tag options now) sa_step s"
  shows "set (so_flows (sm s)) = {f. open_flow (sm s) f} \<union> sm_marked s
    \<and> (\<forall>f. open_flow (sm s) f \<and> sm_closing s = {} \<longrightarrow>
         \<not> so_terminateActive (sm s) \<and> \<not> sl_terminateActive (so_auth (sm s) (sf_lease (so_flow (sm s) f)))
         \<and> (so_closed (sm s) \<or> so_revoked (sm s) \<or> sl_revoked (so_auth (sm s) (sf_lease (so_flow (sm s) f)))
              \<longrightarrow> sf_active (so_flow (sm s) f)))"
  using smart_flows.inv_reachable [OF assms]
  by (auto simp: flow_inv_def flow_settled_def lease_ending_def lease_draining_def)

theorem revocation_settles_witness:
  "open_flow (sm demo_admitted) 0 \<and> \<not> so_terminateActive (sm demo_admitted)"
proof -
  have "open_flow (sm demo_admitted) 0"
    using admit_result(2,4) [OF demo_admits]
    by (simp add: demo_admitted_def open_flow_def demo_smart_leases new_sa_flow_def)
  moreover have "sm_closing demo_admitted = {}" by (simp add: demo_admitted_def demo_world_def at_time_def)
  ultimately show ?thesis using revocation_settles [OF demo_admitted_reachable] by blast
qed

section \<open>Connections\<close>

text \<open>A closed flow has closed its connections and cancelled its dial.\<close>

definition conn_inv :: "smart \<Rightarrow> bool" where
  "conn_inv h \<longleftrightarrow> (\<forall>f < so_next_flow h. sf_closed (so_flow h f) \<longrightarrow>
     insert (sf_conn (so_flow h f)) (set_option (sf_remote (so_flow h f))) \<subseteq> so_shut h
     \<and> sf_cancelled (so_flow h f) \<and> \<not> sf_timer (so_flow h f))"

text \<open>What any other goroutine leaves alone while a connection waits.\<close>

definition world_ok :: "smart \<Rightarrow> smart \<Rightarrow> bool" where
  "world_ok h h' \<longleftrightarrow> so_next_flow h \<le> so_next_flow h' \<and> so_domains h' = so_domains h \<and> so_shut h \<subseteq> so_shut h'
     \<and> (conn_inv h \<longrightarrow> conn_inv h')
     \<and> (\<forall>f < so_next_flow h. sf_conn (so_flow h' f) = sf_conn (so_flow h f) \<and> sf_lease (so_flow h' f) = sf_lease (so_flow h f))"

lemma world_ok_refl [simp]: "world_ok h h"
  by (simp add: world_ok_def)

lemma world_ok_trans: "world_ok h h' \<Longrightarrow> world_ok h' h'' \<Longrightarrow> world_ok h h''"
  unfolding world_ok_def by (metis order_less_le_trans order_trans)

lemma shut_frame [frame_simps]:
  "so_shut (snd (admitsLeaseLocked l now h)) = so_shut h" "so_shut (prune_attempts now h) = so_shut h"
  "so_shut (close_unlist f h) = so_shut h" "so_shut (snd (setRemote f c h)) = so_shut h"
  "so_shut (snd (close_locked h)) = so_shut h" "so_shut (snd (revoke_locked b h)) = so_shut h"
  "so_shut (snd (RenewLease i j d1 d2 d3 now1 now2 retain now3 h)) = so_shut h"
  "so_shut (snd (completeRelay i' e p ok c' now h)) = so_shut h"
  by (simp_all add: admitsLeaseLocked_def set_lease_def prune_attempts_def close_unlist_def setRemote_def set_flow_def
      close_locked_def revoke_locked_def RenewLease_def completeRelay_def set_state_def Let_def split: sum.splits option.splits)

lemma domains_frame [frame_simps]:
  "so_domains (snd (admitsLeaseLocked l now h)) = so_domains h" "so_domains (prune_attempts now h) = so_domains h"
  "so_domains (close_unlist f h) = so_domains h" "so_domains (snd (setRemote f c h)) = so_domains h"
  "so_domains (snd (close_locked h)) = so_domains h" "so_domains (snd (revoke_locked b h)) = so_domains h"
  "so_domains (snd (RenewLease i j d1 d2 d3 now1 now2 retain now3 h)) = so_domains h"
  "so_domains (snd (completeRelay i' e p ok c' now h)) = so_domains h" "so_domains (snd (close_mark f h)) = so_domains h"
  by (simp_all add: admitsLeaseLocked_def set_lease_def prune_attempts_def close_unlist_def setRemote_def set_flow_def
      close_locked_def revoke_locked_def RenewLease_def completeRelay_def set_state_def close_mark_def Let_def
      split: sum.splits option.splits)

lemma derived_shut_frame [frame_simps]:
  "so_shut (snd (activate f now h)) = so_shut h" "so_domains (snd (activate f now h)) = so_domains h"
  "so_shut (recordProbeFailure l stage now h) = so_shut h" "so_domains (recordProbeFailure l stage now h) = so_domains h"
  "so_shut (snd (admit_connection now c h)) = so_shut h" "so_domains (snd (admit_connection now c h)) = so_domains h"
  "so_shut (snd (availableForNewFlows now h)) = so_shut h" "so_domains (snd (availableForNewFlows now h)) = so_domains h"
  "so_shut (snd (reserveRelay l visited extra now h)) = so_shut h"
  "so_domains (snd (reserveRelay l visited extra now h)) = so_domains h"
  by (simp_all add: activate_def recordProbeFailure_def admit_connection_def availableForNewFlows_def reserveRelay_def
      set_flow_def set_lease_def set_state_def admitsLocked_def case_prod_beta frame_simps Let_def split: option.splits)

lemma world_ok_same:
  assumes "so_flow h' = so_flow h" "so_next_flow h' = so_next_flow h" "so_shut h' = so_shut h" "so_domains h' = so_domains h"
  shows "world_ok h h'"
  using assms by (simp add: world_ok_def conn_inv_def)

lemma world_ok_upd:
  assumes "so_flow h' = (so_flow h)(f := v)" "so_next_flow h' = so_next_flow h" "so_shut h \<subseteq> so_shut h'"
    "so_domains h' = so_domains h" "sf_conn v = sf_conn (so_flow h f)" "sf_lease v = sf_lease (so_flow h f)"
    and v: "conn_inv h \<Longrightarrow> sf_closed v \<Longrightarrow> f < so_next_flow h \<Longrightarrow>
      insert (sf_conn v) (set_option (sf_remote v)) \<subseteq> so_shut h' \<and> sf_cancelled v \<and> \<not> sf_timer v"
  shows "world_ok h h'"
proof -
  have "conn_inv h'" if "conn_inv h" using that v assms(1-3) by (fastforce simp: conn_inv_def)
  then show ?thesis using assms by (auto simp: world_ok_def)
qed

lemma world_ok_admit: "world_ok h (snd (admit_connection now c h))"
proof (cases "fst (admit_connection now c h)")
  case (Some f)
  note r = admit_result [OF Some]
  have "conn_inv (snd (admit_connection now c h))" if "conn_inv h"
    using that r by (auto simp: conn_inv_def less_Suc_eq new_sa_flow_def frame_simps)
  then show ?thesis using r by (auto simp: world_ok_def frame_simps)
qed (auto intro: world_ok_same simp: admit_none frame_simps)

lemma setRemote_flow:
  "fst (setRemote f c h) \<longleftrightarrow> \<not> sf_closed (so_flow h f)"
  "so_flow (snd (setRemote f c h)) =
     (so_flow h)(f := if sf_closed (so_flow h f) then so_flow h f else (so_flow h f)\<lparr>sf_remote := Some c\<rparr>)"
  by (auto simp: setRemote_def set_flow_def)

lemma close_mark_shut:
  "so_shut (snd (close_mark f h)) = (if sf_closed (so_flow h f) then so_shut h
     else so_shut h \<union> {sf_conn (so_flow h f)} \<union> set_option (sf_remote (so_flow h f)))"
  by (simp add: close_mark_def set_flow_def Let_def)

lemma world_ok_remote: "world_ok h (snd (setRemote f c h))"
  by (rule world_ok_upd [where f = f and v = "so_flow (snd (setRemote f c h)) f"])
    (auto simp: frame_simps setRemote_flow conn_inv_def split: if_splits)

lemma world_ok_activate: "world_ok h (snd (activate f now h))"
  by (rule world_ok_upd [where f = f and v = "so_flow (snd (activate f now h)) f"])
    (auto simp: frame_simps activate_flow conn_inv_def split: if_splits)

lemma world_ok_mark: "world_ok h (snd (close_mark f h))"
  by (rule world_ok_upd [where f = f and v = "so_flow (snd (close_mark f h)) f"])
    (auto simp: frame_simps close_mark_flow close_mark_shut conn_inv_def)

lemma world_ok_ops [simp]:
  "world_ok h (snd (admitsLeaseLocked l now h))" "world_ok h (recordProbeFailure l stage now h)"
  "world_ok h (close_unlist f h)"
  by (rule world_ok_same; simp add: frame_simps)+

text \<open>Every step of the system is such a step.\<close>

lemma sa_step_world: "sa_step s t \<Longrightarrow> world_ok (sm s) (sm t)"
proof (erule sa_stepE)
  fix i b fs h
  assume t: "t = s\<lparr>sm := h, sm_closing := sm_closing s \<union> set fs\<rparr>" and r: "revokeLease_locked i b (sm s) = Some (fs, h)"
  have "so_shut h = so_shut (sm s) \<and> so_domains h = so_domains (sm s)"
    using r by (auto simp: revokeLease_locked_def set_lease_def Let_def split: option.splits)
  with t revokeLease_frame [OF r] show ?thesis by (intro world_ok_same) simp_all
qed (auto simp: world_ok_admit world_ok_remote world_ok_activate world_ok_mark intro: world_ok_same simp: frame_simps)

lemma sa_steps_world: "sa_step\<^sup>*\<^sup>* s t \<Longrightarrow> world_ok (sm s) (sm t)"
  by (induction rule: rtranclp_induct) (auto intro: world_ok_trans sa_step_world)

lemma close_flow_releases:
  assumes "conn_inv h" and "f < so_next_flow h"
  shows "sf_conn (so_flow h f) \<in> so_shut (close_flow f h)"
  using assms by (auto simp: close_flow_def close_mark_def close_unlist_def set_flow_def conn_inv_def Let_def)

text \<open>A connection that waits in flow \<open>f\<close>.\<close>

definition waiting :: "ref \<Rightarrow> ref \<Rightarrow> sa_domain list \<Rightarrow> smart \<Rightarrow> bool" where
  "waiting f c ds h \<longleftrightarrow> conn_inv h \<and> f < so_next_flow h \<and> sf_conn (so_flow h f) = c \<and> so_domains h = ds"

lemma waiting_world: "waiting f c ds h \<Longrightarrow> world_ok h h' \<Longrightarrow> waiting f c ds h'"
  by (auto simp: waiting_def world_ok_def)

lemma waiting_close: "waiting f c ds h \<Longrightarrow> c \<in> so_shut (close_flow f h)"
  using close_flow_releases by (auto simp: waiting_def)

lemma waiting_shut: "waiting f c ds h \<Longrightarrow> waiting f c ds (h\<lparr>so_shut := insert r (so_shut h)\<rparr>)"
  by (auto simp: waiting_def conn_inv_def)

lemma admits_again:
  "fst (admitsLeaseLocked l now h) \<Longrightarrow> so_auth (snd (admitsLeaseLocked l now h)) = so_auth h"
  by (auto simp: admitsLeaseLocked_def set_lease_def Let_def split: if_splits)

lemma activate_outcome:
  assumes "activate f now h = (True, h')"
  shows "sf_active (so_flow h' f)" "fst (admitsLeaseLocked (sf_lease (so_flow h' f)) now h')"
    "sf_closed (so_flow h' f) = sf_closed (so_flow h f)" "sf_remote (so_flow h' f) = sf_remote (so_flow h f)"
proof -
  have h': "h' = snd (activate f now h)" and ok: "fst (activate f now h)" using assms by simp_all
  from ok have "fst (admitsLeaseLocked (sf_lease (so_flow h f)) now h)" by (simp add: activate_def case_prod_beta)
  with admits_again [OF this] show "fst (admitsLeaseLocked (sf_lease (so_flow h' f)) now h')"
    by (simp add: h' activate_flow) (simp add: admitsLeaseLocked_def frame_simps admits_auth_of Let_def)
  show "sf_active (so_flow h' f)" "sf_closed (so_flow h' f) = sf_closed (so_flow h f)" "sf_remote (so_flow h' f) = sf_remote (so_flow h f)"
    using ok by (simp_all add: h' activate_flow)
qed

text \<open>
  C10. A connection handed to the outbound is either relayed under authority or closed. If it is
  refused, for whatever reason and whatever other goroutines do while it waits for the greeting
  and for a relay, the client's connection is closed. If it is relayed, it was bound for port 443, the
  server name is within the domains of the grant, and its flow is open, active, holds this client and a
  relay connection, and its lease admits it at the last reading of the clock. (What other goroutines do
  is bounded by \<open>world_ok\<close>, which every step of the system satisfies, \<open>sa_steps_world\<close>.)
\<close>

theorem connection_outcome:
  assumes "conn_inv h" and hello: "\<And>k. world_ok k (snd (nw_hello w k))"
    and connect: "\<And>l k. world_ok k (snd (nw_connect w l k))" and "newConnection w h = (r, h')"
  shows "case r of
      None \<Rightarrow> nw_conn w \<in> so_shut h'
    | Some (f, raw, serverName) \<Rightarrow> nw_port w = 443 \<and> allows serverName h' \<and> open_flow h' f \<and> sf_active (so_flow h' f)
        \<and> sf_conn (so_flow h' f) = nw_conn w \<and> sf_remote (so_flow h' f) \<noteq> None
        \<and> fst (admitsLeaseLocked (sf_lease (so_flow h' f)) (nw_now4 w) h')"
proof (cases "nw_port w = 443 \<and> fst (admit_connection (nw_now1 w) (nw_conn w) h) \<noteq> None")
  case False
  then show ?thesis using assms(4) by (auto simp: newConnection_def split: if_splits prod.splits option.splits)
next
  case True
  then obtain f h1 where adm: "admit_connection (nw_now1 w) (nw_conn w) h = (Some f, h1)"
    by (cases "admit_connection (nw_now1 w) (nw_conn w) h") auto
  have "h1 = snd (admit_connection (nw_now1 w) (nw_conn w) h)" "fst (admit_connection (nw_now1 w) (nw_conn w) h) = Some f"
    by (simp_all add: adm)
  then have w1: "waiting f (nw_conn w) (so_domains h) h1"
    using admit_result [of "nw_now1 w" "nw_conn w" h f] world_ok_admit [of h "nw_now1 w" "nw_conn w"] assms(1)
    by (auto simp: waiting_def world_ok_def frame_simps)
  obtain e h2 where hl: "nw_hello w h1 = (e, h2)" by fastforce
  have w2: "waiting f (nw_conn w) (so_domains h) h2" using waiting_world [OF w1 hello] hl by (metis snd_conv)
  obtain ok h3 where ck: "admitsLeaseLocked (sf_lease (so_flow h2 f)) (nw_now3 w) h2 = (ok, h3)" by fastforce
  have w3: "waiting f (nw_conn w) (so_domains h) h3" using waiting_world [OF w2 world_ok_ops(1)] ck by (metis snd_conv)
  obtain c vis h4 where cn: "nw_connect w (sf_lease (so_flow h3 f)) h3 = ((c, vis), h4)" by (metis prod.collapse)
  have w4: "waiting f (nw_conn w) (so_domains h) h4" using waiting_world [OF w3 connect] cn by (metis snd_conv)
  note simps = newConnection_def True adm hl ck cn
  show ?thesis
  proof (cases "\<exists>raw name rest remote. nw_deadline1 w \<and> e = Inr (raw, name, rest) \<and> allows name h2 \<and> ok \<and> c = Some remote")
    case False
    then have "r = None \<and> (\<exists>k. h' = close_flow f k \<and> waiting f (nw_conn w) (so_domains h) k)"
      using assms(4) True w1 w2 w3 w4 waiting_world [OF w2 world_ok_ops(2)]
      by (auto simp: simps split: if_splits sum.splits prod.splits option.splits bool.splits)
    then show ?thesis using waiting_close by auto
  next
    case True
    then obtain raw name rest remote where t: "nw_deadline1 w" "e = Inr (raw, name, rest)" "allows name h2" "ok" "c = Some remote"
      by blast
    obtain ok5 h5 where sr: "setRemote f remote h4 = (ok5, h5)" by fastforce
    have w5: "waiting f (nw_conn w) (so_domains h) h5" using waiting_world [OF w4 world_ok_remote] sr by (metis snd_conv)
    obtain ok6 h6 where ac: "activate f (nw_now4 w) h5 = (ok6, h6)" by fastforce
    have w6: "waiting f (nw_conn w) (so_domains h) h6" using waiting_world [OF w5 world_ok_activate] ac by (metis snd_conv)
    show ?thesis
    proof (cases "ok5 \<and> ok6 \<and> nw_deadline2 w")
      case False
      then have "r = None \<and> (\<exists>k. h' = close_flow f k \<and> waiting f (nw_conn w) (so_domains h) k)"
        using assms(4) w5 w6 waiting_shut [OF w5]
        by (auto simp: simps \<open>nw_port w = 443 \<and> _\<close> t sr ac split: if_splits bool.splits)
      then show ?thesis using waiting_close by auto
    next
      case True
      then have "r = Some (f, raw, name)" "h' = h6"
        using assms(4) by (simp_all add: simps \<open>nw_port w = 443 \<and> _\<close> t sr ac)
      moreover have "\<not> sf_closed (so_flow h5 f)" "sf_remote (so_flow h5 f) = Some remote"
        using setRemote_flow [of f remote h4] sr True by auto
      ultimately show ?thesis
        using activate_outcome [of f "nw_now4 w" h5 h6] ac True w6 w2 t(3) \<open>nw_port w = 443 \<and> _\<close>
        by (auto simp: waiting_def open_flow_def allows_def)
    qed
  qed
qed

definition demo_client :: nc_world where
  "demo_client = \<lparr>nw_port = 443, nw_conn = 5, nw_now1 = demo_load, nw_deadline1 = True,
     nw_hello = (\<lambda>h. (Inr ([22], ''a.example.org'', []), h)), nw_now2 = demo_load, nw_now3 = demo_load,
     nw_connect = (\<lambda>l h. ((Some 9, [0]), h)), nw_now4 = demo_load, nw_deadline2 = True\<rparr>"

lemma demo_still_admits:
  assumes "so_auth h 0 = demo_first" "\<not> so_closed h" "\<not> so_revoked h"
  shows "fst (admitsLeaseLocked 0 demo_load h)" "so_auth (snd (admitsLeaseLocked 0 demo_load h)) = so_auth h"
proof -
  show "fst (admitsLeaseLocked 0 demo_load h)"
    using assms by (simp add: admitsLeaseLocked_def demo_first_def demo_load_def clock_simps second_def)
  then show "so_auth (snd (admitsLeaseLocked 0 demo_load h)) = so_auth h" by (rule admits_again)
qed

lemma demo_relayed: "fst (newConnection demo_client demo_smart) = Some (0, [22], ''a.example.org'')"
proof -
  define h1 where "h1 = snd (admit_connection demo_load 5 demo_smart)"
  have adm: "admit_connection demo_load 5 demo_smart = (Some 0, h1)" using demo_admits by (simp add: h1_def prod_eq_iff)
  have fl: "so_flow h1 0 = new_sa_flow\<lparr>sf_lease := 0, sf_conn := 5, sf_timer := True\<rparr>"
    using admit_result(4) [OF demo_admits] by (simp add: h1_def demo_smart_leases)
  have "so_auth (snd (admitsLeaseLocked 0 demo_load demo_smart)) = so_auth demo_smart"
    by (rule demo_still_admits) (simp_all add: demo_smart_leases)
  then have a1: "so_auth h1 0 = demo_first" "\<not> so_closed h1" "\<not> so_revoked h1"
    by (simp_all add: h1_def admits_auth_of admitsLocked_def demo_smart_leases frame_simps)
  obtain h3 where ck: "admitsLeaseLocked 0 demo_load h1 = (True, h3)"
    using demo_still_admits(1) [OF a1] by (metis prod.collapse)
  then have h3: "h3 = snd (admitsLeaseLocked 0 demo_load h1)" by simp
  obtain h5 where sr: "setRemote 0 9 h3 = (True, h5)"
    using setRemote_flow(1) [of 0 9 h3] fl by (cases "setRemote 0 9 h3") (auto simp: h3 frame_simps new_sa_flow_def)
  then have h5: "h5 = snd (setRemote 0 9 h3)" by simp
  have "fst (admitsLeaseLocked 0 demo_load h5)"
    using demo_still_admits(2) [OF a1] a1 by (intro demo_still_admits) (simp_all add: h5 h3 frame_simps)
  moreover have "sf_lease (so_flow h5 0) = 0" using fl by (simp add: h5 setRemote_flow h3 frame_simps new_sa_flow_def)
  ultimately obtain h6 where ac: "activate 0 demo_load h5 = (True, h6)"
    by (simp add: activate_def case_prod_beta)
  have "allows ''a.example.org'' h1"
    by (simp add: allows_def h1_def frame_simps demo_smart_leases has_suffix_def)
  moreover have "sf_lease (so_flow h1 0) = 0" by (simp add: fl)
  ultimately show ?thesis by (simp add: newConnection_def demo_client_def adm ck sr ac)
qed

theorem connection_outcome_witness:
  "fst (newConnection demo_client demo_smart) = Some (0, [22], ''a.example.org'')
   \<and> sf_active (so_flow (snd (newConnection demo_client demo_smart)) 0)
   \<and> sf_conn (so_flow (snd (newConnection demo_client demo_smart)) 0) = 5"
proof -
  have "conn_inv demo_smart" by (simp add: conn_inv_def demo_smart_leases)
  from connection_outcome [OF this, of demo_client "fst (newConnection demo_client demo_smart)"
      "snd (newConnection demo_client demo_smart)"] demo_relayed
  show ?thesis by (simp add: demo_client_def)
qed

end
