(* ===== verification/Smart_Breaker.thy ===== *)
theory Smart_Breaker
  imports Smart_Leases
begin

text \<open>
  The circuit breaker of the Smart Access relays: which relay an attempt may take, what the end of
  an attempt does to its relay, and over any history that a relay whose breaker is open has at most
  one probe under way and is never blocked for good.
\<close>

section \<open>Attempts\<close>

lemma find_relay_sound:
  assumes "find_relay now visited h = Some i"
  shows "i < length (so_relays h)" "i \<notin> set visited" "\<not> relay_blocked now (so_relayStates h ! i)"
proof -
  let ?order = "map (\<lambda>offset. (so_preferred h + offset) mod length (so_relays h)) [0..<length (so_relays h)]"
  have "i \<in> set ?order \<and> i \<notin> set visited \<and> \<not> relay_blocked now (so_relayStates h ! i)"
    using assms unfolding find_relay_def find_Some_iff by auto
  then show "i < length (so_relays h)" "i \<notin> set visited" "\<not> relay_blocked now (so_relayStates h ! i)"
    by (auto intro!: mod_less_divisor)
qed

text \<open>The search goes round all relays, so it misses none.\<close>

lemma round_robin_covers:
  assumes "i < (n :: nat)"
  shows "i \<in> (\<lambda>offset. (p + offset) mod n) ` {0..<n}"
proof -
  define off where "off = (i + (n - p mod n)) mod n"
  have "p mod n < n" using assms by simp
  then have "p mod n + (i + (n - p mod n)) = i + n" by linarith
  then have "(p mod n + (i + (n - p mod n))) mod n = i" using assms by simp
  then have "(p + off) mod n = i" unfolding off_def by (metis mod_add_left_eq mod_add_right_eq)
  moreover have "off < n" using assms by (simp add: off_def)
  ultimately show ?thesis by force
qed

lemma find_relay_complete:
  assumes "i < length (so_relays h)" "i \<notin> set visited" "\<not> relay_blocked now (so_relayStates h ! i)"
  shows "find_relay now visited h \<noteq> None"
  using assms round_robin_covers [OF assms(1), of "so_preferred h"]
  by (auto simp: find_relay_def find_None_iff)

lemma find_relay_frame:
  assumes "so_relays h' = so_relays h" "so_relayStates h' = so_relayStates h" "so_preferred h' = so_preferred h"
  shows "find_relay now visited h' = find_relay now visited h"
  using assms by (simp add: find_relay_def)

lemma reserve_result:
  assumes "fst (reserveRelay l visited extra now h) = Some (i, e, p)"
  shows "i < length (so_relays h)" "i \<notin> set visited" "\<not> relay_blocked now (so_relayStates h ! i)"
    "e = rs_epoch (so_relayStates h ! i)" "p \<longleftrightarrow> \<not> is_zero (rs_openUntil (so_relayStates h ! i))"
    "so_relayStates (snd (reserveRelay l visited extra now h)) =
       (if p then (so_relayStates h)[i := (so_relayStates h ! i)\<lparr>rs_probing := True\<rparr>] else so_relayStates h)"
    "fst (admitsLeaseLocked l now h)"
proof -
  define k where "k = prune_attempts now (snd (admitsLeaseLocked l now h))"
  have k: "so_relays k = so_relays h" "so_relayStates k = so_relayStates h" by (simp_all add: k_def frame_simps)
  have a: "fst (admitsLeaseLocked l now h)" and f: "find_relay now visited k = Some i"
    using assms by (auto simp: reserveRelay_def case_prod_beta Let_def k_def split: if_splits option.splits)
  show "i < length (so_relays h)" "i \<notin> set visited" "\<not> relay_blocked now (so_relayStates h ! i)"
    using find_relay_sound [OF f] by (simp_all add: k)
  show "fst (admitsLeaseLocked l now h)" by (rule a)
  show "e = rs_epoch (so_relayStates h ! i)" "p \<longleftrightarrow> \<not> is_zero (rs_openUntil (so_relayStates h ! i))"
    "so_relayStates (snd (reserveRelay l visited extra now h)) =
       (if p then (so_relayStates h)[i := (so_relayStates h ! i)\<lparr>rs_probing := True\<rparr>] else so_relayStates h)"
    using assms a f k
    by (auto simp: reserveRelay_def case_prod_beta Let_def k_def [symmetric] set_state_def split: if_splits)
qed

lemma reserve_none:
  "fst (reserveRelay l visited extra now h) = None \<Longrightarrow>
   so_relayStates (snd (reserveRelay l visited extra now h)) = so_relayStates h"
  by (auto simp: reserveRelay_def case_prod_beta Let_def frame_simps split: if_splits option.splits)

text \<open>What the end of an attempt does to the state of its relay.\<close>

definition relay_after :: "relay_policy \<Rightarrow> bool \<Rightarrow> bool \<Rightarrow> bool \<Rightarrow> gotime \<Rightarrow> relayConnectState \<Rightarrow> relayConnectState" where
  "relay_after pol probe success cancelled now st =
     (let st1 = (if probe then st\<lparr>rs_probing := False\<rparr> else st);
          failures = dropWhile (\<lambda>a. time_sub now a \<ge> rp_FailureWindowMS pol * millisecond) (rs_failures st1) @ [now]
      in if cancelled then st1
         else if success then
           (if probe then st1\<lparr>rs_failures := [], rs_openUntil := zero_time, rs_epoch := rs_epoch st + 1\<rparr>
            else st1\<lparr>rs_failures := []\<rparr>)
         else if probe \<or> int (length failures) \<ge> rp_FailureThreshold pol
         then st1\<lparr>rs_failures := [], rs_openUntil := time_add now (rp_CooldownMS pol * millisecond), rs_epoch := rs_epoch st + 1\<rparr>
         else st1\<lparr>rs_failures := failures\<rparr>)"

lemma complete_result:
  assumes "so_policy h = Some pol"
  shows "so_relayStates (snd (completeRelay i e p success cancelled now h)) =
    (if rs_epoch (so_relayStates h ! i) \<noteq> e then so_relayStates h
     else (so_relayStates h)[i := relay_after pol p success cancelled now (so_relayStates h ! i)])"
  using assms by (simp add: completeRelay_def relay_after_def set_state_def Let_def)

section \<open>One probe at a time\<close>

definition relay_inv :: "nat \<Rightarrow> nat \<Rightarrow> (nat \<times> u64 \<times> bool) list \<Rightarrow> relayConnectState \<Rightarrow> bool" where
  "relay_inv i n reserved st \<longleftrightarrow> unat (rs_epoch st) \<le> n
     \<and> (\<forall>e p. (i, e, p) \<in> set reserved \<longrightarrow> unat e \<le> unat (rs_epoch st)
          \<and> (e = rs_epoch st \<longrightarrow> (p \<longleftrightarrow> \<not> is_zero (rs_openUntil st))))
     \<and> count_list reserved (i, rs_epoch st, True) = of_bool (rs_probing st)
     \<and> (rs_probing st \<longrightarrow> \<not> is_zero (rs_openUntil st))"

lemma relay_inv_later: "relay_inv i n reserved st \<Longrightarrow> n \<le> n' \<Longrightarrow> relay_inv i n' reserved st"
  by (simp add: relay_inv_def)

lemma breaker_relay_other:
  assumes "relay_inv j n reserved st" and "i \<noteq> j"
  shows "relay_inv j n ((i, e, p) # reserved) st" "relay_inv j n (remove1 (i, e, p) reserved) st"
  using assms by (auto simp: relay_inv_def dest: set_remove1_subset [THEN subsetD])

lemma relay_inv_reserve:
  assumes "relay_inv i n reserved st" and "\<not> relay_blocked now st" and "p \<longleftrightarrow> \<not> is_zero (rs_openUntil st)"
  shows "relay_inv i n ((i, rs_epoch st, p) # reserved) (if p then st\<lparr>rs_probing := True\<rparr> else st)"
proof (cases p)
  case True
  then have "\<not> rs_probing st" using assms(2,3) by (auto simp: relay_blocked_def)
  with True assms(1,3) show ?thesis unfolding relay_inv_def by simp blast
next
  case False
  with assms(1,3) show ?thesis unfolding relay_inv_def by simp blast
qed

lemma opened_not_zero:
  assumes "clock_ok now" and "0 \<le> d"
  shows "\<not> is_zero (time_add now d)"
  using assms packed_wall_range [of "wall now"]
  by (auto simp: clock_ok_def is_zero_def zero_time_def time_add_def second_def)

lemma relay_after_cases:
  assumes "clock_ok now" and "0 \<le> rp_CooldownMS pol"
  obtains "rs_epoch (relay_after pol p success cancelled now st) = rs_epoch st"
      "rs_openUntil (relay_after pol p success cancelled now st) = rs_openUntil st"
      "rs_probing (relay_after pol p success cancelled now st) = (rs_probing st \<and> \<not> p)"
  | "rs_epoch (relay_after pol p success cancelled now st) = rs_epoch st + 1" "p"
      "rs_probing (relay_after pol p success cancelled now st) = False"
  | "rs_epoch (relay_after pol p success cancelled now st) = rs_epoch st + 1" "\<not> p"
      "\<not> is_zero (rs_openUntil (relay_after pol p success cancelled now st))"
      "rs_probing (relay_after pol p success cancelled now st) = rs_probing st"
proof -
  define big where "big \<longleftrightarrow> rp_FailureThreshold pol \<le> int (length (dropWhile
    (\<lambda>a. time_sub now a \<ge> rp_FailureWindowMS pol * millisecond) (rs_failures st) @ [now]))"
  have z: "\<not> is_zero (time_add now (rp_CooldownMS pol * millisecond))"
    using opened_not_zero [OF assms(1)] assms(2) by (simp add: millisecond_def)
  consider "cancelled" | "\<not> cancelled" "success" "p" | "\<not> cancelled" "success" "\<not> p" | "\<not> cancelled" "\<not> success" "p"
    | "\<not> cancelled" "\<not> success" "\<not> p" "big" | "\<not> cancelled" "\<not> success" "\<not> p" "\<not> big" by blast
  then show thesis
  proof cases
    case 1 then show thesis by (intro that(1)) (auto simp: relay_after_def)
  next
    case 2 then show thesis by (intro that(2)) (simp_all add: relay_after_def)
  next
    case 3 then show thesis by (intro that(1)) (simp_all add: relay_after_def)
  next
    case 4 then show thesis by (intro that(2)) (simp_all add: relay_after_def)
  next
    case 5 then show thesis using z by (intro that(3)) (simp_all add: relay_after_def big_def)
  next
    case 6 then show thesis by (intro that(1)) (simp_all add: relay_after_def big_def)
  qed
qed

lemma relay_inv_complete:
  assumes inv: "relay_inv i n reserved st" and "(i, rs_epoch st, p) \<in> set reserved" and "clock_ok now"
    and "0 \<le> rp_CooldownMS pol" and "Suc n < 2 ^ 64"
  shows "relay_inv i (Suc n) (remove1 (i, rs_epoch st, p) reserved) (relay_after pol p success cancelled now st)"
proof -
  have sub: "x \<in> set (remove1 y reserved) \<Longrightarrow> x \<in> set reserved" for x y by (meson notin_set_remove1)
  have p: "p \<longleftrightarrow> \<not> is_zero (rs_openUntil st)" using inv assms(2) by (auto simp: relay_inv_def)
  have c: "count_list reserved (i, rs_epoch st, True) = of_bool (rs_probing st)" using inv by (simp add: relay_inv_def)
  have e: "unat (rs_epoch st + 1) = unat (rs_epoch st) + 1"
    using inv assms(5) by (simp add: relay_inv_def unat_word_ariths)
  have fresh: "(i, rs_epoch st + 1, q) \<notin> set reserved" for q using inv e by (force simp: relay_inv_def)
  have old: "unat e \<le> unat (rs_epoch st) + 1 \<and> e \<noteq> rs_epoch st + 1" if "(i, e, q) \<in> set reserved" for e q
    using inv that fresh by (force simp: relay_inv_def)
  have bump: "relay_inv i (Suc n) (remove1 (i, rs_epoch st, p) reserved) st'"
    if "rs_epoch st' = rs_epoch st + 1" "\<not> rs_probing st'" for st'
    unfolding relay_inv_def that(1)
  proof (intro conjI allI impI)
    show "unat (rs_epoch st + 1) \<le> Suc n" using inv e by (simp add: relay_inv_def)
    show "count_list (remove1 (i, rs_epoch st, p) reserved) (i, rs_epoch st + 1, True) = of_bool (rs_probing st')"
      using fresh [THEN count_notin] that(2) by simp
    fix e' q assume "(i, e', q) \<in> set (remove1 (i, rs_epoch st, p) reserved)"
    then have "(i, e', q) \<in> set reserved" by (rule sub)
    then show "unat e' \<le> unat (rs_epoch st + 1)" and "e' = rs_epoch st + 1 \<Longrightarrow> q = (\<not> is_zero (rs_openUntil st'))"
      using old [of e' q] e by auto
  qed (use that(2) in simp)
  show ?thesis
  proof (cases rule: relay_after_cases [OF assms(3,4), of p success cancelled st])
    case 1
    then show ?thesis using inv p c assms(2)
      by (cases p) (auto simp: relay_inv_def dest: sub)
  next
    case 2
    then show ?thesis by (intro bump) simp_all
  next
    case 3
    then have "\<not> rs_probing st" using inv p by (auto simp: relay_inv_def)
    with 3 show ?thesis by (intro bump) simp_all
  qed
qed

definition breaker_inv :: "sa_system \<Rightarrow> bool" where
  "breaker_inv s \<longleftrightarrow> length (so_relayStates (sm s)) = length (so_relays (sm s))
     \<and> validRelayConnectPolicy (so_policy (sm s))
     \<and> (\<forall>(i, e, p) \<in> set (sm_reserved s). i < length (so_relays (sm s)))
     \<and> (sm_completed s < 2 ^ 64 \<longrightarrow>
          (\<forall>i < length (so_relays (sm s)). relay_inv i (sm_completed s) (sm_reserved s) (so_relayStates (sm s) ! i)))"

lemma breaker_inv_same:
  assumes "breaker_inv s" and "so_relayStates (sm t) = so_relayStates (sm s)" and "so_relays (sm t) = so_relays (sm s)"
    and "so_policy (sm t) = so_policy (sm s)" and "sm_reserved t = sm_reserved s" and "sm_completed t = sm_completed s"
  shows "breaker_inv t"
  using assms by (simp add: breaker_inv_def)

lemma breaker_inv_step:
  assumes inv: "breaker_inv s" and "sa_step s t"
  shows "breaker_inv t"
  using assms(2)
proof cases
  case (revoke_lease i b fs h)
  with revokeLease_frame [OF revoke_lease(2)] show ?thesis by (intro breaker_inv_same [OF inv]) simp_all
next
  case (reserve now l visited extra)
  show ?thesis
  proof (cases "fst (reserveRelay l visited extra now (sm s))")
    case None
    then show ?thesis
      by (intro breaker_inv_same [OF inv]) (simp_all add: reserve(1) frame_simps reserve_none)
  next
    case (Some r)
    obtain i e p where r: "r = (i, e, p)" by (cases r)
    note rs = reserve_result [OF Some [unfolded r]]
    have "relay_inv j (sm_completed s) ((i, e, p) # sm_reserved s) (so_relayStates (sm t) ! j)"
      if "sm_completed s < 2 ^ 64" "j < length (so_relays (sm s))" for j
      using inv that rs(1) relay_inv_reserve [OF _ rs(3,5), of i "sm_completed s" "sm_reserved s"] rs(4)
        breaker_relay_other(1) [of j "sm_completed s" "sm_reserved s" "so_relayStates (sm s) ! j" i e p]
      by (cases "j = i") (auto simp: breaker_inv_def reserve(1) rs(6) nth_list_update)
    then show ?thesis using inv rs(1,6) Some r by (simp add: breaker_inv_def reserve(1) frame_simps)
  qed
next
  case (complete now i e p success cancelled)
  obtain pol where pol: "so_policy (sm s) = Some pol" using complete(4) by auto
  have cool: "0 \<le> rp_CooldownMS pol" using inv by (simp add: breaker_inv_def pol validRelayConnectPolicy_def)
  have clock: "clock_ok now" using complete(2) by (simp add: tick_def)
  have i: "i < length (so_relays (sm s))" using inv complete(3) by (auto simp: breaker_inv_def)
  have len: "length (so_relayStates (sm s)) = length (so_relays (sm s))" using inv by (simp add: breaker_inv_def)
  let ?st = "\<lambda>j. so_relayStates (sm s) ! j"
  have "relay_inv j (Suc (sm_completed s)) (remove1 (i, e, p) (sm_reserved s)) (so_relayStates (sm t) ! j)"
    if n: "Suc (sm_completed s) < 2 ^ 64" and j: "j < length (so_relays (sm s))" for j
  proof -
    have rj: "relay_inv j (sm_completed s) (sm_reserved s) (?st j)" using inv n j by (simp add: breaker_inv_def)
    consider "j \<noteq> i" | "j = i" "rs_epoch (?st i) \<noteq> e" | "j = i" "rs_epoch (?st i) = e" by blast
    then show ?thesis
    proof cases
      case 1
      then show ?thesis using relay_inv_later [OF breaker_relay_other(2) [OF rj]] len j
        by (simp add: complete(1) complete_result [OF pol])
    next
      case 2
      then have "relay_inv i (Suc (sm_completed s)) (remove1 (i, e, p) (sm_reserved s)) (?st i)"
        using rj unfolding relay_inv_def by (auto dest: set_remove1_subset [THEN subsetD])
      with 2 show ?thesis by (simp add: complete(1) complete_result [OF pol])
    next
      case 3
      then show ?thesis using relay_inv_complete [OF rj _ clock cool n] complete(3) len j
        by (auto simp: complete(1) complete_result [OF pol])
    qed
  qed
  then show ?thesis using inv complete_result [OF pol]
    by (auto simp: breaker_inv_def complete(1) frame_simps dest: set_remove1_subset [THEN subsetD])
qed (rule breaker_inv_same [OF inv]; simp add: frame_simps)+

lemma breaker_inv_init:
  assumes "sa_init uni tag options now s"
  shows "breaker_inv s"
proof -
  obtain h where new: "NewOutbound uni True True tag options now = Inr h" and s: "sm s = h" "sm_reserved s = []" "sm_completed s = 0"
    using assms by (auto simp: sa_init_def)
  have "validRelayConnectPolicy (op_RelayConnectPolicy options)"
    using new by (auto simp: NewOutbound_def guard_simps)
  then show ?thesis using NewOutbound_start [OF new]
    by (simp add: breaker_inv_def s relay_inv_def new_relay_state_def)
qed

interpretation smart_breaker: invariant_system "sa_init uni tag options now" sa_step breaker_inv for uni tag options now
  by unfold_locales (auto intro: breaker_inv_init breaker_inv_step)

text \<open>
  C14. The breaker of a relay is sound in every history (of fewer than \<open>2 ^ 64\<close> finished attempts, so
  that the 64-bit epoch does not wrap). The probing mark is set exactly when one half-open attempt of
  the current epoch is under way, and never two are; a relay whose breaker is open is handed out only
  after its cooldown, as a probe, and when no probe is under way; and the mark is never left behind:
  when no attempt on the relay is under way, only the cooldown can block it.
\<close>

theorem breaker_single_probe:
  assumes "reachable (sa_init uni tag options now0) sa_step s" and "sm_completed s < 2 ^ 64"
    and "i < length (so_relays (sm s))" and "so_relayStates (sm s) ! i = st"
  shows "count_list (sm_reserved s) (i, rs_epoch st, True) = (if rs_probing st then 1 else 0)
    \<and> (fst (reserveRelay l visited extra now (sm s)) = Some (i, e, p) \<and> \<not> is_zero (rs_openUntil st) \<longrightarrow>
         p \<and> \<not> time_before now (rs_openUntil st) \<and> (i, e, True) \<notin> set (sm_reserved s))
    \<and> ((\<forall>e p. (i, e, p) \<notin> set (sm_reserved s)) \<longrightarrow>
         (relay_blocked now st \<longleftrightarrow> \<not> is_zero (rs_openUntil st) \<and> time_before now (rs_openUntil st)))"
proof -
  have inv: "relay_inv i (sm_completed s) (sm_reserved s) st"
    using smart_breaker.inv_reachable [OF assms(1)] assms(2-4) by (auto simp: breaker_inv_def)
  then have count: "count_list (sm_reserved s) (i, rs_epoch st, True) = of_bool (rs_probing st)" by (simp add: relay_inv_def)
  have "p \<and> \<not> time_before now (rs_openUntil st) \<and> (i, e, True) \<notin> set (sm_reserved s)"
    if r: "fst (reserveRelay l visited extra now (sm s)) = Some (i, e, p)" and z: "\<not> is_zero (rs_openUntil st)"
  proof -
    have b: "\<not> rs_probing st" "\<not> time_before now (rs_openUntil st)" "e = rs_epoch st" "p"
      using reserve_result [OF r] z assms(4) by (auto simp: relay_blocked_def)
    then show ?thesis using count by (simp add: count_list_0_iff)
  qed
  moreover have "\<not> rs_probing st" if "\<forall>e p. (i, e, p) \<notin> set (sm_reserved s)"
  proof -
    have "count_list (sm_reserved s) (i, rs_epoch st, True) = 0" using that by (intro count_notin) blast
    with count show ?thesis by simp
  qed
  ultimately show ?thesis using count by (auto simp: relay_blocked_def)
qed

lemma demo_relays: "so_relayStates demo_smart = replicate (length (so_relays demo_smart)) new_relay_state"
  "so_relays demo_smart \<noteq> []"
  using NewOutbound_start [OF demo_smart_ok] by simp_all

theorem breaker_single_probe_witness: "\<not> relay_blocked demo_load (so_relayStates (sm demo_world) ! 0)"
proof -
  have "so_relayStates (sm demo_world) ! 0 = new_relay_state" by (simp add: demo_world_def demo_relays)
  then show ?thesis
    using breaker_single_probe [OF demo_smart_reachable, of 0 new_relay_state] demo_relays(2)
    by (simp add: demo_world_def new_relay_state_def)
qed

section \<open>The loop over attempts\<close>

lemma connect_attempts_visits:
  assumes "connect_attempts alive clock dial l n visited h = ((c, v), h')" and "distinct visited"
  shows "distinct v \<and> length v \<le> length visited + n \<and> (c \<noteq> None \<longrightarrow> length visited < length v)"
  using assms
proof (induction n arbitrary: visited h)
  case (Suc n)
  show ?case
  proof (cases "fst (reserveRelay l visited (length visited > 0) (clock (length visited)) h)")
    case (Some r)
    obtain i e p where r: "r = (i, e, p)" by (cases r)
    have "i \<notin> set visited" using reserve_result(2) [OF Some [unfolded r]] .
    then have d: "distinct (visited @ [i])" using Suc.prems(2) by simp
    obtain h1 where h1: "reserveRelay l visited (length visited > 0) (clock (length visited)) h = (Some (i, e, p), h1)"
      using Some r by (metis prod.collapse)
    show ?thesis using Suc.prems d
      by (auto simp: h1 [unfolded length_greater_0_conv] Let_def split: if_splits prod.splits dest!: Suc.IH)
  qed (use Suc.prems in \<open>auto split: if_splits prod.splits option.splits\<close>)
qed auto

text \<open>
  C16. Reaching a relay is bounded and never tries one twice: under a policy, whatever the network and
  other goroutines do, the relays dialed for one connection are different ones, at most as many as the
  policy allows, and a connection is returned only from a dial.
\<close>

theorem relay_attempts_bounded:
  assumes "so_policy h = Some pol" and "connectRelay alive clock dial l h = ((c, visited), h')"
  shows "distinct visited \<and> length visited \<le> nat (rp_MaxAttempts pol) \<and> (c \<noteq> None \<longrightarrow> visited \<noteq> [])"
  using connect_attempts_visits [of alive clock dial l "nat (rp_MaxAttempts pol)" "[]" h c visited h'] assms
  by (auto simp: connectRelay_def)

definition demo_dial :: "nat \<Rightarrow> smart \<Rightarrow> relay_dial \<times> smart" where
  "demo_dial i h = (\<lparr>rd_conn = None, rd_within = True, rd_cancelled = False, rd_now = demo_load, rd_dead = False\<rparr>, h)"

theorem relay_attempts_bounded_witness:
  "length (snd (fst (connectRelay (\<lambda>_. True) (\<lambda>_. demo_load) demo_dial 0 demo_smart))) \<le> 2"
  using relay_attempts_bounded [OF demo_smart_leases(13), of "\<lambda>_. True" "\<lambda>_. demo_load" demo_dial 0
      "fst (fst (connectRelay (\<lambda>_. True) (\<lambda>_. demo_load) demo_dial 0 demo_smart))"
      "snd (fst (connectRelay (\<lambda>_. True) (\<lambda>_. demo_load) demo_dial 0 demo_smart))"
      "snd (connectRelay (\<lambda>_. True) (\<lambda>_. demo_load) demo_dial 0 demo_smart)"]
  by (simp add: demo_policy_def)

section \<open>What the availability check promises\<close>

lemma available_iff:
  "fst (availableForNewFlows now h) \<longleftrightarrow>
     fst (admitsLocked now h) \<and> int (length (so_flows h)) < so_maxConcurrent h \<and> int (length (pruned now h)) < so_maxNew h
     \<and> (so_policy h \<noteq> None \<longrightarrow> (\<exists>st \<in> set (so_relayStates h). \<not> relay_blocked now st))"
  by (auto simp: availableForNewFlows_def admitsLocked_def case_prod_beta Let_def frame_simps list_ex_iff relay_blocked_def)
    (auto simp: prune_attempts_def admitsLeaseLocked_frame)

lemma admit_iff:
  "fst (admit_connection now c h) \<noteq> None \<longleftrightarrow>
     fst (admitsLocked now h) \<and> int (length (so_flows h)) < so_maxConcurrent h \<and> int (length (pruned now h)) < so_maxNew h"
proof -
  have "fst (admitsLocked now (prune_attempts now h)) = fst (admitsLocked now h)"
    by (simp add: admitsLocked_def admitsLeaseLocked_def prune_attempts_def Let_def)
  moreover have "so_flows (snd (admitsLocked now (prune_attempts now h))) = so_flows h"
    "so_attempts (snd (admitsLocked now (prune_attempts now h))) = pruned now h"
    "so_maxConcurrent (snd (admitsLocked now (prune_attempts now h))) = so_maxConcurrent h"
    "so_maxNew (snd (admitsLocked now (prune_attempts now h))) = so_maxNew h"
    by (simp_all add: admitsLocked_def frame_simps) (simp add: prune_attempts_def)
  ultimately show ?thesis by (auto simp: admit_connection_def case_prod_beta Let_def)
qed

lemma reserve_iff:
  assumes "length (so_relayStates h) = length (so_relays h)"
  shows "fst (reserveRelay l [] False now h) \<noteq> None \<longleftrightarrow>
    fst (admitsLeaseLocked l now h) \<and> (\<exists>st \<in> set (so_relayStates h). \<not> relay_blocked now st)"
proof -
  define k where "k = prune_attempts now (snd (admitsLeaseLocked l now h))"
  have k: "so_relays k = so_relays h" "so_relayStates k = so_relayStates h" by (simp_all add: k_def frame_simps)
  have "fst (reserveRelay l [] False now h) \<noteq> None \<longleftrightarrow> fst (admitsLeaseLocked l now h) \<and> find_relay now [] k \<noteq> None"
    by (auto simp: reserveRelay_def case_prod_beta Let_def k_def split: option.splits)
  moreover have "find_relay now [] k \<noteq> None \<longleftrightarrow> (\<exists>st \<in> set (so_relayStates h). \<not> relay_blocked now st)"
    using find_relay_sound [of now "[]" k] find_relay_complete [of _ k "[]" now] assms
    by (fastforce simp: k in_set_conv_nth)
  ultimately show ?thesis by blast
qed

lemma available_admits:
  assumes "length (so_relayStates h) = length (so_relays h)"
  shows "fst (availableForNewFlows now h) \<longleftrightarrow>
    fst (admit_connection now c h) \<noteq> None
    \<and> (so_policy h \<noteq> None \<longrightarrow> fst (reserveRelay (so_lease h) [] False now (snd (admit_connection now c h))) \<noteq> None)"
proof (cases "fst (admit_connection now c h) \<noteq> None")
  case True
  let ?h = "snd (admit_connection now c h)"
  have a: "fst (admitsLocked now h)" using True admit_iff by blast
  then have "so_auth ?h = so_auth h"
    by (simp add: admits_auth_of admitsLocked_def) (auto simp: admitsLeaseLocked_def set_lease_def Let_def split: if_splits)
  with a have "fst (admitsLeaseLocked (so_lease h) now ?h)"
    by (simp add: admitsLocked_def admitsLeaseLocked_def frame_simps Let_def)
  with True reserve_iff [of ?h "so_lease h" now] assms show ?thesis
    unfolding available_iff using admit_iff [of now c h] by (simp add: frame_simps)
qed (use admit_iff [of now c h] in \<open>simp add: available_iff, blast\<close>)

text \<open>
  C15. The availability check that the service group makes is exact: the outbound calls itself
  available at an instant if and only if a connection arriving at that instant is admitted and, where
  relays have a policy, gets a relay for its first attempt.
\<close>

theorem availability_exact:
  assumes "length (so_relayStates h) = length (so_relays h)"
  shows "fst (availableForNewFlows now h) \<longleftrightarrow>
    fst (admit_connection now c h) \<noteq> None
    \<and> (so_policy h \<noteq> None \<longrightarrow> fst (reserveRelay (so_lease h) [] False now (snd (admit_connection now c h))) \<noteq> None)"
  using assms by (rule available_admits)

theorem availability_exact_witness: "fst (availableForNewFlows demo_load demo_smart)"
proof -
  have l: "length (so_relayStates demo_smart) = length (so_relays demo_smart)" by (simp add: demo_relays)
  have "\<exists>st \<in> set (so_relayStates demo_smart). \<not> relay_blocked demo_load st"
    by (simp add: demo_relays relay_blocked_def new_relay_state_def)
  moreover have "fst (admitsLocked demo_load (snd (admit_connection demo_load 5 demo_smart)))"
    using admit_result(5) [OF demo_admits] admit_connection_frame(5,8,9) [of demo_load 5 demo_smart]
    by (simp add: admitsLocked_def admits_auth_of admitsLeaseLocked_def set_lease_def Let_def split: if_splits)
  ultimately have "fst (reserveRelay (so_lease demo_smart) [] False demo_load (snd (admit_connection demo_load 5 demo_smart))) \<noteq> None"
    using reserve_iff [of "snd (admit_connection demo_load 5 demo_smart)" "so_lease demo_smart" demo_load] l
    by (simp add: frame_simps admitsLocked_def)
  then show ?thesis using availability_exact [OF l, of demo_load 5] demo_admits by simp
qed

end
