(* ===== verification/Rule_Items.thy ===== *)
theory Rule_Items
  imports Net_Addr
begin

text \<open>
  The conditions of routing and DNS rules (\<open>route/rule/rule_item_*.go\<close>): the part of a connection's
  metadata they read, one \<open>Match\<close> function per kind of condition, and the constructors that parse
  something. Libraries outside the repository (socket addresses, DNS messages, domain matchers,
  address sets, compiled regular expressions) and the platform are answers of the record \<open>rule_env\<close>
  or predicates held by the condition.
\<close>

section \<open>Metadata\<close>

record socksaddr =
  sx_Addr :: addr
  sx_Port :: u16
  sx_Fqdn :: string

type_synonym ip_prefix = "addr \<times> nat"

datatype svcb_value = SVCBIPv4Hint "bytes list" | SVCBIPv6Hint "bytes list" | OtherValue

datatype rr_data = RR_A bytes | RR_AAAA bytes | RR_HTTPS "svcb_value list" | RR_Other bytes

record rr =
  rr_header :: bytes
  rr_data :: rr_data

record dns_msg =
  dm_Rcode :: int
  dm_Answer :: "rr list"
  dm_Ns :: "rr list"
  dm_Extra :: "rr list"

record connection_owner =
  co_ProcessPath :: string
  co_AndroidPackageNames :: "string list"
  co_UserName :: string
  co_UserId :: int

text \<open>
  \<open>InboundContext\<close>, as far as matching reads or writes it. The four flags \<open>SourceAddressMatch\<close> to
  \<open>DestinationPortMatch\<close>, which the code only ever clears, are left out.
\<close>

record inbound_context =
  ic_Inbound :: string
  ic_IPVersion :: byte
  ic_Network :: string
  ic_Source :: socksaddr
  ic_Destination :: socksaddr
  ic_TunnelSource :: string
  ic_TunnelDestination :: string
  ic_User :: string
  ic_Outbound :: string
  ic_Protocol :: string
  ic_Domain :: string
  ic_Client :: string
  ic_DestinationAddresses :: "addr list"
  ic_DNSResponse :: "dns_msg option"
  ic_NamedDNSResponses :: "string \<Rightarrow> dns_msg option"
  ic_FromResponse :: bool
  ic_ProcessInfo :: "connection_owner option"
  ic_SourceMACAddress :: "bytes option"
  ic_SourceHostname :: string
  ic_QueryType :: u16
  ic_QueryClientSubnet :: "ip_prefix option"
  ic_QueryDNSSEC :: bool
  ic_MatchSource :: bool
  ic_AcceptEmpty :: bool
  ic_Deferred :: byte
  ic_IgnoreDestination :: bool

definition ResetRuleMatchCache :: "inbound_context \<Rightarrow> inbound_context" where
  "ResetRuleMatchCache m = m\<lparr>ic_Deferred := 0\<rparr>"

definition ResetRuleCache :: "inbound_context \<Rightarrow> inbound_context" where
  "ResetRuleCache m = ResetRuleMatchCache (m\<lparr>ic_MatchSource := False, ic_AcceptEmpty := False\<rparr>)"

section \<open>Surroundings\<close>

record iface =
  if_Name :: string
  if_Type :: nat
  if_Addresses :: "ip_prefix list"
  if_Expensive :: bool
  if_Constrained :: bool

text \<open>
  What matching asks of code outside the repository: \<open>IsIP\<close> and \<open>IsIPv6\<close> of \<open>Socksaddr\<close>,
  \<open>IsPublicAddr\<close>, \<open>AddrFromIP\<close>, \<open>dns.IsDuplicate\<close> and \<open>dns.CanonicalName\<close>; the standard library where
  it depends on Unicode tables or on the platform (\<open>ToLower\<close> and \<open>TrimSpace\<close> outside ASCII, \<open>EqualFold\<close>,
  \<open>filepath.Base\<close>); and the state of the device while the rule is matched.
\<close>

record rule_env =
  re_IsIP :: "socksaddr \<Rightarrow> bool"
  re_IsIPv6 :: "socksaddr \<Rightarrow> bool"
  re_IsPublicAddr :: "addr \<Rightarrow> bool"
  re_AddrFromIP :: "bytes \<Rightarrow> addr"
  re_IsDuplicate :: "rr \<Rightarrow> rr \<Rightarrow> bool"
  re_CanonicalName :: "string \<Rightarrow> string"
  re_uni :: "string \<Rightarrow> string"
  re_trim :: "string \<Rightarrow> string"
  re_EqualFold :: "string \<Rightarrow> string \<Rightarrow> bool"
  re_Base :: "string \<Rightarrow> string"
  re_windows :: bool
  re_android :: bool
  re_clashMode :: "string option"
  re_network :: "iface option"
  re_default :: "iface option"
  re_interfaces :: "iface list"
  re_networks :: "iface list"
  re_mine :: "string list"
  re_SSID :: string
  re_BSSID :: string

datatype rule_error =
    EmptyDomain | EmptyDomainSuffix | BadRegexp nat | BadPrefix nat | BadPortRange string
  | MissingConditions | UnknownRuleType string | UnknownLogicalMode string | SubRule nat rule_error
  | BadIPSet | RuleSetNotFound string | Cause string rule_error | RuleError string | RulePanic string

section \<open>Addresses in DNS responses\<close>

definition hint_addresses :: "rule_env \<Rightarrow> svcb_value \<Rightarrow> addr list" where
  "hint_addresses e v =
     (case v of
        SVCBIPv4Hint ips \<Rightarrow> filter IsValid (map (\<lambda>ip. Unmap (re_AddrFromIP e ip)) ips)
      | SVCBIPv6Hint ips \<Rightarrow> filter IsValid (map (re_AddrFromIP e) ips)
      | OtherValue \<Rightarrow> [])"

definition record_addresses :: "rule_env \<Rightarrow> rr \<Rightarrow> addr list" where
  "record_addresses e r =
     (case rr_data r of
        RR_A ip \<Rightarrow> filter IsValid [re_AddrFromIP e ip]
      | RR_AAAA ip \<Rightarrow> filter IsValid [re_AddrFromIP e ip]
      | RR_HTTPS vs \<Rightarrow> concat (map (hint_addresses e) vs)
      | RR_Other _ \<Rightarrow> [])"

definition DNSResponseAddresses :: "rule_env \<Rightarrow> dns_msg option \<Rightarrow> addr list" where
  "DNSResponseAddresses e r =
     (case r of
        None \<Rightarrow> []
      | Some msg \<Rightarrow> if dm_Rcode msg \<noteq> 0 then [] else concat (map (record_addresses e) (dm_Answer msg)))"

definition DNSResponseAddressesForMatch :: "rule_env \<Rightarrow> inbound_context \<Rightarrow> addr list" where
  "DNSResponseAddressesForMatch e m = DNSResponseAddresses e (ic_DNSResponse m)"

section \<open>Conditions on names and addresses\<close>

definition domain_host :: "inbound_context \<Rightarrow> string" where
  "domain_host m = (if ic_Domain m \<noteq> [] then ic_Domain m else sx_Fqdn (ic_Destination m))"

definition NewDomainItem ::
  "(string list \<Rightarrow> string list \<Rightarrow> string \<Rightarrow> bool) \<Rightarrow> string list \<Rightarrow> string list \<Rightarrow> rule_error + (string \<Rightarrow> bool)" where
  "NewDomainItem NewMatcher domains domainSuffixes =
     (if [] \<in> set domains then Inl EmptyDomain
      else if [] \<in> set domainSuffixes then Inl EmptyDomainSuffix
      else Inr (NewMatcher domains domainSuffixes))"

definition DomainItem_Match :: "rule_env \<Rightarrow> (string \<Rightarrow> bool) \<Rightarrow> inbound_context \<Rightarrow> bool" where
  "DomainItem_Match e matcher m =
     (if domain_host m = [] then False else matcher (to_lower (re_uni e) (domain_host m)))"

definition AdGuardDomainItem_Match :: "rule_env \<Rightarrow> (string \<Rightarrow> bool) \<Rightarrow> inbound_context \<Rightarrow> bool" where
  "AdGuardDomainItem_Match e matcher m =
     (if domain_host m = [] then False else matcher (to_lower (re_uni e) (domain_host m)))"

definition DomainKeywordItem_Match :: "rule_env \<Rightarrow> string list \<Rightarrow> inbound_context \<Rightarrow> bool" where
  "DomainKeywordItem_Match e keywords m =
     (if domain_host m = [] then False
      else list_ex (str_contains (to_lower (re_uni e) (domain_host m))) keywords)"

text \<open>Compiling a list of expressions stops at the first one that does not compile and names its index.\<close>

fun compile_all :: "(string \<Rightarrow> (string \<Rightarrow> bool) option) \<Rightarrow> nat \<Rightarrow> string list \<Rightarrow> rule_error + (string \<Rightarrow> bool) list" where
  "compile_all compile i [] = Inr []"
| "compile_all compile i (x # xs) =
     (case compile x of
        None \<Rightarrow> Inl (BadRegexp i)
      | Some r \<Rightarrow> (case compile_all compile (i + 1) xs of Inl err \<Rightarrow> Inl err | Inr rs \<Rightarrow> Inr (r # rs)))"

definition DomainRegexItem_Match :: "rule_env \<Rightarrow> (string \<Rightarrow> bool) list \<Rightarrow> inbound_context \<Rightarrow> bool" where
  "DomainRegexItem_Match e matchers m =
     (if domain_host m = [] then False
      else list_ex (\<lambda>r. r (to_lower (re_uni e) (domain_host m))) matchers)"

text \<open>
  \<open>netip.ParsePrefix\<close>: the text before the last slash is an address without zone, the text after it a
  number without leading zero that the family allows.
\<close>

definition ParsePrefix :: "string \<Rightarrow> ip_prefix option" where
  "ParsePrefix s =
     (if CHR ''/'' \<notin> set s then None
      else let bits = rev (takeWhile (\<lambda>c. c \<noteq> CHR ''/'') (rev s));
               host = take (length s - length bits - 1) s
      in case ParseAddr host of
           None \<Rightarrow> None
         | Some a \<Rightarrow>
             if Is6 a \<and> Zone a \<noteq> [] then None
             else if bits = [] \<or> \<not> list_all is_digit bits \<or> length bits > 1 \<and> hd bits = CHR ''0'' then None
             else let n = foldl (\<lambda>n c. n * 10 + digit_val c) 0 bits in
               if n > (if Is6 a then 128 else 32) then None else Some (a, n))"

text \<open>The prefixes and single addresses of \<open>NewIPCIDRItem\<close>; the set is built by the library.\<close>

fun parse_cidrs :: "nat \<Rightarrow> string list \<Rightarrow> rule_error + (ip_prefix + addr) list" where
  "parse_cidrs i [] = Inr []"
| "parse_cidrs i (s # ss) =
     (case ParsePrefix s of
        Some p \<Rightarrow> (case parse_cidrs (i + 1) ss of Inl err \<Rightarrow> Inl err | Inr ps \<Rightarrow> Inr (Inl p # ps))
      | None \<Rightarrow>
          (case ParseAddr s of
             Some a \<Rightarrow> (case parse_cidrs (i + 1) ss of Inl err \<Rightarrow> Inl err | Inr ps \<Rightarrow> Inr (Inr a # ps))
           | None \<Rightarrow> Inl (BadPrefix i)))"

definition NewIPCIDRItem ::
  "((ip_prefix + addr) list \<Rightarrow> (addr \<Rightarrow> bool) option) \<Rightarrow> string list \<Rightarrow> rule_error + (addr \<Rightarrow> bool)" where
  "NewIPCIDRItem IPSet prefixStrings =
     (case parse_cidrs 0 prefixStrings of
        Inl err \<Rightarrow> Inl err
      | Inr ps \<Rightarrow> (case IPSet ps of None \<Rightarrow> Inl BadIPSet | Some s \<Rightarrow> Inr s))"

definition IPCIDRItem_Match :: "rule_env \<Rightarrow> (addr \<Rightarrow> bool) \<Rightarrow> bool \<Rightarrow> inbound_context \<Rightarrow> bool" where
  "IPCIDRItem_Match e ipSet isSource m =
     (if isSource \<or> ic_MatchSource m then ipSet (sx_Addr (ic_Source m))
      else if ic_FromResponse m then
        let addresses = DNSResponseAddressesForMatch e m in
          if addresses = [] then ic_AcceptEmpty m else list_ex ipSet addresses
      else if re_IsIP e (ic_Destination m) then ipSet (sx_Addr (ic_Destination m))
      else if ic_DestinationAddresses m \<noteq> [] then list_ex ipSet (ic_DestinationAddresses m)
      else ic_AcceptEmpty m)"

definition IPIsPrivateItem_Match :: "rule_env \<Rightarrow> bool \<Rightarrow> inbound_context \<Rightarrow> bool" where
  "IPIsPrivateItem_Match e isSource m =
     (if isSource then \<not> re_IsPublicAddr e (sx_Addr (ic_Source m))
      else if ic_FromResponse m then list_ex (\<lambda>a. \<not> re_IsPublicAddr e a) (DNSResponseAddressesForMatch e m)
      else if IsValid (sx_Addr (ic_Destination m)) then \<not> re_IsPublicAddr e (sx_Addr (ic_Destination m))
      else list_ex (\<lambda>a. \<not> re_IsPublicAddr e a) (ic_DestinationAddresses m))"

definition IPAcceptAnyItem_Match :: "rule_env \<Rightarrow> inbound_context \<Rightarrow> bool" where
  "IPAcceptAnyItem_Match e m =
     (if ic_FromResponse m then DNSResponseAddressesForMatch e m \<noteq> []
      else ic_DestinationAddresses m \<noteq> [])"

definition IPVersionItem_Match :: "rule_env \<Rightarrow> bool \<Rightarrow> inbound_context \<Rightarrow> bool" where
  "IPVersionItem_Match e isIPv6 m =
     ((ic_IPVersion m \<noteq> 0 \<and> (ic_IPVersion m = 6) = isIPv6) \<or>
      (re_IsIP e (ic_Destination m) \<and> re_IsIPv6 e (ic_Destination m) = isIPv6))"

section \<open>Conditions on ports\<close>

definition PortItem_Match :: "u16 list \<Rightarrow> bool \<Rightarrow> inbound_context \<Rightarrow> bool" where
  "PortItem_Match ports isSource m =
     (if isSource then sx_Port (ic_Source m) \<in> set ports else sx_Port (ic_Destination m) \<in> set ports)"

text \<open>One entry of \<open>port_range\<close>: either end may be left out.\<close>

definition parse_port_range :: "string \<Rightarrow> rule_error + u16 \<times> u16" where
  "parse_port_range portRange =
     (if CHR '':'' \<notin> set portRange then Inl (BadPortRange portRange)
      else let lo = takeWhile (\<lambda>c. c \<noteq> CHR '':'') portRange;
               hi = drop (length lo + 1) portRange
      in case (if lo = [] then Some 0 else parse_uint16 lo) of
           None \<Rightarrow> Inl (BadPortRange portRange)
         | Some first \<Rightarrow>
             (case (if hi = [] then Some 0xFFFF else parse_uint16 hi) of
                None \<Rightarrow> Inl (BadPortRange portRange)
              | Some final \<Rightarrow> Inr (first, final)))"

fun NewPortRangeItem :: "string list \<Rightarrow> rule_error + (u16 \<times> u16) list" where
  "NewPortRangeItem [] = Inr []"
| "NewPortRangeItem (portRange # rangeList) =
     (case parse_port_range portRange of
        Inl err \<Rightarrow> Inl err
      | Inr r \<Rightarrow> (case NewPortRangeItem rangeList of Inl err \<Rightarrow> Inl err | Inr rs \<Rightarrow> Inr (r # rs)))"

definition PortRangeItem_Match :: "(u16 \<times> u16) list \<Rightarrow> bool \<Rightarrow> inbound_context \<Rightarrow> bool" where
  "PortRangeItem_Match ranges isSource m =
     (let port = (if isSource then sx_Port (ic_Source m) else sx_Port (ic_Destination m))
      in list_ex (\<lambda>(first, final). port \<ge> first \<and> port \<le> final) ranges)"

section \<open>Conditions on the connection\<close>

definition InboundItem_Match :: "string list \<Rightarrow> inbound_context \<Rightarrow> bool" where
  "InboundItem_Match inbounds m = (ic_Inbound m \<in> set inbounds)"

definition NetworkItem_Match :: "string list \<Rightarrow> inbound_context \<Rightarrow> bool" where
  "NetworkItem_Match networks m = (ic_Network m \<in> set networks)"

definition ProtocolItem_Match :: "string list \<Rightarrow> inbound_context \<Rightarrow> bool" where
  "ProtocolItem_Match protocols m = (ic_Protocol m \<in> set protocols)"

definition ClientItem_Match :: "string list \<Rightarrow> inbound_context \<Rightarrow> bool" where
  "ClientItem_Match clients m = (ic_Client m \<in> set clients)"

definition AuthUserItem_Match :: "string list \<Rightarrow> inbound_context \<Rightarrow> bool" where
  "AuthUserItem_Match users m = (ic_User m \<in> set users)"

definition TunnelSourceItem_Match :: "string list \<Rightarrow> inbound_context \<Rightarrow> bool" where
  "TunnelSourceItem_Match sources m = (ic_TunnelSource m \<in> set sources)"

definition TunnelDestinationItem_Match :: "string list \<Rightarrow> inbound_context \<Rightarrow> bool" where
  "TunnelDestinationItem_Match destinations m = (ic_TunnelDestination m \<in> set destinations)"

definition OutboundItem_Match :: "string list \<Rightarrow> inbound_context \<Rightarrow> bool" where
  "OutboundItem_Match outbounds m =
     (if ''any'' \<in> set outbounds then ic_Outbound m \<noteq> []
      else ic_Outbound m \<in> set (filter (\<lambda>x. x \<noteq> ''any'') outbounds))"

definition SourceHostnameItem_Match :: "string list \<Rightarrow> inbound_context \<Rightarrow> bool" where
  "SourceHostnameItem_Match hostnames m =
     (if ic_SourceHostname m = [] then False else ic_SourceHostname m \<in> set hostnames)"

section \<open>Conditions on the process\<close>

definition UserItem_Match :: "string list \<Rightarrow> inbound_context \<Rightarrow> bool" where
  "UserItem_Match users m =
     (case ic_ProcessInfo m of
        None \<Rightarrow> False
      | Some p \<Rightarrow> if co_UserName p = [] then False else co_UserName p \<in> set users)"

definition UserIdItem_Match :: "int list \<Rightarrow> inbound_context \<Rightarrow> bool" where
  "UserIdItem_Match userIds m =
     (case ic_ProcessInfo m of
        None \<Rightarrow> False
      | Some p \<Rightarrow> if co_UserId p = -1 then False else co_UserId p \<in> set userIds)"

definition PackageNameItem_Match :: "string list \<Rightarrow> inbound_context \<Rightarrow> bool" where
  "PackageNameItem_Match packageNames m =
     (case ic_ProcessInfo m of
        None \<Rightarrow> False
      | Some p \<Rightarrow> if co_AndroidPackageNames p = [] then False
                  else list_ex (\<lambda>n. n \<in> set packageNames) (co_AndroidPackageNames p))"

definition PackageNameRegexItem_Match :: "(string \<Rightarrow> bool) list \<Rightarrow> inbound_context \<Rightarrow> bool" where
  "PackageNameRegexItem_Match matchers m =
     (case ic_ProcessInfo m of
        None \<Rightarrow> False
      | Some p \<Rightarrow> if co_AndroidPackageNames p = [] then False
                  else list_ex (\<lambda>r. list_ex r (co_AndroidPackageNames p)) matchers)"

definition NewProcessItem :: "rule_env \<Rightarrow> string list \<Rightarrow> string list" where
  "NewProcessItem e names = map (\<lambda>n. if re_windows e then to_lower (re_uni e) n else n) names"

definition ProcessItem_Match :: "rule_env \<Rightarrow> string list \<Rightarrow> inbound_context \<Rightarrow> bool" where
  "ProcessItem_Match e processMap m =
     (case ic_ProcessInfo m of
        None \<Rightarrow> False
      | Some p \<Rightarrow>
          if co_ProcessPath p = [] then False
          else let processName = re_Base e (co_ProcessPath p)
            in (if re_windows e then to_lower (re_uni e) processName else processName) \<in> set processMap)"

definition ProcessPathItem_Match :: "rule_env \<Rightarrow> string list \<Rightarrow> inbound_context \<Rightarrow> bool" where
  "ProcessPathItem_Match e processes m =
     (case ic_ProcessInfo m of
        None \<Rightarrow> False
      | Some p \<Rightarrow>
          if co_ProcessPath p \<noteq> [] \<and> co_ProcessPath p \<in> set processes then True
          else re_android e \<and> list_ex (\<lambda>n. n \<in> set processes) (co_AndroidPackageNames p))"

definition ProcessPathRegexItem_Match :: "(string \<Rightarrow> bool) list \<Rightarrow> inbound_context \<Rightarrow> bool" where
  "ProcessPathRegexItem_Match matchers m =
     (case ic_ProcessInfo m of
        None \<Rightarrow> False
      | Some p \<Rightarrow> if co_ProcessPath p = [] then False else list_ex (\<lambda>r. r (co_ProcessPath p)) matchers)"

section \<open>Conditions on DNS queries and responses\<close>

definition QueryTypeItem_Match :: "u16 list \<Rightarrow> inbound_context \<Rightarrow> bool" where
  "QueryTypeItem_Match types m = (if ic_QueryType m = 0 then False else ic_QueryType m \<in> set types)"

definition QueryDNSSECItem_Match :: "inbound_context \<Rightarrow> bool" where
  "QueryDNSSECItem_Match m = ic_QueryDNSSEC m"

definition QueryClientSubnetItem_Match :: "ip_prefix list \<Rightarrow> inbound_context \<Rightarrow> bool" where
  "QueryClientSubnetItem_Match prefixes m =
     (case ic_QueryClientSubnet m of
        None \<Rightarrow> False
      | Some (a, bits) \<Rightarrow> list_ex (\<lambda>p. bits \<ge> snd p \<and> prefix_contains p a) prefixes)"

definition DNSResponseRCodeItem_Match :: "int \<Rightarrow> inbound_context \<Rightarrow> bool" where
  "DNSResponseRCodeItem_Match rcode m =
     (case ic_DNSResponse m of None \<Rightarrow> False | Some r \<Rightarrow> dm_Rcode r = rcode)"

definition DNSRecordOptions_Match :: "rule_env \<Rightarrow> rr option \<Rightarrow> rr \<Rightarrow> bool" where
  "DNSRecordOptions_Match e expected r =
     (case expected of None \<Rightarrow> False | Some x \<Rightarrow> re_IsDuplicate e x r)"

definition DNSResponseRecordItem_Match ::
  "rule_env \<Rightarrow> rr option list \<Rightarrow> (dns_msg \<Rightarrow> rr list) \<Rightarrow> inbound_context \<Rightarrow> bool" where
  "DNSResponseRecordItem_Match e records selector m =
     (case ic_DNSResponse m of
        None \<Rightarrow> False
      | Some r \<Rightarrow> list_ex (\<lambda>x. list_ex (DNSRecordOptions_Match e x) (selector r)) records)"

section \<open>Conditions on the device\<close>

definition NetworkTypeItem_Match :: "rule_env \<Rightarrow> nat list \<Rightarrow> bool" where
  "NetworkTypeItem_Match e types = (case re_network e of None \<Rightarrow> False | Some i \<Rightarrow> if_Type i \<in> set types)"

definition NetworkIsExpensiveItem_Match :: "rule_env \<Rightarrow> bool" where
  "NetworkIsExpensiveItem_Match e = (case re_network e of None \<Rightarrow> False | Some i \<Rightarrow> if_Expensive i)"

definition NetworkIsConstrainedItem_Match :: "rule_env \<Rightarrow> bool" where
  "NetworkIsConstrainedItem_Match e = (case re_network e of None \<Rightarrow> False | Some i \<Rightarrow> if_Constrained i)"

text \<open>\<open>Prefix.Overlaps\<close> of the standard library, for valid prefixes.\<close>

definition prefix_overlaps :: "ip_prefix \<Rightarrow> ip_prefix \<Rightarrow> bool" where
  "prefix_overlaps p q = prefix_contains (fst p, min (snd p) (snd q)) (fst q)"

definition DefaultInterfaceAddressItem_Match :: "rule_env \<Rightarrow> ip_prefix list \<Rightarrow> bool" where
  "DefaultInterfaceAddressItem_Match e addresses =
     (case re_default e of
        None \<Rightarrow> False
      | Some i \<Rightarrow> list_all (\<lambda>a. \<not> list_all (\<lambda>it. \<not> prefix_overlaps a it) (if_Addresses i)) addresses)"

definition InterfaceAddressItem_Match :: "rule_env \<Rightarrow> (string \<times> ip_prefix list) list \<Rightarrow> bool" where
  "InterfaceAddressItem_Match e entries =
     list_all (\<lambda>(ifName, addresses).
       case find (\<lambda>i. if_Name i = ifName) (re_interfaces e) of
         None \<Rightarrow> False
       | Some i \<Rightarrow>
           if_Name i \<noteq> [] \<and>
           \<not> list_all (\<lambda>a. list_all (\<lambda>it. \<not> prefix_overlaps a it) (if_Addresses i)) addresses) entries"

definition NetworkInterfaceAddressItem_Match :: "rule_env \<Rightarrow> (nat \<times> ip_prefix list) list \<Rightarrow> bool" where
  "NetworkInterfaceAddressItem_Match e entries =
     list_all (\<lambda>(ifType, addresses).
       list_ex (\<lambda>i. if_Name i \<notin> set (re_mine e) \<and> if_Type i = ifType \<and>
                    list_ex (\<lambda>it. list_ex (\<lambda>p. prefix_overlaps p it) addresses) (if_Addresses i))
         (re_networks e)) entries"

definition WIFISSIDItem_Match :: "rule_env \<Rightarrow> string list \<Rightarrow> bool" where
  "WIFISSIDItem_Match e ssids = (re_SSID e \<in> set ssids)"

text \<open>
  Hardware addresses of the standard library: printed as pairs of hexadecimal digits, read in the
  three notations with two-digit groups after colons or dashes or four-digit groups after dots.
\<close>

definition hex_char :: "nat \<Rightarrow> char" where
  "hex_char n = (if n < 10 then char_of (n + 48) else char_of (n + 87))"

definition hex_byte :: "byte \<Rightarrow> string" where
  "hex_byte b = [hex_char (unat b div 16), hex_char (unat b mod 16)]"

fun mac_string :: "bytes \<Rightarrow> string" where
  "mac_string [] = []"
| "mac_string [b] = hex_byte b"
| "mac_string (b # bs) = hex_byte b @ CHR '':'' # mac_string bs"

fun hex_pair :: "string \<Rightarrow> byte option" where
  "hex_pair [h, l] =
     (case (hex_val h, hex_val l) of (Some a, Some b) \<Rightarrow> Some (of_nat (a * 16 + b)) | _ \<Rightarrow> None)"
| "hex_pair _ = None"

fun hex_decode :: "string \<Rightarrow> bytes option" where
  "hex_decode [] = Some []"
| "hex_decode (h # l # s) =
     (case hex_pair [h, l] of None \<Rightarrow> None | Some b \<Rightarrow> map_option ((#) b) (hex_decode s))"
| "hex_decode [_] = None"

definition ParseMAC :: "string \<Rightarrow> bytes option" where
  "ParseMAC s =
     (if length s < 14 then None
      else if s ! 2 = CHR '':'' \<or> s ! 2 = CHR ''-'' then
        let n = (length s + 1) div 3 in
          if (length s + 1) mod 3 \<noteq> 0 \<or> n \<notin> {6, 8, 20} then None
          else if \<not> list_all (\<lambda>w. length w = 2) (split_on (s ! 2) s) then None
          else hex_decode (concat (split_on (s ! 2) s))
      else if s ! 4 = CHR ''.'' then
        let n = 2 * (length s + 1) div 5 in
          if (length s + 1) mod 5 \<noteq> 0 \<or> n \<notin> {6, 8, 20} then None
          else if \<not> list_all (\<lambda>w. length w = 4) (split_on (CHR ''.'') s) then None
          else hex_decode (concat (split_on (CHR ''.'') s))
      else None)"

definition ascii_space :: "char \<Rightarrow> bool" where
  "ascii_space c = (let n = (of_char c :: nat) in n = 32 \<or> 9 \<le> n \<and> n \<le> 13)"

definition trim_space :: "rule_env \<Rightarrow> string \<Rightarrow> string" where
  "trim_space e s =
     (if list_all (\<lambda>c. (of_char c :: nat) < 128) s
      then rev (dropWhile ascii_space (rev (dropWhile ascii_space s))) else re_trim e s)"

definition NormalizeWIFIBSSID :: "rule_env \<Rightarrow> string \<Rightarrow> string" where
  "NormalizeWIFIBSSID e raw =
     (let bssid = trim_space e raw in
      if bssid = [] then []
      else case ParseMAC bssid of
        Some parsed \<Rightarrow> if length parsed = 6 then mac_string parsed else bssid
      | None \<Rightarrow>
          if length bssid = 12 then
            (case hex_decode bssid of Some decoded \<Rightarrow> mac_string decoded | None \<Rightarrow> bssid)
          else bssid)"

definition WIFIBSSIDItem_Match :: "rule_env \<Rightarrow> string list \<Rightarrow> bool" where
  "WIFIBSSIDItem_Match e bssids = (re_BSSID e \<in> set (map (NormalizeWIFIBSSID e) bssids))"

definition SourceMACAddressItem_Match :: "string list \<Rightarrow> inbound_context \<Rightarrow> bool" where
  "SourceMACAddressItem_Match addresses m =
     (case ic_SourceMACAddress m of
        None \<Rightarrow> False
      | Some hw \<Rightarrow>
          mac_string hw \<in> set (map (\<lambda>a. case ParseMAC a of Some p \<Rightarrow> mac_string p | None \<Rightarrow> a) addresses))"

definition ClashModeItem_Match :: "rule_env \<Rightarrow> string \<Rightarrow> bool" where
  "ClashModeItem_Match e mode = (case re_clashMode e of None \<Rightarrow> False | Some cur \<Rightarrow> re_EqualFold e cur mode)"

text \<open>
  The outbounds of \<open>preferred_by\<close>, by what they answer for a domain and for an address. They are handed
  the metadata too; none of them reads it.
\<close>

record preferring =
  pf_domain :: "string \<Rightarrow> bool"
  pf_address :: "addr \<Rightarrow> bool"

definition PreferredByItem_Match :: "rule_env \<Rightarrow> preferring list \<Rightarrow> inbound_context \<Rightarrow> bool" where
  "PreferredByItem_Match e outbounds m =
     ((domain_host m \<noteq> [] \<and> list_ex (\<lambda>x. pf_domain x (domain_host m)) outbounds) \<or>
      (re_IsIP e (ic_Destination m) \<and> list_ex (\<lambda>x. pf_address x (sx_Addr (ic_Destination m))) outbounds) \<or>
      list_ex (\<lambda>a. list_ex (\<lambda>x. pf_address x a) outbounds) (ic_DestinationAddresses m))"

definition PreferredByDNSItem_Match :: "rule_env \<Rightarrow> (string \<Rightarrow> bool) list \<Rightarrow> inbound_context \<Rightarrow> bool" where
  "PreferredByDNSItem_Match e transports m =
     (if domain_host m = [] then False
      else list_ex (\<lambda>t. t (re_CanonicalName e (domain_host m))) transports)"

section \<open>All conditions\<close>

datatype (plugins only: code size) rule_item =
    DomainItem "string \<Rightarrow> bool" | AdGuardDomainItem "string \<Rightarrow> bool"
  | DomainKeywordItem "string list" | DomainRegexItem "(string \<Rightarrow> bool) list"
  | IPCIDRItem "addr \<Rightarrow> bool" bool | IPIsPrivateItem bool | IPAcceptAnyItem | IPVersionItem bool
  | PortItem "u16 list" bool | PortRangeItem "(u16 \<times> u16) list" bool
  | InboundItem "string list" | NetworkItem "string list" | ProtocolItem "string list"
  | ClientItem "string list" | AuthUserItem "string list" | TunnelSourceItem "string list"
  | TunnelDestinationItem "string list" | OutboundItem "string list" | SourceHostnameItem "string list"
  | UserItem "string list" | UserIdItem "int list" | PackageNameItem "string list"
  | PackageNameRegexItem "(string \<Rightarrow> bool) list" | ProcessItem "string list"
  | ProcessPathItem "string list" | ProcessPathRegexItem "(string \<Rightarrow> bool) list"
  | QueryTypeItem "u16 list" | QueryDNSSECItem | QueryClientSubnetItem "ip_prefix list"
  | DNSResponseRCodeItem int | DNSResponseRecordItem "rr option list" "dns_msg \<Rightarrow> rr list"
  | NetworkTypeItem "nat list" | NetworkIsExpensiveItem | NetworkIsConstrainedItem
  | DefaultInterfaceAddressItem "ip_prefix list" | InterfaceAddressItem "(string \<times> ip_prefix list) list"
  | NetworkInterfaceAddressItem "(nat \<times> ip_prefix list) list" | WIFISSIDItem "string list"
  | WIFIBSSIDItem "string list" | SourceMACAddressItem "string list" | ClashModeItem string
  | PreferredByItem "preferring list" | PreferredByDNSItem "(string \<Rightarrow> bool) list"

fun item_match :: "rule_env \<Rightarrow> inbound_context \<Rightarrow> rule_item \<Rightarrow> bool" where
  "item_match e m (DomainItem f) = DomainItem_Match e f m"
| "item_match e m (AdGuardDomainItem f) = AdGuardDomainItem_Match e f m"
| "item_match e m (DomainKeywordItem ks) = DomainKeywordItem_Match e ks m"
| "item_match e m (DomainRegexItem rs) = DomainRegexItem_Match e rs m"
| "item_match e m (IPCIDRItem s src) = IPCIDRItem_Match e s src m"
| "item_match e m (IPIsPrivateItem src) = IPIsPrivateItem_Match e src m"
| "item_match e m IPAcceptAnyItem = IPAcceptAnyItem_Match e m"
| "item_match e m (IPVersionItem v6) = IPVersionItem_Match e v6 m"
| "item_match e m (PortItem ps src) = PortItem_Match ps src m"
| "item_match e m (PortRangeItem rs src) = PortRangeItem_Match rs src m"
| "item_match e m (InboundItem xs) = InboundItem_Match xs m"
| "item_match e m (NetworkItem xs) = NetworkItem_Match xs m"
| "item_match e m (ProtocolItem xs) = ProtocolItem_Match xs m"
| "item_match e m (ClientItem xs) = ClientItem_Match xs m"
| "item_match e m (AuthUserItem xs) = AuthUserItem_Match xs m"
| "item_match e m (TunnelSourceItem xs) = TunnelSourceItem_Match xs m"
| "item_match e m (TunnelDestinationItem xs) = TunnelDestinationItem_Match xs m"
| "item_match e m (OutboundItem xs) = OutboundItem_Match xs m"
| "item_match e m (SourceHostnameItem xs) = SourceHostnameItem_Match xs m"
| "item_match e m (UserItem xs) = UserItem_Match xs m"
| "item_match e m (UserIdItem xs) = UserIdItem_Match xs m"
| "item_match e m (PackageNameItem xs) = PackageNameItem_Match xs m"
| "item_match e m (PackageNameRegexItem rs) = PackageNameRegexItem_Match rs m"
| "item_match e m (ProcessItem xs) = ProcessItem_Match e xs m"
| "item_match e m (ProcessPathItem xs) = ProcessPathItem_Match e xs m"
| "item_match e m (ProcessPathRegexItem rs) = ProcessPathRegexItem_Match rs m"
| "item_match e m (QueryTypeItem ts) = QueryTypeItem_Match ts m"
| "item_match e m QueryDNSSECItem = QueryDNSSECItem_Match m"
| "item_match e m (QueryClientSubnetItem ps) = QueryClientSubnetItem_Match ps m"
| "item_match e m (DNSResponseRCodeItem c) = DNSResponseRCodeItem_Match c m"
| "item_match e m (DNSResponseRecordItem rs sel) = DNSResponseRecordItem_Match e rs sel m"
| "item_match e m (NetworkTypeItem ts) = NetworkTypeItem_Match e ts"
| "item_match e m NetworkIsExpensiveItem = NetworkIsExpensiveItem_Match e"
| "item_match e m NetworkIsConstrainedItem = NetworkIsConstrainedItem_Match e"
| "item_match e m (DefaultInterfaceAddressItem ps) = DefaultInterfaceAddressItem_Match e ps"
| "item_match e m (InterfaceAddressItem es) = InterfaceAddressItem_Match e es"
| "item_match e m (NetworkInterfaceAddressItem es) = NetworkInterfaceAddressItem_Match e es"
| "item_match e m (WIFISSIDItem xs) = WIFISSIDItem_Match e xs"
| "item_match e m (WIFIBSSIDItem xs) = WIFIBSSIDItem_Match e xs"
| "item_match e m (SourceMACAddressItem xs) = SourceMACAddressItem_Match xs m"
| "item_match e m (ClashModeItem mode) = ClashModeItem_Match e mode"
| "item_match e m (PreferredByItem xs) = PreferredByItem_Match e xs m"
| "item_match e m (PreferredByDNSItem ts) = PreferredByDNSItem_Match e ts m"

end
