(* ===== verification/Rule_Match.thy ===== *)
theory Rule_Match
  imports Rule_Items
begin

unbundle bit_operations_syntax

text \<open>
  Matching of routing, DNS and headless rules (\<open>rule_abstract.go\<close>, \<open>match_state.go\<close>,
  \<open>rule_item_rule_set.go\<close> and the matching methods of \<open>rule_dns.go\<close>). The metadata is passed as a
  state: matching prepares it for nested rules, restores it, and leaves in it the groups of conditions
  whose answer is deferred until the addresses of a DNS response are known.
\<close>

section \<open>Groups of conditions\<close>

definition ruleMatchSourceAddress :: byte where "ruleMatchSourceAddress = 1"
definition ruleMatchSourcePort :: byte where "ruleMatchSourcePort = 2"
definition ruleMatchDestinationAddress :: byte where "ruleMatchDestinationAddress = 4"
definition ruleMatchDestinationPort :: byte where "ruleMatchDestinationPort = 8"

record group_match =
  gm_required :: byte
  gm_satisfied :: byte

definition group_done :: "group_match \<Rightarrow> bool" where
  "group_done g = (gm_required g AND NOT (gm_satisfied g) = 0)"

definition mergeWith :: "group_match \<Rightarrow> group_match \<Rightarrow> group_match" where
  "mergeWith g other =
     \<lparr>gm_required = gm_required g OR gm_required other, gm_satisfied = gm_satisfied g OR gm_satisfied other\<rparr>"

record match_snapshot =
  ms_source :: bool
  ms_empty :: bool
  ms_deferred :: byte

definition snapshotRuleMatch :: "inbound_context \<Rightarrow> match_snapshot" where
  "snapshotRuleMatch m = \<lparr>ms_source = ic_MatchSource m, ms_empty = ic_AcceptEmpty m, ms_deferred = ic_Deferred m\<rparr>"

definition snapshot_restore :: "match_snapshot \<Rightarrow> inbound_context \<Rightarrow> inbound_context" where
  "snapshot_restore s m =
     m\<lparr>ic_MatchSource := ms_source s, ic_AcceptEmpty := ms_empty s, ic_Deferred := ms_deferred s\<rparr>"

section \<open>Rules\<close>

text \<open>
  The conditions of a default rule by group. \<open>dr_allItems\<close> is \<open>allItems\<close> without the rule-set item,
  which a rule holds beside it.
\<close>

record default_rule =
  dr_items :: "rule_item list"
  dr_sourceAddressItems :: "rule_item list"
  dr_sourcePortItems :: "rule_item list"
  dr_destinationAddressItems :: "rule_item list"
  dr_destinationIPCIDRItems :: "rule_item list"
  dr_destinationPortItems :: "rule_item list"
  dr_allItems :: "rule_item list"

datatype logical_mode = LogicalTypeAnd | LogicalTypeOr

text \<open>
  A rule without catalog window: a default rule with its rule sets, its inversion and, for a DNS rule
  with \<open>match_response\<close>, the tag of the response it matches; or a logical rule. A rule set is the list
  of its headless rules.
\<close>

datatype rule =
    DefaultRule default_rule "rule_set_item option" bool "string option"
  | LogicalRule logical_mode "rule list" bool
and rule_set_item = RuleSetItem "rule list list" bool bool

definition matchAnyItem :: "rule_env \<Rightarrow> rule_item list \<Rightarrow> inbound_context \<Rightarrow> bool" where
  "matchAnyItem e items m = list_ex (item_match e m) items"

definition group_has :: "byte \<Rightarrow> byte \<Rightarrow> bool" where
  "group_has s target = (s AND target \<noteq> 0)"

definition destinationIPCIDRMatchesSource :: "default_rule \<Rightarrow> inbound_context \<Rightarrow> bool" where
  "destinationIPCIDRMatchesSource d m = (ic_MatchSource m \<and> dr_destinationIPCIDRItems d \<noteq> [])"

definition destinationIPCIDRMatchesDestination :: "default_rule \<Rightarrow> inbound_context \<Rightarrow> bool" where
  "destinationIPCIDRMatchesDestination d m =
     (\<not> ic_IgnoreDestination m \<and> \<not> ic_MatchSource m \<and> dr_destinationIPCIDRItems d \<noteq> [])"

text \<open>A group becomes required, and satisfied if its conditions match.\<close>

definition require_group :: "byte \<Rightarrow> bool \<Rightarrow> group_match \<Rightarrow> group_match" where
  "require_group b sat g =
     \<lparr>gm_required = gm_required g OR b, gm_satisfied = (if sat then gm_satisfied g OR b else gm_satisfied g)\<rparr>"

definition evaluateGroups :: "rule_env \<Rightarrow> default_rule \<Rightarrow> inbound_context \<Rightarrow> group_match \<times> inbound_context" where
  "evaluateGroups e d m =
     (let g0 = \<lparr>gm_required = 0, gm_satisfied = 0\<rparr>;
          g1 = (if dr_sourceAddressItems d \<noteq> []
                then require_group ruleMatchSourceAddress (matchAnyItem e (dr_sourceAddressItems d) m) g0 else g0);
          g2 = (if destinationIPCIDRMatchesSource d m
                then require_group ruleMatchSourceAddress
                       (\<not> group_has (gm_satisfied g1) ruleMatchSourceAddress \<and>
                        matchAnyItem e (dr_destinationIPCIDRItems d) m) g1 else g1);
          g3 = (if dr_sourcePortItems d \<noteq> []
                then require_group ruleMatchSourcePort (matchAnyItem e (dr_sourcePortItems d) m) g2 else g2);
          g4 = (if dr_destinationAddressItems d \<noteq> []
                then require_group ruleMatchDestinationAddress (matchAnyItem e (dr_destinationAddressItems d) m) g3
                else g3);
          g5 = (if destinationIPCIDRMatchesDestination d m
                then require_group ruleMatchDestinationAddress
                       (\<not> group_has (gm_satisfied g4) ruleMatchDestinationAddress \<and>
                        matchAnyItem e (dr_destinationIPCIDRItems d) m) g4 else g4);
          g6 = (if dr_destinationPortItems d \<noteq> []
                then require_group ruleMatchDestinationPort (matchAnyItem e (dr_destinationPortItems d) m) g5 else g5)
      in (g6, if ic_IgnoreDestination m \<and> \<not> ic_MatchSource m \<and> dr_destinationIPCIDRItems d \<noteq> [] \<and>
                 dr_destinationAddressItems d = []
              then m\<lparr>ic_Deferred := ic_Deferred m OR ruleMatchDestinationAddress\<rparr> else m))"

definition evaluateForMerge ::
  "rule_env \<Rightarrow> default_rule \<Rightarrow> inbound_context \<Rightarrow> group_match \<times> bool \<times> inbound_context" where
  "evaluateForMerge e d m =
     (let (groups, m1) = evaluateGroups e d m in
      if list_all (item_match e m1) (dr_items d) then (groups, True, m1)
      else (\<lparr>gm_required = 0, gm_satisfied = 0\<rparr>, False, m1))"

text \<open>
  \<open>matchInner\<close> and \<open>Match\<close> of a default rule without catalog window. The matching of its rule sets
  against its own groups is an argument here; the recursion below supplies it.
\<close>

definition matchInner ::
  "rule_env \<Rightarrow> default_rule \<Rightarrow> (group_match \<Rightarrow> inbound_context \<Rightarrow> bool \<times> inbound_context) option
     \<Rightarrow> inbound_context \<Rightarrow> bool \<times> inbound_context" where
  "matchInner e d sets m =
     (let (groups, m1) = evaluateGroups e d m in
      if \<not> list_all (item_match e m1) (dr_items d) then (False, m1)
      else let (matched, m2) = (case sets of None \<Rightarrow> (group_done groups, m1) | Some f \<Rightarrow> f groups m1)
        in if matched then (True, m2\<lparr>ic_Deferred := ic_Deferred m2 AND NOT (gm_satisfied groups)\<rparr>)
           else (False, m2))"

definition default_match ::
  "rule_env \<Rightarrow> default_rule \<Rightarrow> (group_match \<Rightarrow> inbound_context \<Rightarrow> bool \<times> inbound_context) option
     \<Rightarrow> bool \<Rightarrow> inbound_context \<Rightarrow> bool \<times> inbound_context" where
  "default_match e d sets invert m =
     (if dr_allItems d = [] \<and> Option.is_none sets then (True, m)
      else let (matched, m1) = matchInner e d sets m in
        if invert then
          if \<not> matched then (True, m1\<lparr>ic_Deferred := 0\<rparr>) else (ic_Deferred m1 \<noteq> 0, m1)
        else (matched, m1))"

definition prepareNestedMatch :: "bool \<Rightarrow> bool \<Rightarrow> inbound_context \<Rightarrow> inbound_context" where
  "prepareNestedMatch source emptyOk m =
     (ResetRuleMatchCache m)\<lparr>ic_MatchSource := source, ic_AcceptEmpty := emptyOk\<rparr>"

fun mergeableRuleIn :: "rule list \<Rightarrow> default_rule option" where
  "mergeableRuleIn [DefaultRule d None False _] = Some d"
| "mergeableRuleIn _ = None"

section \<open>Matching\<close>

definition finish_sets :: "match_snapshot \<Rightarrow> bool \<Rightarrow> byte \<Rightarrow> inbound_context \<Rightarrow> bool \<times> inbound_context" where
  "finish_sets snap matched deferred m =
     (let m1 = snapshot_restore snap m
      in (matched, if matched then m1\<lparr>ic_Deferred := ic_Deferred m1 OR deferred\<rparr> else m1))"

definition response_for :: "string \<Rightarrow> inbound_context \<Rightarrow> dns_msg option" where
  "response_for tag m = (if tag \<noteq> [] then ic_NamedDNSResponses m tag else ic_DNSResponse m)"

definition with_response :: "dns_msg option \<Rightarrow> inbound_context \<Rightarrow> inbound_context" where
  "with_response r m = m\<lparr>ic_DNSResponse := r, ic_FromResponse := True\<rparr>"

text \<open>
  The loops of \<open>matchWithOuterGroups\<close> (over the rule sets), \<open>matchAnyHeadlessRule\<close> (over the rules of one
  set) and the two modes of a logical rule, with what they accumulate.
\<close>

fun Match :: "rule_env \<Rightarrow> rule \<Rightarrow> inbound_context \<Rightarrow> bool \<times> inbound_context"
and sets_loop :: "rule_env \<Rightarrow> bool \<Rightarrow> bool \<Rightarrow> group_match \<Rightarrow> match_snapshot \<Rightarrow> bool \<Rightarrow> byte \<Rightarrow> rule list list
       \<Rightarrow> inbound_context \<Rightarrow> bool \<times> inbound_context"
and matchWithOuterGroups :: "rule_env \<Rightarrow> rule_set_item \<Rightarrow> group_match \<Rightarrow> inbound_context \<Rightarrow> bool \<times> inbound_context"
and any_loop :: "rule_env \<Rightarrow> match_snapshot \<Rightarrow> bool \<Rightarrow> byte \<Rightarrow> rule list \<Rightarrow> inbound_context \<Rightarrow> bool \<times> inbound_context"
and and_loop :: "rule_env \<Rightarrow> byte \<Rightarrow> rule list \<Rightarrow> inbound_context \<Rightarrow> bool \<times> byte \<times> inbound_context"
and or_loop :: "rule_env \<Rightarrow> bool \<Rightarrow> byte \<Rightarrow> rule list \<Rightarrow> inbound_context \<Rightarrow> bool \<times> byte \<times> inbound_context"
where
  "Match e (DefaultRule d rs invert resp) m =
     (case resp of
        None \<Rightarrow> default_match e d (map_option (\<lambda>s g k. matchWithOuterGroups e s g k) rs) invert m
      | Some tag \<Rightarrow>
          (case response_for tag m of
             None \<Rightarrow> (invert, m)
           | Some r \<Rightarrow> (fst (default_match e d (map_option (\<lambda>s g k. matchWithOuterGroups e s g k) rs) invert
                              (with_response (Some r) m)), m)))"
| "Match e (LogicalRule mode rules invert) m =
     (let snap = snapshotRuleMatch m;
          (matched, deferred, m1) = (if mode = LogicalTypeAnd then and_loop e 0 rules m else or_loop e False 0 rules m);
          m2 = snd (finish_sets snap matched deferred m1)
      in (if invert then (if \<not> matched then True else deferred \<noteq> 0) else matched, m2))"
| "and_loop e deferred [] m = (True, deferred, m)"
| "and_loop e deferred (r # rules) m =
     (let (b, m1) = Match e r (ResetRuleCache m)
      in if \<not> b then (False, 0, m1) else and_loop e (deferred OR ic_Deferred m1) rules m1)"
| "or_loop e matched deferred [] m = (matched, deferred, m)"
| "or_loop e matched deferred (r # rules) m =
     (let (b, m1) = Match e r (ResetRuleCache m)
      in if b then if ic_Deferred m1 = 0 then (True, 0, m1)
                   else or_loop e True (deferred OR ic_Deferred m1) rules m1
         else or_loop e matched deferred rules m1)"
| "matchWithOuterGroups e (RuleSetItem setList source emptyOk) outer m =
     sets_loop e source emptyOk outer (snapshotRuleMatch m) False 0 setList m"
| "sets_loop e source emptyOk outer snap matched deferred [] m = finish_sets snap matched deferred m"
| "sets_loop e source emptyOk outer snap matched deferred (rules # setList) m =
     (let m1 = prepareNestedMatch source emptyOk m in
      case mergeableRuleIn rules of
        Some branch \<Rightarrow>
          (let (branchGroups, branchMatched, m2) = evaluateForMerge e branch m1;
               merged = mergeWith outer branchGroups;
               branchDeferred = ic_Deferred m2 AND NOT (gm_satisfied merged)
           in if branchMatched \<and> group_done merged then
                if branchDeferred = 0 then
                  (let m3 = snapshot_restore snap m2
                   in (True, m3\<lparr>ic_Deferred := ic_Deferred m3 AND NOT (gm_satisfied merged)\<rparr>))
                else sets_loop e source emptyOk outer snap True (deferred OR branchDeferred) setList m2
              else sets_loop e source emptyOk outer snap matched deferred setList m2)
      | None \<Rightarrow>
          if group_done outer then
            (let (b, m2) = any_loop e (snapshotRuleMatch m1) False 0 rules m1
             in if b then if ic_Deferred m2 = 0 then (True, snapshot_restore snap m2)
                          else sets_loop e source emptyOk outer snap True (deferred OR ic_Deferred m2) setList m2
                else sets_loop e source emptyOk outer snap matched deferred setList m2)
          else sets_loop e source emptyOk outer snap matched deferred setList m1)"
| "any_loop e snap matched deferred [] m = finish_sets snap matched deferred m"
| "any_loop e snap matched deferred (r # rules) m =
     (let (b, m1) = Match e r (ResetRuleMatchCache m)
      in if b then if ic_Deferred m1 = 0 then (True, snapshot_restore snap m1)
                   else any_loop e snap True (deferred OR ic_Deferred m1) rules m1
         else any_loop e snap matched deferred rules m1)"

definition matchAnyHeadlessRule :: "rule_env \<Rightarrow> rule list \<Rightarrow> inbound_context \<Rightarrow> bool \<times> inbound_context" where
  "matchAnyHeadlessRule e rules m = any_loop e (snapshotRuleMatch m) False 0 rules m"

end
