(* ===== verification/Rule_Semantics.thy ===== *)
theory Rule_Semantics
  imports Rule_Match
begin

unbundle bit_operations_syntax

text \<open>
  What matching a rule means. \<open>holds\<close> is the Boolean reading of a rule: the conditions of a group are
  alternatives, the groups of a rule and its other conditions are conjoined, a rule set with a single
  plain rule adds its conditions to the groups of the rule that names it, and any other rule set is a
  further conjunct. Matching computes it and leaves the metadata as it was. While the addresses of a DNS
  response are unknown, matching is three-valued: a match with deferred groups means \<open>perhaps\<close>.
\<close>

section \<open>Groups as predicates\<close>

datatype grp = SourceAddress | SourcePort | DestinationAddress | DestinationPort

instantiation grp :: enum
begin

definition enum_grp :: "grp list" where
  "enum_grp = [SourceAddress, SourcePort, DestinationAddress, DestinationPort]"

definition enum_all_grp :: "(grp \<Rightarrow> bool) \<Rightarrow> bool" where
  "enum_all_grp p = (p SourceAddress \<and> p SourcePort \<and> p DestinationAddress \<and> p DestinationPort)"

definition enum_ex_grp :: "(grp \<Rightarrow> bool) \<Rightarrow> bool" where
  "enum_ex_grp p = (p SourceAddress \<or> p SourcePort \<or> p DestinationAddress \<or> p DestinationPort)"

instance
proof
  have all: "UNIV = {SourceAddress, SourcePort, DestinationAddress, DestinationPort}"
    using grp.exhaust by blast
  show "(UNIV :: grp set) = set enum_class.enum" by (simp add: enum_grp_def all)
  show "distinct (enum_class.enum :: grp list)" by (simp add: enum_grp_def)
  show "enum_class.enum_all p = Ball UNIV p" for p :: "grp \<Rightarrow> bool"
    by (simp only: enum_all_grp_def all) simp
  show "enum_class.enum_ex p = Bex UNIV p" for p :: "grp \<Rightarrow> bool"
    by (simp only: enum_ex_grp_def all) simp
qed

end

fun conditions :: "default_rule \<Rightarrow> inbound_context \<Rightarrow> grp \<Rightarrow> rule_item list" where
  "conditions d m SourceAddress =
     dr_sourceAddressItems d @ (if ic_MatchSource m then dr_destinationIPCIDRItems d else [])"
| "conditions d m SourcePort = dr_sourcePortItems d"
| "conditions d m DestinationAddress =
     dr_destinationAddressItems d @
     (if ic_MatchSource m \<or> ic_IgnoreDestination m then [] else dr_destinationIPCIDRItems d)"
| "conditions d m DestinationPort = dr_destinationPortItems d"

definition required :: "default_rule \<Rightarrow> inbound_context \<Rightarrow> grp \<Rightarrow> bool" where
  "required d m g = (conditions d m g \<noteq> [])"

definition satisfied :: "rule_env \<Rightarrow> default_rule \<Rightarrow> inbound_context \<Rightarrow> grp \<Rightarrow> bool" where
  "satisfied e d m g = list_ex (item_match e m) (conditions d m g)"

text \<open>The destination group of a rule whose only conditions in it are on addresses not known yet.\<close>

definition undecided :: "default_rule \<Rightarrow> inbound_context \<Rightarrow> bool" where
  "undecided d m =
     (ic_IgnoreDestination m \<and> \<not> ic_MatchSource m \<and> dr_destinationIPCIDRItems d \<noteq> [] \<and>
      dr_destinationAddressItems d = [])"

definition gmask :: "(grp \<Rightarrow> bool) \<Rightarrow> byte" where
  "gmask p = (if p SourceAddress then ruleMatchSourceAddress else 0) OR
            (if p SourcePort then ruleMatchSourcePort else 0) OR
            (if p DestinationAddress then ruleMatchDestinationAddress else 0) OR
            (if p DestinationPort then ruleMatchDestinationPort else 0)"

abbreviation group_masks :: "(grp \<Rightarrow> bool) \<Rightarrow> (grp \<Rightarrow> bool) \<Rightarrow> group_match" where
  "group_masks r s \<equiv> \<lparr>gm_required = gmask r, gm_satisfied = gmask s\<rparr>"

lemmas group_bits = ruleMatchSourceAddress_def ruleMatchSourcePort_def
  ruleMatchDestinationAddress_def ruleMatchDestinationPort_def

lemma all_grp: "(\<forall>g. p g) \<longleftrightarrow> p SourceAddress \<and> p SourcePort \<and> p DestinationAddress \<and> p DestinationPort"
  by (metis grp.exhaust)

lemma gmask_single:
  "gmask (\<lambda>g. b \<and> g = SourceAddress) = (if b then ruleMatchSourceAddress else 0)"
  "gmask (\<lambda>g. b \<and> g = SourcePort) = (if b then ruleMatchSourcePort else 0)"
  "gmask (\<lambda>g. b \<and> g = DestinationAddress) = (if b then ruleMatchDestinationAddress else 0)"
  "gmask (\<lambda>g. b \<and> g = DestinationPort) = (if b then ruleMatchDestinationPort else 0)"
  by (simp_all add: gmask_def)

lemma gmask_or: "gmask p OR gmask q = gmask (\<lambda>g. p g \<or> q g)"
  unfolding gmask_def
  by (cases "p SourceAddress"; cases "p SourcePort"; cases "p DestinationAddress"; cases "p DestinationPort";
      cases "q SourceAddress"; cases "q SourcePort"; cases "q DestinationAddress"; cases "q DestinationPort")
    (simp_all add: group_bits)

lemma gmask_diff: "gmask p AND NOT (gmask q) = gmask (\<lambda>g. p g \<and> \<not> q g)"
  unfolding gmask_def
  by (cases "p SourceAddress"; cases "p SourcePort"; cases "p DestinationAddress"; cases "p DestinationPort";
      cases "q SourceAddress"; cases "q SourcePort"; cases "q DestinationAddress"; cases "q DestinationPort")
    (simp_all add: group_bits)

lemma gmask_eq_0: "gmask p = 0 \<longleftrightarrow> (\<forall>g. \<not> p g)"
  unfolding gmask_def all_grp
  by (cases "p SourceAddress"; cases "p SourcePort"; cases "p DestinationAddress"; cases "p DestinationPort")
    (simp_all add: group_bits)

lemma gmask_False [simp]: "gmask (\<lambda>g. False) = 0"
  by (simp add: gmask_def)

lemma require_masks:
  "(if c then require_group (gmask (\<lambda>g. g = h)) b (group_masks r s) else group_masks r s) =
   group_masks (\<lambda>g. r g \<or> c \<and> g = h) (\<lambda>g. s g \<or> (c \<and> b) \<and> g = h)"
  by (simp add: require_group_def gmask_or)

lemma group_has_mask: "group_has (gmask s) (gmask (\<lambda>g. g = h)) = s h"
proof -
  have "gmask s AND gmask (\<lambda>g. g = h) = gmask (\<lambda>g. s g \<and> g = h)"
    unfolding gmask_def by (cases h; simp add: group_bits)
  then show ?thesis by (auto simp: group_has_def gmask_eq_0)
qed

lemma group_bit_masks:
  "ruleMatchSourceAddress = gmask (\<lambda>g. g = SourceAddress)"
  "ruleMatchSourcePort = gmask (\<lambda>g. g = SourcePort)"
  "ruleMatchDestinationAddress = gmask (\<lambda>g. g = DestinationAddress)"
  "ruleMatchDestinationPort = gmask (\<lambda>g. g = DestinationPort)"
  using gmask_single [where b = True] by simp_all

lemma evaluateGroups_masks:
  "evaluateGroups e d m =
     (group_masks (required d m) (satisfied e d m),
      m\<lparr>ic_Deferred := ic_Deferred m OR gmask (\<lambda>g. undecided d m \<and> g = DestinationAddress)\<rparr>)"
proof -
  have start: "\<lparr>gm_required = 0, gm_satisfied = 0\<rparr> = group_masks (\<lambda>g. False) (\<lambda>g. False)" by simp
  show ?thesis
    unfolding evaluateGroups_def Let_def group_bit_masks start require_masks group_match.simps group_has_mask
    by (auto simp: required_def satisfied_def undecided_def matchAnyItem_def destinationIPCIDRMatchesSource_def
        destinationIPCIDRMatchesDestination_def fun_eq_iff all_grp list_ex_append
        intro!: arg_cong [where f = gmask] split: if_splits)
qed

lemma group_done_masks: "group_done (group_masks r s) \<longleftrightarrow> (\<forall>g. r g \<longrightarrow> s g)"
  by (auto simp: group_done_def gmask_diff gmask_eq_0)

lemma mergeWith_masks:
  "mergeWith (group_masks r s) (group_masks r' s') = group_masks (\<lambda>g. r g \<or> r' g) (\<lambda>g. s g \<or> s' g)"
  by (simp add: mergeWith_def gmask_or)

lemmas item_match_defs =
  DomainItem_Match_def AdGuardDomainItem_Match_def DomainKeywordItem_Match_def DomainRegexItem_Match_def
  IPCIDRItem_Match_def IPIsPrivateItem_Match_def IPAcceptAnyItem_Match_def IPVersionItem_Match_def
  PortItem_Match_def PortRangeItem_Match_def InboundItem_Match_def NetworkItem_Match_def ProtocolItem_Match_def
  ClientItem_Match_def AuthUserItem_Match_def TunnelSourceItem_Match_def TunnelDestinationItem_Match_def
  OutboundItem_Match_def SourceHostnameItem_Match_def UserItem_Match_def UserIdItem_Match_def
  PackageNameItem_Match_def PackageNameRegexItem_Match_def ProcessItem_Match_def ProcessPathItem_Match_def
  ProcessPathRegexItem_Match_def QueryTypeItem_Match_def QueryDNSSECItem_Match_def
  QueryClientSubnetItem_Match_def DNSResponseRCodeItem_Match_def DNSResponseRecordItem_Match_def
  SourceMACAddressItem_Match_def PreferredByItem_Match_def PreferredByDNSItem_Match_def
  domain_host_def DNSResponseAddressesForMatch_def

lemma item_match_deferred [simp]: "item_match e (m\<lparr>ic_Deferred := x\<rparr>) = item_match e m"
proof
  fix i show "item_match e (m\<lparr>ic_Deferred := x\<rparr>) i = item_match e m i"
    by (cases i) (simp_all add: item_match_defs)
qed

lemma item_match_ignore [simp]: "item_match e (m\<lparr>ic_IgnoreDestination := x\<rparr>) = item_match e m"
proof
  fix i show "item_match e (m\<lparr>ic_IgnoreDestination := x\<rparr>) i = item_match e m i"
    by (cases i) (simp_all add: item_match_defs)
qed

text \<open>Conditions that do not look at a DNS response, with or without the source in place of the destination.\<close>

fun response_free :: "bool \<Rightarrow> rule_item \<Rightarrow> bool" where
  "response_free source (IPCIDRItem s isSource) = (isSource \<or> source)"
| "response_free source (IPIsPrivateItem isSource) = isSource"
| "response_free source IPAcceptAnyItem = False"
| "response_free source (DNSResponseRCodeItem c) = False"
| "response_free source (DNSResponseRecordItem rs sel) = False"
| "response_free source _ = True"

lemma response_free_match:
  "response_free (ic_MatchSource m) i \<Longrightarrow>
   item_match e (m\<lparr>ic_DNSResponse := r, ic_FromResponse := b\<rparr>) i = item_match e m i"
  by (cases i) (simp_all add: item_match_defs)

section \<open>Boolean reading of a rule\<close>

abbreviation groups_hold :: "rule_env \<Rightarrow> default_rule \<Rightarrow> inbound_context \<Rightarrow> bool" where
  "groups_hold e d m \<equiv> \<forall>g. required d m g \<longrightarrow> satisfied e d m g"

definition branch_holds ::
  "rule_env \<Rightarrow> default_rule \<Rightarrow> inbound_context \<Rightarrow> default_rule \<Rightarrow> inbound_context \<Rightarrow> bool" where
  "branch_holds e d m b k =
     (list_all (item_match e k) (dr_items b) \<and>
      (\<forall>g. required d m g \<or> required b k g \<longrightarrow> satisfied e d m g \<or> satisfied e b k g))"

definition default_holds ::
  "rule_env \<Rightarrow> inbound_context \<Rightarrow> default_rule \<Rightarrow> (inbound_context \<Rightarrow> bool) option \<Rightarrow> bool \<Rightarrow> bool" where
  "default_holds e m d sets invert =
     (if dr_allItems d = [] \<and> Option.is_none sets then True
      else invert \<noteq> (list_all (item_match e m) (dr_items d) \<and>
                     (case sets of None \<Rightarrow> groups_hold e d m | Some f \<Rightarrow> f m)))"

fun holds :: "rule_env \<Rightarrow> rule \<Rightarrow> inbound_context \<Rightarrow> bool"
and set_holds :: "rule_env \<Rightarrow> default_rule \<Rightarrow> rule_set_item \<Rightarrow> inbound_context \<Rightarrow> bool"
where
  "holds e (DefaultRule d rs invert resp) m =
     (case resp of
        None \<Rightarrow> default_holds e m d (map_option (\<lambda>s k. set_holds e d s k) rs) invert
      | Some tag \<Rightarrow>
          (case response_for tag m of
             None \<Rightarrow> invert
           | Some r \<Rightarrow> default_holds e (with_response (Some r) m) d (map_option (\<lambda>s k. set_holds e d s k) rs) invert))"
| "holds e (LogicalRule mode rules invert) m =
     (invert \<noteq> (if mode = LogicalTypeAnd then list_all (\<lambda>r. holds e r (ResetRuleCache m)) rules
                else list_ex (\<lambda>r. holds e r (ResetRuleCache m)) rules))"
| "set_holds e d (RuleSetItem sets source emptyOk) m =
     list_ex (\<lambda>rules.
       case mergeableRuleIn rules of
         Some b \<Rightarrow> branch_holds e d m b (prepareNestedMatch source emptyOk m)
       | None \<Rightarrow> groups_hold e d m \<and> list_ex (\<lambda>r. holds e r (prepareNestedMatch source emptyOk m)) rules) sets"

section \<open>Matching before the response\<close>

text \<open>
  The metadata before and after a response: matching may ignore the addresses of the destination only
  before; they differ in nothing but the response, and not even in that when nothing is ignored.
\<close>

definition before_after :: "inbound_context \<Rightarrow> inbound_context \<Rightarrow> bool" where
  "before_after m n =
     (n = m\<lparr>ic_IgnoreDestination := False, ic_DNSResponse := ic_DNSResponse n, ic_FromResponse := ic_FromResponse n\<rparr> \<and>
      (\<not> ic_IgnoreDestination m \<longrightarrow> n = m))"

text \<open>
  What a rule must be for its early answer to be sound: only its address conditions look at the
  response; no group mixes them with conditions on names (then the names alone decide early); and a
  rule set that is a conjunct of its own has no address conditions if the rule has conditions on names.
\<close>

definition plain_items :: "bool \<Rightarrow> default_rule \<Rightarrow> bool" where
  "plain_items source d =
     (list_all (response_free source) (dr_items d @ dr_sourceAddressItems d @ dr_sourcePortItems d @
        dr_destinationAddressItems d @ dr_destinationPortItems d) \<and>
      (source \<longrightarrow> list_all (response_free source) (dr_destinationIPCIDRItems d)))"

definition addresses_of :: "bool \<Rightarrow> default_rule \<Rightarrow> rule_item list" where
  "addresses_of source d = (if source then [] else dr_destinationIPCIDRItems d)"

definition mixed_free :: "bool \<Rightarrow> default_rule \<Rightarrow> bool \<Rightarrow> default_rule \<Rightarrow> bool" where
  "mixed_free source d src b =
     (dr_destinationAddressItems d @ dr_destinationAddressItems b = [] \<or>
      addresses_of source d @ addresses_of src b = [])"

fun deferring :: "bool \<Rightarrow> rule \<Rightarrow> bool" where
  "deferring source (DefaultRule d rs invert resp) =
     (addresses_of source d \<noteq> [] \<or>
      (case rs of None \<Rightarrow> False | Some (RuleSetItem sets src _) \<Rightarrow> list_ex (list_ex (deferring src)) sets))"
| "deferring source (LogicalRule mode rules invert) = list_ex (deferring False) rules"

fun early :: "bool \<Rightarrow> rule \<Rightarrow> bool" where
  "early source (DefaultRule d rs invert resp) =
     (Option.is_none resp \<and> plain_items source d \<and>
      (dr_destinationAddressItems d = [] \<or> addresses_of source d = []) \<and>
      (case rs of
         None \<Rightarrow> True
       | Some (RuleSetItem sets src _) \<Rightarrow>
           list_all (\<lambda>rules.
             case mergeableRuleIn rules of
               Some b \<Rightarrow> plain_items src b \<and> mixed_free source d src b
             | None \<Rightarrow> list_all (early src) rules \<and>
                 (dr_destinationAddressItems d = [] \<or> \<not> list_ex (deferring src) rules)) sets))"
| "early source (LogicalRule mode rules invert) = list_all (early False) rules"

text \<open>
  An early answer: no is definite, yes is definite unless something is deferred, which can only be the
  group of the destination address.
\<close>

definition dbit :: "bool \<Rightarrow> byte" where
  "dbit u = gmask (\<lambda>g. u \<and> g = DestinationAddress)"

definition decides :: "bool \<Rightarrow> bool \<Rightarrow> bool \<Rightarrow> bool" where
  "decides b u h = ((h \<longrightarrow> b) \<and> (b \<and> \<not> u \<longrightarrow> h))"

lemma dbit_simps [simp]:
  "dbit u = 0 \<longleftrightarrow> \<not> u" "dbit u OR dbit v = dbit (u \<or> v)" "0 OR dbit u = dbit u"
  "dbit u AND NOT (gmask s) = dbit (u \<and> \<not> s DestinationAddress)"
proof -
  show "dbit u = 0 \<longleftrightarrow> \<not> u" by (auto simp: dbit_def gmask_eq_0)
  show "dbit u OR dbit v = dbit (u \<or> v)"
    unfolding dbit_def gmask_or by (rule arg_cong [where f = gmask]) blast
  show "dbit u AND NOT (gmask s) = dbit (u \<and> \<not> s DestinationAddress)"
    unfolding dbit_def gmask_diff by (rule arg_cong [where f = gmask]) blast
qed simp

lemma dbit_False [simp]: "dbit False = 0"
  by simp

lemma before_after_flags:
  assumes "before_after m n"
  shows "ic_MatchSource n = ic_MatchSource m" "ic_AcceptEmpty n = ic_AcceptEmpty m"
    "ic_Deferred n = ic_Deferred m" "\<not> ic_IgnoreDestination n" "ic_NamedDNSResponses n = ic_NamedDNSResponses m"
proof -
  obtain r b where n: "n = m\<lparr>ic_IgnoreDestination := False, ic_DNSResponse := r, ic_FromResponse := b\<rparr>"
    using assms by (auto simp: before_after_def)
  show "ic_MatchSource n = ic_MatchSource m" "ic_AcceptEmpty n = ic_AcceptEmpty m"
    "ic_Deferred n = ic_Deferred m" "\<not> ic_IgnoreDestination n" "ic_NamedDNSResponses n = ic_NamedDNSResponses m"
    by (simp_all add: n)
qed

lemma before_after_item:
  assumes "before_after m n" "ic_IgnoreDestination m \<longrightarrow> response_free (ic_MatchSource m) i"
  shows "item_match e n i = item_match e m i"
proof (cases "ic_IgnoreDestination m")
  case True
  obtain r b where "n = m\<lparr>ic_IgnoreDestination := False, ic_DNSResponse := r, ic_FromResponse := b\<rparr>"
    using assms(1) by (auto simp: before_after_def)
  then show ?thesis
    using assms(2) True response_free_match [where m = "m\<lparr>ic_IgnoreDestination := False\<rparr>" and i = i and r = r and b = b] by simp
next
  case False
  then show ?thesis using assms(1) by (simp add: before_after_def)
qed

lemma list_ex_same: "(\<And>i. i \<in> set xs \<Longrightarrow> p i = q i) \<Longrightarrow> list_ex p xs = list_ex q xs"
  by (auto simp: list_ex_iff)

lemma list_all_same: "(\<And>i. i \<in> set xs \<Longrightarrow> p i = q i) \<Longrightarrow> list_all p xs = list_all q xs"
  by (auto simp: list_all_iff)

lemma items_view:
  assumes "before_after m n" "ic_IgnoreDestination m \<longrightarrow> plain_items (ic_MatchSource m) d"
  shows "list_all (item_match e n) (dr_items d) = list_all (item_match e m) (dr_items d)"
  using assms by (intro list_all_same before_after_item) (auto simp: plain_items_def list_all_iff)

lemma group_view:
  assumes ba: "before_after m n" and plain: "ic_IgnoreDestination m \<longrightarrow> plain_items (ic_MatchSource m) d"
    and g: "g \<noteq> DestinationAddress \<or> \<not> undecided d m"
    and sep: "ic_IgnoreDestination m \<longrightarrow>
      dr_destinationAddressItems d = [] \<or> addresses_of (ic_MatchSource m) d = []"
  shows "required d n g = required d m g" "satisfied e d n g = satisfied e d m g"
proof -
  have c: "conditions d n g = conditions d m g"
    using g sep by (cases g) (auto simp: undecided_def addresses_of_def before_after_flags [OF ba])
  have "item_match e n i = item_match e m i" if "i \<in> set (conditions d m g)" for i
  proof (rule before_after_item [OF ba], rule impI)
    assume "ic_IgnoreDestination m"
    then show "response_free (ic_MatchSource m) i"
      using that plain by (cases g) (auto simp: plain_items_def list_all_iff split: if_splits)
  qed
  then show "satisfied e d n g = satisfied e d m g"
    unfolding satisfied_def c by (rule list_ex_same)
  show "required d n g = required d m g" by (simp add: required_def c)
qed

lemma undecided_view:
  assumes "before_after m n" "undecided d m"
  shows "required d n DestinationAddress" "\<not> required d m DestinationAddress"
    "\<not> satisfied e d m DestinationAddress"
  using assms by (auto simp: required_def satisfied_def undecided_def before_after_flags)

section \<open>Default rules\<close>

definition matches_as :: "(bool \<times> inbound_context) \<Rightarrow> inbound_context \<Rightarrow> bool \<Rightarrow> bool \<Rightarrow> bool" where
  "matches_as res m quiet h =
     (\<exists>b u. res = (b, m\<lparr>ic_Deferred := dbit u\<rparr>) \<and> decides b u h \<and> (quiet \<longrightarrow> \<not> u))"

lemma matches_asI:
  "res = (b, m\<lparr>ic_Deferred := dbit u\<rparr>) \<Longrightarrow> decides b u h \<Longrightarrow> (quiet \<Longrightarrow> \<not> u) \<Longrightarrow> matches_as res m quiet h"
  by (auto simp: matches_as_def)

lemma evaluateGroups_dbit:
  "ic_Deferred m = 0 \<Longrightarrow> evaluateGroups e d m =
     (group_masks (required d m) (satisfied e d m), m\<lparr>ic_Deferred := dbit (undecided d m)\<rparr>)"
  by (simp add: evaluateGroups_masks dbit_def)

text \<open>What a rule's own groups contribute, with the rule sets' part \<open>f\<close> in their place.\<close>

lemma matchInner_sets:
  assumes "before_after m n" "ic_IgnoreDestination m \<longrightarrow> plain_items (ic_MatchSource m) d"
    and zero: "ic_Deferred m = 0" and quiet: "quiet \<Longrightarrow> \<not> undecided d m"
    and f: "f (group_masks (required d m) (satisfied e d m))
             (m\<lparr>ic_Deferred := dbit (undecided d m)\<rparr>) = (b, m\<lparr>ic_Deferred := dbit u\<rparr>)"
    and dec: "decides b (u \<and> \<not> satisfied e d m DestinationAddress) h" and qx: "quiet \<Longrightarrow> \<not> u"
  shows "matches_as (matchInner e d (Some f) m) m quiet (list_all (item_match e n) (dr_items d) \<and> h)"
proof (cases "list_all (item_match e m) (dr_items d)")
  case True
  show ?thesis
    by (rule matches_asI [where b = b and u = "if b then u \<and> \<not> satisfied e d m DestinationAddress else u"])
      (use True dec qx in \<open>auto simp: matchInner_def evaluateGroups_dbit zero f decides_def items_view [OF assms(1,2)]\<close>)
next
  case False
  show ?thesis
    by (rule matches_asI [where b = False and u = "undecided d m"])
      (use False quiet in \<open>auto simp: matchInner_def evaluateGroups_dbit zero decides_def items_view [OF assms(1,2)]\<close>)
qed

lemma groups_decide:
  assumes ba: "before_after m n" and plain: "ic_IgnoreDestination m \<longrightarrow> plain_items (ic_MatchSource m) d"
    and sep: "ic_IgnoreDestination m \<longrightarrow>
      dr_destinationAddressItems d = [] \<or> addresses_of (ic_MatchSource m) d = []"
  shows "groups_hold e d n \<Longrightarrow> groups_hold e d m"
    "groups_hold e d m \<Longrightarrow> \<not> undecided d m \<Longrightarrow> groups_hold e d n"
proof -
  note gv = group_view [OF ba plain _ sep]
  show "groups_hold e d n \<Longrightarrow> groups_hold e d m"
    using gv undecided_view [OF ba] by metis
  show "groups_hold e d m \<Longrightarrow> \<not> undecided d m \<Longrightarrow> groups_hold e d n"
    using gv by metis
qed

lemma matchInner_none: "matchInner e d None m = matchInner e d (Some (\<lambda>g k. (group_done g, k))) m"
  by (simp only: matchInner_def option.case)

lemma matchInner_groups:
  assumes ba: "before_after m n" and plain: "ic_IgnoreDestination m \<longrightarrow> plain_items (ic_MatchSource m) d"
    and sep: "ic_IgnoreDestination m \<longrightarrow>
      dr_destinationAddressItems d = [] \<or> addresses_of (ic_MatchSource m) d = []"
    and zero: "ic_Deferred m = 0" and quiet: "quiet \<Longrightarrow> \<not> undecided d m"
  shows "matches_as (matchInner e d None m) m quiet
           (list_all (item_match e n) (dr_items d) \<and> groups_hold e d n)"
  unfolding matchInner_none
proof (rule matchInner_sets [OF ba plain zero quiet])
  show "(group_done (group_masks (required d m) (satisfied e d m)), m\<lparr>ic_Deferred := dbit (undecided d m)\<rparr>) =
        (groups_hold e d m, m\<lparr>ic_Deferred := dbit (undecided d m)\<rparr>)" by (simp only: group_done_masks)
  show "decides (groups_hold e d m) (undecided d m \<and> \<not> satisfied e d m DestinationAddress) (groups_hold e d n)"
    using groups_decide [OF ba plain sep, of e] undecided_view(3) [OF ba, of d e] unfolding decides_def by metis
  show "quiet \<Longrightarrow> \<not> undecided d m" using quiet by simp
qed

lemma default_match_as:
  assumes inner: "matches_as (matchInner e d sets m) m quiet
      (list_all (item_match e n) (dr_items d) \<and> (case sets' of None \<Rightarrow> groups_hold e d n | Some f \<Rightarrow> f n))"
    and none: "Option.is_none sets = Option.is_none sets'" and zero: "ic_Deferred m = 0"
  shows "matches_as (default_match e d sets invert m) m quiet (default_holds e n d sets' invert)"
proof (cases "dr_allItems d = [] \<and> Option.is_none sets")
  case True
  show ?thesis
    by (rule matches_asI [where b = True and u = False])
      (use True none zero in \<open>simp_all add: default_match_def default_holds_def decides_def\<close>)
next
  case False
  define h where "h = (list_all (item_match e n) (dr_items d) \<and>
      (case sets' of None \<Rightarrow> groups_hold e d n | Some f \<Rightarrow> f n))"
  obtain b u where r: "matchInner e d sets m = (b, m\<lparr>ic_Deferred := dbit u\<rparr>)"
      and dec: "decides b u h" and q: "quiet \<longrightarrow> \<not> u"
    using inner unfolding h_def matches_as_def by blast
  have holds: "default_holds e n d sets' invert = (invert \<noteq> h)"
    using False unfolding default_holds_def h_def none by (simp only: if_False)
  have res: "default_match e d sets invert m =
      (if invert then \<not> b \<or> u else b, m\<lparr>ic_Deferred := dbit (if invert \<and> \<not> b then False else u)\<rparr>)"
    using False unfolding default_match_def by (simp add: r del: de_Morgan_conj)
  show ?thesis
    unfolding holds by (rule matches_asI [OF res]) (use dec q in \<open>auto simp: decides_def\<close>)
qed

section \<open>Lists of rules\<close>

lemma before_after_frame:
  assumes "before_after m n"
  shows "before_after (ResetRuleCache m) (ResetRuleCache n)"
    "before_after (prepareNestedMatch src emp m) (prepareNestedMatch src emp n)"
  using assms unfolding before_after_def
  by (cases "ic_IgnoreDestination m";
      auto simp: ResetRuleCache_def ResetRuleMatchCache_def prepareNestedMatch_def elim: ssubst)+

lemma ctx_simps [simp]:
  "ResetRuleCache (ResetRuleCache m) = ResetRuleCache m"
  "ResetRuleCache (m\<lparr>ic_Deferred := x\<rparr>) = ResetRuleCache m"
  "ResetRuleCache (prepareNestedMatch src emp m) = ResetRuleCache m"
  "ic_Deferred (ResetRuleCache m) = 0" "ic_MatchSource (ResetRuleCache m) = False"
  "ic_IgnoreDestination (ResetRuleCache m) = ic_IgnoreDestination m"
  "ic_Deferred (prepareNestedMatch src emp m) = 0" "ic_MatchSource (prepareNestedMatch src emp m) = src"
  "ic_IgnoreDestination (prepareNestedMatch src emp m) = ic_IgnoreDestination m"
  by (simp_all add: ResetRuleCache_def ResetRuleMatchCache_def prepareNestedMatch_def)

lemma same_nested:
  assumes "ResetRuleCache k = ResetRuleCache m"
  shows "prepareNestedMatch src emp k = prepareNestedMatch src emp m"
proof -
  have "prepareNestedMatch src emp j = (ResetRuleCache j)\<lparr>ic_MatchSource := src, ic_AcceptEmpty := emp\<rparr>" for j
    by (simp add: ResetRuleCache_def ResetRuleMatchCache_def prepareNestedMatch_def)
  then show ?thesis by (simp only: assms)
qed

lemma same_restore:
  assumes "ResetRuleCache k = ResetRuleCache m"
  shows "snapshot_restore (snapshotRuleMatch (m\<lparr>ic_Deferred := x\<rparr>)) k = m\<lparr>ic_Deferred := x\<rparr>"
proof -
  have eq: "snapshot_restore s j =
      (ResetRuleCache j)\<lparr>ic_MatchSource := ms_source s, ic_AcceptEmpty := ms_empty s, ic_Deferred := ms_deferred s\<rparr>" for s j
    by (simp add: ResetRuleCache_def ResetRuleMatchCache_def snapshot_restore_def)
  show ?thesis
    unfolding eq assms by (simp add: ResetRuleCache_def ResetRuleMatchCache_def snapshotRuleMatch_def)
qed

lemmas same_restore0 = same_restore [where x = "ic_Deferred m" and m = m for m, simplified]

definition sound_rule :: "rule_env \<Rightarrow> rule \<Rightarrow> bool" where
  "sound_rule e r =
     (\<forall>m n. before_after m n \<longrightarrow> ic_Deferred m = 0 \<longrightarrow> (ic_IgnoreDestination m \<longrightarrow> early (ic_MatchSource m) r) \<longrightarrow>
        matches_as (Match e r m) m (\<not> ic_IgnoreDestination m \<or> \<not> deferring (ic_MatchSource m) r) (holds e r n))"

lemma sound_ruleE:
  assumes "sound_rule e r" "before_after m n" "ic_Deferred m = 0"
    "ic_IgnoreDestination m \<longrightarrow> early (ic_MatchSource m) r"
  obtains b u where "Match e r m = (b, m\<lparr>ic_Deferred := dbit u\<rparr>)" "decides b u (holds e r n)"
    "\<not> ic_IgnoreDestination m \<or> \<not> deferring (ic_MatchSource m) r \<longrightarrow> \<not> u"
  using assms unfolding sound_rule_def matches_as_def by blast

text \<open>A loop over rules ends with an answer, what is deferred, and metadata that differs only in its cache.\<close>

definition loop_as :: "bool \<times> byte \<times> inbound_context \<Rightarrow> inbound_context \<Rightarrow> (bool \<Rightarrow> bool \<Rightarrow> bool) \<Rightarrow> bool" where
  "loop_as res m p = (\<exists>b u k. res = (b, dbit u, k) \<and> ResetRuleCache k = ResetRuleCache m \<and> p b u)"

lemma loop_asI: "res = (b, dbit u, k) \<Longrightarrow> ResetRuleCache k = ResetRuleCache m \<Longrightarrow> p b u \<Longrightarrow> loop_as res m p"
  unfolding loop_as_def by blast

lemma loop_as_mono: "loop_as res m p \<Longrightarrow> (\<And>b u. p b u \<Longrightarrow> q b u) \<Longrightarrow> loop_as res m q"
  unfolding loop_as_def by blast

lemma list_ex_Cons: "list_ex p (x # xs) = (p x \<or> list_ex p xs)"
  by simp

lemma list_all_Cons: "list_all p (x # xs) = (p x \<and> list_all p xs)"
  by simp

lemma sound_rule_reset:
  assumes "sound_rule e r" "before_after m n" "ic_IgnoreDestination m \<longrightarrow> early False r"
  obtains b u where "Match e r (ResetRuleCache m) = (b, (ResetRuleCache m)\<lparr>ic_Deferred := dbit u\<rparr>)"
    "decides b u (holds e r (ResetRuleCache n))" "\<not> ic_IgnoreDestination m \<or> \<not> deferring False r \<longrightarrow> \<not> u"
  by (rule sound_ruleE [OF assms(1) before_after_frame(1) [OF assms(2)], unfolded ctx_simps, OF refl assms(3)])
    (rule that)

lemma and_loop_as:
  assumes "\<forall>r\<in>set rules. sound_rule e r" "before_after m n" "ic_IgnoreDestination m \<longrightarrow> list_all (early False) rules"
    "ResetRuleCache k = ResetRuleCache m"
  shows "loop_as (and_loop e (dbit v) rules k) m (\<lambda>b u.
     decides b u (list_all (\<lambda>r. holds e r (ResetRuleCache n)) rules) \<and> (b \<and> v \<longrightarrow> u) \<and> (\<not> b \<longrightarrow> \<not> u) \<and>
     (\<not> v \<and> (\<not> ic_IgnoreDestination m \<or> \<not> list_ex (deferring False) rules) \<longrightarrow> \<not> u))"
  using assms
proof (induction rules arbitrary: v k)
  case Nil
  then show ?case by (intro loop_asI [where b = True and u = v and k = k]) (simp_all add: decides_def)
next
  case (Cons r rules)
  have s: "sound_rule e r" and ea: "ic_IgnoreDestination m \<longrightarrow> early False r" using Cons.prems(1,3) by simp_all
  obtain b u where r: "Match e r (ResetRuleCache m) = (b, (ResetRuleCache m)\<lparr>ic_Deferred := dbit u\<rparr>)"
      and dec: "decides b u (holds e r (ResetRuleCache n))"
      and quiet: "\<not> ic_IgnoreDestination m \<or> \<not> deferring False r \<longrightarrow> \<not> u"
    by (rule sound_rule_reset [OF s Cons.prems(2) ea]) (rule that)
  let ?k = "(ResetRuleCache m)\<lparr>ic_Deferred := dbit u\<rparr>"
  show ?case
  proof (cases b)
    case True
    have step: "and_loop e (dbit v) (r # rules) k = and_loop e (dbit (v \<or> u)) rules ?k"
      using True by (simp add: Cons.prems(4) r)
    have "loop_as (and_loop e (dbit (v \<or> u)) rules ?k) m (\<lambda>b u'.
        decides b u' (list_all (\<lambda>r. holds e r (ResetRuleCache n)) rules) \<and> (b \<and> (v \<or> u) \<longrightarrow> u') \<and> (\<not> b \<longrightarrow> \<not> u') \<and>
        (\<not> (v \<or> u) \<and> (\<not> ic_IgnoreDestination m \<or> \<not> list_ex (deferring False) rules) \<longrightarrow> \<not> u'))"
      using Cons.prems(1,3) by (intro Cons.IH Cons.prems(2)) simp_all
    then show ?thesis
      unfolding step by (rule loop_as_mono)
        (use True dec quiet in \<open>unfold decides_def list_all_Cons list_ex_Cons, sat\<close>)
  next
    case False
    then have step: "and_loop e (dbit v) (r # rules) k = (False, dbit False, ?k)"
      by (simp add: Cons.prems(4) r)
    show ?thesis
      by (rule loop_asI [OF step]) (use False dec in \<open>simp_all add: decides_def\<close>)
  qed
qed

lemma or_loop_as:
  assumes "\<forall>r\<in>set rules. sound_rule e r" "before_after m n" "ic_IgnoreDestination m \<longrightarrow> list_all (early False) rules"
    "ResetRuleCache k = ResetRuleCache m"
  shows "loop_as (or_loop e v (dbit v) rules k) m (\<lambda>b u.
     (v \<or> list_ex (\<lambda>r. holds e r (ResetRuleCache n)) rules \<longrightarrow> b) \<and>
     (b \<and> \<not> u \<longrightarrow> list_ex (\<lambda>r. holds e r (ResetRuleCache n)) rules) \<and> (\<not> b \<longrightarrow> \<not> u) \<and>
     (\<not> v \<and> (\<not> ic_IgnoreDestination m \<or> \<not> list_ex (deferring False) rules) \<longrightarrow> \<not> u))"
  using assms
proof (induction rules arbitrary: v k)
  case Nil
  then show ?case by (intro loop_asI [where b = v and u = v and k = k]) simp_all
next
  case (Cons r rules)
  have s: "sound_rule e r" and ea: "ic_IgnoreDestination m \<longrightarrow> early False r" using Cons.prems(1,3) by simp_all
  obtain b u where r: "Match e r (ResetRuleCache m) = (b, (ResetRuleCache m)\<lparr>ic_Deferred := dbit u\<rparr>)"
      and dec: "decides b u (holds e r (ResetRuleCache n))"
      and quiet: "\<not> ic_IgnoreDestination m \<or> \<not> deferring False r \<longrightarrow> \<not> u"
    by (rule sound_rule_reset [OF s Cons.prems(2) ea]) (rule that)
  let ?k = "(ResetRuleCache m)\<lparr>ic_Deferred := dbit u\<rparr>"
  show ?case
  proof (cases "b \<and> \<not> u")
    case True
    then have step: "or_loop e v (dbit v) (r # rules) k = (True, dbit False, ?k)"
      by (simp add: Cons.prems(4) r)
    show ?thesis
      by (rule loop_asI [OF step]) (use True dec in \<open>simp_all add: decides_def\<close>)
  next
    case False
    have step: "or_loop e v (dbit v) (r # rules) k = or_loop e (v \<or> b) (dbit (v \<or> b)) rules ?k"
      using False by (cases b) (simp_all add: Cons.prems(4) r)
    have "loop_as (or_loop e (v \<or> b) (dbit (v \<or> b)) rules ?k) m (\<lambda>b' u'.
       ((v \<or> b) \<or> list_ex (\<lambda>r. holds e r (ResetRuleCache n)) rules \<longrightarrow> b') \<and>
       (b' \<and> \<not> u' \<longrightarrow> list_ex (\<lambda>r. holds e r (ResetRuleCache n)) rules) \<and> (\<not> b' \<longrightarrow> \<not> u') \<and>
       (\<not> (v \<or> b) \<and> (\<not> ic_IgnoreDestination m \<or> \<not> list_ex (deferring False) rules) \<longrightarrow> \<not> u'))"
      using Cons.prems(1,3) by (intro Cons.IH Cons.prems(2)) simp_all
    then show ?thesis
      unfolding step by (rule loop_as_mono)
        (use False dec quiet in \<open>unfold decides_def list_ex_Cons, sat\<close>)
  qed
qed

text \<open>A loop that restores the metadata leaves nothing behind but what is deferred.\<close>

definition ends_as :: "bool \<times> inbound_context \<Rightarrow> inbound_context \<Rightarrow> (bool \<Rightarrow> bool \<Rightarrow> bool) \<Rightarrow> bool" where
  "ends_as res m p = (\<exists>b u. res = (b, m\<lparr>ic_Deferred := dbit u\<rparr>) \<and> p b u)"

lemma ends_asI: "res = (b, m\<lparr>ic_Deferred := dbit u\<rparr>) \<Longrightarrow> p b u \<Longrightarrow> ends_as res m p"
  unfolding ends_as_def by blast

lemma ends_as_mono: "ends_as res m p \<Longrightarrow> (\<And>b u. p b u \<Longrightarrow> q b u) \<Longrightarrow> ends_as res m q"
  unfolding ends_as_def by blast

lemma deferred_zero: "ic_Deferred c = 0 \<Longrightarrow> c\<lparr>ic_Deferred := 0\<rparr> = c"
  by (cases c) simp

lemma any_loop_as:
  assumes "\<forall>r\<in>set rules. sound_rule e r" "before_after c n" "ic_Deferred c = 0"
    "ic_IgnoreDestination c \<longrightarrow> list_all (early (ic_MatchSource c)) rules"
  shows "ends_as (any_loop e (snapshotRuleMatch c) v (dbit v) rules (c\<lparr>ic_Deferred := y\<rparr>)) c (\<lambda>b u.
     (v \<or> list_ex (\<lambda>r. holds e r n) rules \<longrightarrow> b) \<and> (b \<and> \<not> u \<longrightarrow> list_ex (\<lambda>r. holds e r n) rules) \<and> (\<not> b \<longrightarrow> \<not> u) \<and>
     (\<not> v \<and> (\<not> ic_IgnoreDestination c \<or> \<not> list_ex (deferring (ic_MatchSource c)) rules) \<longrightarrow> \<not> u))"
  using assms
proof (induction rules arbitrary: v y)
  case Nil
  have "any_loop e (snapshotRuleMatch c) v (dbit v) [] (c\<lparr>ic_Deferred := y\<rparr>) = (v, c\<lparr>ic_Deferred := dbit v\<rparr>)"
    using Nil.prems(3) by (simp add: finish_sets_def same_restore0 deferred_zero)
  then show ?case by (rule ends_asI) simp
next
  case (Cons r rules)
  have s: "sound_rule e r" and ea: "ic_IgnoreDestination c \<longrightarrow> early (ic_MatchSource c) r"
    using Cons.prems(1,4) by simp_all
  obtain b u where r: "Match e r c = (b, c\<lparr>ic_Deferred := dbit u\<rparr>)" and dec: "decides b u (holds e r n)"
      and quiet: "\<not> ic_IgnoreDestination c \<or> \<not> deferring (ic_MatchSource c) r \<longrightarrow> \<not> u"
    by (rule sound_ruleE [OF s Cons.prems(2,3) ea]) (rule that)
  have reset: "ResetRuleMatchCache (c\<lparr>ic_Deferred := y\<rparr>) = c"
    using Cons.prems(3) by (simp add: ResetRuleMatchCache_def deferred_zero)
  show ?case
  proof (cases "b \<and> \<not> u")
    case True
    then have step: "any_loop e (snapshotRuleMatch c) v (dbit v) (r # rules) (c\<lparr>ic_Deferred := y\<rparr>) =
        (True, c\<lparr>ic_Deferred := dbit False\<rparr>)"
      using Cons.prems(3) by (simp add: reset r deferred_zero same_restore0)
    show ?thesis by (rule ends_asI [OF step]) (use True dec in \<open>simp add: decides_def\<close>)
  next
    case False
    have step: "any_loop e (snapshotRuleMatch c) v (dbit v) (r # rules) (c\<lparr>ic_Deferred := y\<rparr>) =
        any_loop e (snapshotRuleMatch c) (v \<or> b) (dbit (v \<or> b)) rules (c\<lparr>ic_Deferred := dbit u\<rparr>)"
      using False by (cases b) (simp_all add: reset r)
    have "ends_as (any_loop e (snapshotRuleMatch c) (v \<or> b) (dbit (v \<or> b)) rules (c\<lparr>ic_Deferred := dbit u\<rparr>)) c (\<lambda>b' u'.
        ((v \<or> b) \<or> list_ex (\<lambda>r. holds e r n) rules \<longrightarrow> b') \<and> (b' \<and> \<not> u' \<longrightarrow> list_ex (\<lambda>r. holds e r n) rules) \<and>
        (\<not> b' \<longrightarrow> \<not> u') \<and>
        (\<not> (v \<or> b) \<and> (\<not> ic_IgnoreDestination c \<or> \<not> list_ex (deferring (ic_MatchSource c)) rules) \<longrightarrow> \<not> u'))"
      using Cons.prems by (intro Cons.IH) simp_all
    then show ?thesis
      unfolding step by (rule ends_as_mono) (use False dec quiet in \<open>unfold decides_def list_ex_Cons, sat\<close>)
  qed
qed

section \<open>Rule sets\<close>

lemma ignored_destination:
  assumes "ic_IgnoreDestination m" "dr_destinationAddressItems d = []"
  shows "\<not> required d m DestinationAddress" "\<not> satisfied e d m DestinationAddress"
  using assms by (simp_all add: required_def satisfied_def)

lemma branch_undecided:
  assumes "undecided d m \<or> undecided b c" "ic_IgnoreDestination m = ic_IgnoreDestination c"
    "ic_IgnoreDestination m \<longrightarrow> mixed_free (ic_MatchSource m) d (ic_MatchSource c) b"
  shows "\<not> required d m DestinationAddress" "\<not> satisfied e d m DestinationAddress"
    "\<not> required b c DestinationAddress" "\<not> satisfied e b c DestinationAddress"
proof -
  have "ic_IgnoreDestination m" "ic_IgnoreDestination c"
    "dr_destinationAddressItems d = []" "dr_destinationAddressItems b = []"
    using assms by (auto simp: undecided_def mixed_free_def addresses_of_def)
  then show "\<not> required d m DestinationAddress" "\<not> satisfied e d m DestinationAddress"
    "\<not> required b c DestinationAddress" "\<not> satisfied e b c DestinationAddress"
    by (simp_all add: ignored_destination)
qed

lemma mixed_free_parts:
  assumes "mixed_free source d src b"
  shows "dr_destinationAddressItems d = [] \<or> addresses_of source d = []"
    "dr_destinationAddressItems b = [] \<or> addresses_of src b = []"
  using assms by (auto simp: mixed_free_def)

lemma branch_decide:
  assumes ba: "before_after m n" "before_after c k"
    and plain: "ic_IgnoreDestination m \<longrightarrow> plain_items (ic_MatchSource m) d"
      "ic_IgnoreDestination m \<longrightarrow> plain_items (ic_MatchSource c) b"
    and ign: "ic_IgnoreDestination c = ic_IgnoreDestination m"
    and sep: "ic_IgnoreDestination m \<longrightarrow> mixed_free (ic_MatchSource m) d (ic_MatchSource c) b"
  shows "branch_holds e d n b k \<Longrightarrow> branch_holds e d m b c"
    "branch_holds e d m b c \<Longrightarrow> \<not> undecided d m \<Longrightarrow> \<not> undecided b c \<Longrightarrow> branch_holds e d n b k"
proof -
  have pb: "ic_IgnoreDestination c \<longrightarrow> plain_items (ic_MatchSource c) b" using plain(2) ign by simp
  have sd: "ic_IgnoreDestination m \<longrightarrow> dr_destinationAddressItems d = [] \<or> addresses_of (ic_MatchSource m) d = []"
    and sb: "ic_IgnoreDestination c \<longrightarrow> dr_destinationAddressItems b = [] \<or> addresses_of (ic_MatchSource c) b = []"
    using sep ign mixed_free_parts [of "ic_MatchSource m" d "ic_MatchSource c" b] by blast+
  note gv = group_view [OF ba(1) plain(1) _ sd] group_view [OF ba(2) pb _ sb]
  note items = items_view [OF ba(2) pb, of e]
  show "branch_holds e d m b c" if h: "branch_holds e d n b k"
  proof -
    have "satisfied e d m g \<or> satisfied e b c g" if g: "required d m g \<or> required b c g" for g
    proof (cases "g = DestinationAddress \<and> (undecided d m \<or> undecided b c)")
      case True
      then show ?thesis using g branch_undecided(1,3) [of d m b c] sep ign by metis
    next
      case False
      then show ?thesis using g h gv [of g] unfolding branch_holds_def by metis
    qed
    then show ?thesis using h items unfolding branch_holds_def by blast
  qed
  show "branch_holds e d n b k" if "branch_holds e d m b c" "\<not> undecided d m" "\<not> undecided b c"
    using that gv items unfolding branch_holds_def by metis
qed

lemma sets_loop_branch:
  assumes b: "mergeableRuleIn rules = Some b" and c: "prepareNestedMatch src emp k = c"
    and und: "undecided b c \<longrightarrow> \<not> satisfied e d m DestinationAddress \<and> \<not> satisfied e b c DestinationAddress"
  shows "sets_loop e src emp (group_masks (required d m) (satisfied e d m)) snap v (dbit v) (rules # sets) k =
     (let k' = c\<lparr>ic_Deferred := dbit (undecided b c)\<rparr> in
      if branch_holds e d m b c then
        if undecided b c then sets_loop e src emp (group_masks (required d m) (satisfied e d m)) snap True (dbit True) sets k'
        else (True, (snapshot_restore snap k')\<lparr>ic_Deferred :=
               ms_deferred snap AND NOT (gmask (\<lambda>g. satisfied e d m g \<or> satisfied e b c g))\<rparr>)
      else sets_loop e src emp (group_masks (required d m) (satisfied e d m)) snap v (dbit v) sets k')"
proof -
  have zero: "ic_Deferred c = 0" using c ctx_simps(7) by metis
  have merge: "evaluateForMerge e b c =
      (if list_all (item_match e c) (dr_items b) then
         (group_masks (required b c) (satisfied e b c), True, c\<lparr>ic_Deferred := dbit (undecided b c)\<rparr>)
       else (\<lparr>gm_required = 0, gm_satisfied = 0\<rparr>, False, c\<lparr>ic_Deferred := dbit (undecided b c)\<rparr>))"
    by (simp add: evaluateForMerge_def evaluateGroups_dbit [OF zero])
  have restore: "ic_Deferred (snapshot_restore snap j) = ms_deferred snap" for j
    by (simp add: snapshot_restore_def)
  have bh: "branch_holds e d m b c = (list_all (item_match e c) (dr_items b) \<and>
      group_done (group_masks (\<lambda>g. required d m g \<or> required b c g) (\<lambda>g. satisfied e d m g \<or> satisfied e b c g)))"
    by (simp only: branch_holds_def group_done_masks)
  show ?thesis
    using und by (cases "undecided b c"; cases "list_all (item_match e c) (dr_items b)")
      (simp_all add: b c merge bh mergeWith_masks restore Let_def)
qed

lemma undecided_ignores: "undecided d m \<Longrightarrow> ic_IgnoreDestination m \<and> addresses_of (ic_MatchSource m) d \<noteq> []"
  by (simp add: undecided_def addresses_of_def)

lemma mergeable_deferring:
  "mergeableRuleIn rules = Some b \<Longrightarrow> addresses_of src b \<noteq> [] \<Longrightarrow> list_ex (deferring src) rules"
  by (induction rules rule: mergeableRuleIn.induct) simp_all

text \<open>One rule set of a rule: what it means, what makes its early answer sound, and its turn of the loop.\<close>

definition one_set_holds :: "rule_env \<Rightarrow> default_rule \<Rightarrow> bool \<Rightarrow> bool \<Rightarrow> inbound_context \<Rightarrow> rule list \<Rightarrow> bool" where
  "one_set_holds e d src emp m rules =
     (case mergeableRuleIn rules of
        Some b \<Rightarrow> branch_holds e d m b (prepareNestedMatch src emp m)
      | None \<Rightarrow> groups_hold e d m \<and> list_ex (\<lambda>r. holds e r (prepareNestedMatch src emp m)) rules)"

definition early_set :: "bool \<Rightarrow> default_rule \<Rightarrow> bool \<Rightarrow> rule list \<Rightarrow> bool" where
  "early_set source d src rules =
     (case mergeableRuleIn rules of
        Some b \<Rightarrow> plain_items src b \<and> mixed_free source d src b
      | None \<Rightarrow> list_all (early src) rules \<and>
                (dr_destinationAddressItems d = [] \<or> \<not> list_ex (deferring src) rules))"

definition early_groups :: "bool \<Rightarrow> default_rule \<Rightarrow> bool" where
  "early_groups source d =
     (plain_items source d \<and> (dr_destinationAddressItems d = [] \<or> addresses_of source d = []))"

datatype set_turn = Final | Continue bool inbound_context

definition turn_ok ::
  "rule_env \<Rightarrow> default_rule \<Rightarrow> bool \<Rightarrow> bool \<Rightarrow> inbound_context \<Rightarrow> inbound_context \<Rightarrow> bool \<Rightarrow> rule list \<Rightarrow> set_turn \<Rightarrow> bool" where
  "turn_ok e d src emp m n v rules t =
     (case t of
        Final \<Rightarrow> undecided d m \<or> one_set_holds e d src emp n rules
      | Continue v' k \<Rightarrow> ResetRuleCache k = ResetRuleCache m \<and>
          (if v' then v \<and> \<not> one_set_holds e d src emp n rules \<or>
             \<not> satisfied e d m DestinationAddress \<and> ic_IgnoreDestination m \<and> list_ex (deferring src) rules
           else \<not> v \<and> \<not> one_set_holds e d src emp n rules))"

definition take_turn ::
  "rule_env \<Rightarrow> default_rule \<Rightarrow> bool \<Rightarrow> bool \<Rightarrow> inbound_context \<Rightarrow> rule list list \<Rightarrow> set_turn \<Rightarrow> bool \<times> inbound_context" where
  "take_turn e d src emp m sets t =
     (case t of
        Final \<Rightarrow> (True, m\<lparr>ic_Deferred := dbit (undecided d m)\<rparr>)
      | Continue v k \<Rightarrow> sets_loop e src emp (group_masks (required d m) (satisfied e d m))
          (snapshotRuleMatch (m\<lparr>ic_Deferred := dbit (undecided d m)\<rparr>)) v (dbit v) sets k)"

abbreviation set_turn_of ::
  "rule_env \<Rightarrow> default_rule \<Rightarrow> bool \<Rightarrow> bool \<Rightarrow> inbound_context \<Rightarrow> bool \<Rightarrow> rule list \<Rightarrow> rule list list \<Rightarrow> inbound_context \<Rightarrow>
     bool \<times> inbound_context" where
  "set_turn_of e d src emp m v rules sets k \<equiv>
     sets_loop e src emp (group_masks (required d m) (satisfied e d m))
       (snapshotRuleMatch (m\<lparr>ic_Deferred := dbit (undecided d m)\<rparr>)) v (dbit v) (rules # sets) k"

lemma branch_turn:
  assumes ba: "before_after m n" and same: "ResetRuleCache k = ResetRuleCache m"
    and ig: "ic_IgnoreDestination m \<longrightarrow> early_groups (ic_MatchSource m) d \<and> early_set (ic_MatchSource m) d src rules"
    and b: "mergeableRuleIn rules = Some b"
  shows "\<exists>t. set_turn_of e d src emp m v rules sets k = take_turn e d src emp m sets t \<and> turn_ok e d src emp m n v rules t"
proof -
  let ?c = "prepareNestedMatch src emp m"
  let ?k = "?c\<lparr>ic_Deferred := dbit (undecided b ?c)\<rparr>"
  have mf: "ic_IgnoreDestination m \<longrightarrow> mixed_free (ic_MatchSource m) d (ic_MatchSource ?c) b"
    and pd: "ic_IgnoreDestination m \<longrightarrow> plain_items (ic_MatchSource m) d"
    and pb: "ic_IgnoreDestination m \<longrightarrow> plain_items (ic_MatchSource ?c) b"
    using ig by (simp_all add: early_set_def early_groups_def b)
  note bu = branch_undecided(2,4) [where m = m and c = ?c and d = d and b = b and e = e, OF _ _ mf, simplified]
  note bd = branch_decide [OF ba before_after_frame(2) [OF ba, of src emp] pd pb _ mf, of e, simplified]
  have und: "undecided b ?c \<longrightarrow> \<not> satisfied e d m DestinationAddress \<and> \<not> satisfied e b ?c DestinationAddress"
    using bu by blast
  note step = sets_loop_branch [OF b same_nested [OF same] und]
  have same': "ResetRuleCache ?k = ResetRuleCache m" by simp
  consider (hit) "branch_holds e d m b ?c" "\<not> undecided b ?c" | (maybe) "branch_holds e d m b ?c" "undecided b ?c"
    | (miss) "\<not> branch_holds e d m b ?c" by blast
  then show ?thesis
  proof cases
    case hit
    have "set_turn_of e d src emp m v rules sets k = take_turn e d src emp m sets Final"
      unfolding step take_turn_def same_restore [OF same'] Let_def
      using hit bu by (cases "undecided d m") (simp_all add: snapshotRuleMatch_def)
    then show ?thesis
      using hit bd(2) by (intro exI [where x = Final]) (auto simp: turn_ok_def one_set_holds_def b)
  next
    case maybe
    have "set_turn_of e d src emp m v rules sets k = take_turn e d src emp m sets (Continue True ?k)"
      unfolding step take_turn_def using maybe by simp
    moreover have "turn_ok e d src emp m n v rules (Continue True ?k)"
      using maybe und undecided_ignores [OF maybe(2)] mergeable_deferring [OF b, of src] by (simp add: turn_ok_def)
    ultimately show ?thesis by blast
  next
    case miss
    have "set_turn_of e d src emp m v rules sets k = take_turn e d src emp m sets (Continue v ?k)"
      unfolding step take_turn_def using miss by simp
    moreover have "turn_ok e d src emp m n v rules (Continue v ?k)"
      using miss bd(1) by (auto simp: turn_ok_def one_set_holds_def b)
    ultimately show ?thesis by blast
  qed
qed

lemma plain_turn:
  assumes ba: "before_after m n" and same: "ResetRuleCache k = ResetRuleCache m" and zero: "ic_Deferred m = 0"
    and ig: "ic_IgnoreDestination m \<longrightarrow> early_groups (ic_MatchSource m) d \<and> early_set (ic_MatchSource m) d src rules"
    and none: "mergeableRuleIn rules = None" and sound: "\<forall>r\<in>set rules. sound_rule e r"
  shows "\<exists>t. set_turn_of e d src emp m v rules sets k = take_turn e d src emp m sets t \<and> turn_ok e d src emp m n v rules t"
proof -
  let ?c = "prepareNestedMatch src emp m"
  let ?n = "prepareNestedMatch src emp n"
  have gd: "groups_hold e d n \<Longrightarrow> groups_hold e d m" "groups_hold e d m \<Longrightarrow> \<not> undecided d m \<Longrightarrow> groups_hold e d n"
    using groups_decide [OF ba, of d e] ig by (auto simp: early_groups_def)
  have free: "satisfied e d m DestinationAddress = False"
    if "ic_IgnoreDestination m" "list_ex (deferring src) rules"
    using that ig ignored_destination(2) [OF that(1)] by (auto simp: early_set_def none)
  show ?thesis
  proof (cases "groups_hold e d m")
    case False
    have "set_turn_of e d src emp m v rules sets k = take_turn e d src emp m sets (Continue v ?c)"
      using False by (simp add: take_turn_def none same_nested [OF same] group_done_masks del: not_all)
    moreover have "turn_ok e d src emp m n v rules (Continue v ?c)"
      using False gd(1) by (auto simp: turn_ok_def one_set_holds_def none)
    ultimately show ?thesis by blast
  next
    case True
    have ea: "ic_IgnoreDestination ?c \<longrightarrow> list_all (early (ic_MatchSource ?c)) rules"
      using ig by (simp add: early_set_def none)
    have cz: "?c\<lparr>ic_Deferred := 0\<rparr> = ?c" by (rule deferred_zero) simp
    obtain b u where any: "any_loop e (snapshotRuleMatch ?c) False 0 rules ?c = (b, ?c\<lparr>ic_Deferred := dbit u\<rparr>)"
        and p: "list_ex (\<lambda>r. holds e r ?n) rules \<longrightarrow> b" "b \<and> \<not> u \<longrightarrow> list_ex (\<lambda>r. holds e r ?n) rules"
        and q: "\<not> ic_IgnoreDestination m \<or> \<not> list_ex (deferring src) rules \<longrightarrow> \<not> u"
      using any_loop_as [OF sound before_after_frame(2) [OF ba] _ ea, of False 0] cz unfolding ends_as_def by auto
    let ?k = "?c\<lparr>ic_Deferred := dbit u\<rparr>"
    have step: "set_turn_of e d src emp m v rules sets k = take_turn e d src emp m sets
        (if b \<and> \<not> u then Final else if b then Continue True ?k else Continue v ?k)"
      using True by (cases b; cases u)
        (simp_all add: take_turn_def none same_nested [OF same] group_done_masks any same_restore)
    have one: "one_set_holds e d src emp n rules = (groups_hold e d n \<and> list_ex (\<lambda>r. holds e r ?n) rules)"
      unfolding one_set_holds_def none option.case ..
    have res: "ResetRuleCache (?c\<lparr>ic_Deferred := x\<rparr>) = ResetRuleCache m" for x by simp
    consider "b" "\<not> u" | "b" "u" | "\<not> b" by blast
    then have "turn_ok e d src emp m n v rules (if b \<and> \<not> u then Final else if b then Continue True ?k else Continue v ?k)"
    proof cases
      case 1
      then have "undecided d m \<or> one_set_holds e d src emp n rules" unfolding one using gd(2) [OF True] p(2) by blast
      then show ?thesis using 1 by (simp add: turn_ok_def)
    next
      case 2
      then have "ic_IgnoreDestination m" "list_ex (deferring src) rules" using q by blast+
      then show ?thesis using 2 free res by (simp add: turn_ok_def)
    next
      case 3
      then have "\<not> one_set_holds e d src emp n rules" unfolding one using p(1) by blast
      then show ?thesis using 3 res by (simp add: turn_ok_def)
    qed
    with step show ?thesis by blast
  qed
qed

lemma sets_loop_as:
  assumes "\<forall>rules\<in>set sets. \<forall>r\<in>set rules. sound_rule e r" "before_after m n" "ic_Deferred m = 0"
    "ic_IgnoreDestination m \<longrightarrow>
       early_groups (ic_MatchSource m) d \<and> list_all (early_set (ic_MatchSource m) d src) sets"
    "ResetRuleCache k = ResetRuleCache m" "v \<longrightarrow> \<not> satisfied e d m DestinationAddress"
  shows "ends_as (take_turn e d src emp m sets (Continue v k)) m (\<lambda>b u.
     (v \<or> list_ex (one_set_holds e d src emp n) sets \<longrightarrow> b) \<and>
     (b \<and> \<not> (u \<and> \<not> satisfied e d m DestinationAddress) \<longrightarrow> list_ex (one_set_holds e d src emp n) sets) \<and>
     (\<not> v \<and> (\<not> ic_IgnoreDestination m \<or> addresses_of (ic_MatchSource m) d = [] \<and> \<not> list_ex (list_ex (deferring src)) sets)
        \<longrightarrow> \<not> u))"
  using assms
proof (induction sets arbitrary: v k)
  case Nil
  have und: "undecided d m \<longrightarrow> ic_IgnoreDestination m \<and> addresses_of (ic_MatchSource m) d \<noteq> []"
    using undecided_ignores by blast
  have "take_turn e d src emp m [] (Continue v k) = (v, m\<lparr>ic_Deferred := dbit (undecided d m \<or> v)\<rparr>)"
    by (cases v) (simp_all add: take_turn_def finish_sets_def same_restore [OF Nil.prems(5)] Let_def)
  then show ?case by (rule ends_asI) (use Nil.prems(6) und in auto)
next
  case (Cons rules sets)
  have ig: "ic_IgnoreDestination m \<longrightarrow> early_groups (ic_MatchSource m) d \<and> early_set (ic_MatchSource m) d src rules"
    and sound: "\<forall>r\<in>set rules. sound_rule e r" using Cons.prems(1,4) by simp_all
  obtain t where step: "take_turn e d src emp m (rules # sets) (Continue v k) = take_turn e d src emp m sets t"
      and ok: "turn_ok e d src emp m n v rules t"
    using branch_turn [OF Cons.prems(2,5) ig, where e = e and emp = emp and v = v and sets = sets]
      plain_turn [OF Cons.prems(2,5,3) ig _ sound, where emp = emp and v = v and sets = sets]
    by (cases "mergeableRuleIn rules") (auto simp only: take_turn_def set_turn.case)
  show ?case
  proof (cases t)
    case Final
    have und: "undecided d m \<longrightarrow> ic_IgnoreDestination m \<and> addresses_of (ic_MatchSource m) d \<noteq> [] \<and>
        \<not> satisfied e d m DestinationAddress"
      using undecided_ignores undecided_view(3) [OF Cons.prems(2)] by blast
    have fin: "take_turn e d src emp m sets t = (True, m\<lparr>ic_Deferred := dbit (undecided d m)\<rparr>)"
      by (simp only: Final take_turn_def set_turn.case)
    show ?thesis
      unfolding step by (rule ends_asI [OF fin]) (use ok und in \<open>simp only: Final turn_ok_def set_turn.case list_ex_Cons, sat\<close>)
  next
    case (Continue w j)
    note tt = ok [unfolded Continue turn_ok_def set_turn.case]
    note t = conjunct1 [OF tt] conjunct2 [OF tt]
    have w: "w \<longrightarrow> \<not> satisfied e d m DestinationAddress" using t(2) Cons.prems(6) by (auto split: if_splits)
    show ?thesis
      unfolding step Continue
      by (rule ends_as_mono [OF Cons.IH [OF _ Cons.prems(2,3) _ t(1) w]])
        (use Cons.prems(1,4,6) t(2) w in \<open>(simp; fail) | (unfold list_ex_Cons if_bool_eq_conj, sat)\<close>)+
  qed
qed

lemma set_holds_alt:
  "set_holds e d (RuleSetItem sets src emp) m = list_ex (one_set_holds e d src emp m) sets"
  by (simp add: one_set_holds_def [abs_def])

lemma early_alt:
  "early source (DefaultRule d rs invert resp) =
     (Option.is_none resp \<and> early_groups source d \<and>
      (case rs of None \<Rightarrow> True | Some (RuleSetItem sets src _) \<Rightarrow> list_all (early_set source d src) sets))"
  by (auto simp: early_groups_def early_set_def [abs_def] split: option.split rule_set_item.split)

section \<open>Soundness of matching\<close>

lemma default_rule_as:
  assumes sound: "\<forall>s\<in>set_option rs. case s of RuleSetItem sets _ _ \<Rightarrow> \<forall>rules\<in>set sets. \<forall>r\<in>set rules. sound_rule e r"
    and ba: "before_after m n" and zero: "ic_Deferred m = 0"
    and ea: "ic_IgnoreDestination m \<longrightarrow> early (ic_MatchSource m) (DefaultRule d rs invert resp)"
  shows "matches_as (default_match e d (map_option (\<lambda>s g k. matchWithOuterGroups e s g k) rs) invert m) m
     (\<not> ic_IgnoreDestination m \<or> \<not> deferring (ic_MatchSource m) (DefaultRule d rs invert resp))
     (default_holds e n d (map_option (\<lambda>s k. set_holds e d s k) rs) invert)" (is "matches_as _ _ ?quiet _")
proof (rule default_match_as [OF _ _ zero])
  have eg: "ic_IgnoreDestination m \<longrightarrow> early_groups (ic_MatchSource m) d" using ea unfolding early_alt by blast
  then have plain: "ic_IgnoreDestination m \<longrightarrow> plain_items (ic_MatchSource m) d"
    and sep: "ic_IgnoreDestination m \<longrightarrow>
      dr_destinationAddressItems d = [] \<or> addresses_of (ic_MatchSource m) d = []" by (simp_all add: early_groups_def)
  have quiet: "?quiet \<Longrightarrow> \<not> undecided d m" using undecided_ignores [of d m] by (auto split: option.splits)
  show "matches_as (matchInner e d (map_option (\<lambda>s g k. matchWithOuterGroups e s g k) rs) m) m ?quiet
     (list_all (item_match e n) (dr_items d) \<and>
      (case map_option (\<lambda>s k. set_holds e d s k) rs of None \<Rightarrow> groups_hold e d n | Some f \<Rightarrow> f n))"
  proof (cases rs)
    case None
    then show ?thesis using matchInner_groups [OF ba plain sep zero quiet] by simp
  next
    case (Some s)
    obtain sets src emp where s: "s = RuleSetItem sets src emp" by (cases s)
    have es: "ic_IgnoreDestination m \<longrightarrow>
        early_groups (ic_MatchSource m) d \<and> list_all (early_set (ic_MatchSource m) d src) sets"
      using ea unfolding early_alt by (simp add: Some s)
    let ?m = "m\<lparr>ic_Deferred := dbit (undecided d m)\<rparr>"
    have same: "ResetRuleCache ?m = ResetRuleCache m" by simp
    have so: "\<forall>rules\<in>set sets. \<forall>r\<in>set rules. sound_rule e r" using sound by (simp add: Some s)
    obtain b u where f: "matchWithOuterGroups e s (group_masks (required d m) (satisfied e d m)) ?m = (b, m\<lparr>ic_Deferred := dbit u\<rparr>)"
        and p: "decides b (u \<and> \<not> satisfied e d m DestinationAddress) (set_holds e d s n)"
        and q: "?quiet \<longrightarrow> \<not> u"
      using sets_loop_as [OF so ba zero es same, of False emp] unfolding ends_as_def
      by (auto simp: s Some take_turn_def decides_def set_holds_alt simp del: set_holds.simps)
    show ?thesis
      using matchInner_sets [where f = "\<lambda>g k. matchWithOuterGroups e s g k", OF ba plain zero quiet f p] q
      by (simp add: Some)
  qed
qed (simp_all add: Option.is_none_def)

lemma logical_rule_as:
  assumes sound: "\<forall>r\<in>set rules. sound_rule e r" and ba: "before_after m n" and zero: "ic_Deferred m = 0"
    and ea: "ic_IgnoreDestination m \<longrightarrow> list_all (early False) rules"
  shows "matches_as (Match e (LogicalRule mode rules invert) m) m
     (\<not> ic_IgnoreDestination m \<or> \<not> list_ex (deferring False) rules) (holds e (LogicalRule mode rules invert) n)"
proof -
  define h where "h = (if mode = LogicalTypeAnd then list_all (\<lambda>r. holds e r (ResetRuleCache n)) rules
      else list_ex (\<lambda>r. holds e r (ResetRuleCache n)) rules)"
  have "loop_as (if mode = LogicalTypeAnd then and_loop e 0 rules m else or_loop e False 0 rules m) m
      (\<lambda>b u. decides b u h \<and> (\<not> b \<longrightarrow> \<not> u) \<and>
        (\<not> ic_IgnoreDestination m \<or> \<not> list_ex (deferring False) rules \<longrightarrow> \<not> u))"
    using and_loop_as [OF sound ba ea refl, of False] or_loop_as [OF sound ba ea refl, of False]
    by (cases mode) (auto simp: h_def decides_def elim!: loop_as_mono)
  then obtain b u k where loop: "(if mode = LogicalTypeAnd then and_loop e 0 rules m else or_loop e False 0 rules m) = (b, dbit u, k)"
      and same: "ResetRuleCache k = ResetRuleCache m" and dec: "decides b u h"
      and q: "\<not> ic_IgnoreDestination m \<or> \<not> list_ex (deferring False) rules \<longrightarrow> \<not> u" "\<not> b \<longrightarrow> \<not> u"
    unfolding loop_as_def by blast
  have hh: "holds e (LogicalRule mode rules invert) n = (invert \<noteq> h)" by (simp add: h_def)
  have res: "Match e (LogicalRule mode rules invert) m =
      (if invert then \<not> b \<or> u else b, m\<lparr>ic_Deferred := dbit u\<rparr>)"
    using q(2) zero by (cases b) (simp_all add: loop finish_sets_def same_restore0 [OF same] deferred_zero)
  have dec': "decides (if invert then \<not> b \<or> u else b) u (invert \<noteq> h)"
    using dec unfolding decides_def by (cases invert; cases h; cases b; cases u) simp_all
  show ?thesis
    unfolding hh by (rule matches_asI [OF res dec' mp [OF q(1)]])
qed

lemma response_rule_as:
  assumes sound: "\<forall>s\<in>set_option rs. case s of RuleSetItem sets _ _ \<Rightarrow> \<forall>rules\<in>set sets. \<forall>r\<in>set rules. sound_rule e r"
    and ba: "before_after m n" and zero: "ic_Deferred m = 0" and ign: "\<not> ic_IgnoreDestination m"
  shows "matches_as (Match e (DefaultRule d rs invert (Some tag)) m) m quiet (holds e (DefaultRule d rs invert (Some tag)) n)"
proof -
  have n: "n = m" using ba ign by (simp add: before_after_def)
  show ?thesis
  proof (cases "response_for tag m")
    case None
    show ?thesis
      by (rule matches_asI [where b = invert and u = False]) (use zero in \<open>simp_all add: n None deferred_zero decides_def\<close>)
  next
    case (Some r)
    let ?m = "with_response (Some r) m"
    have "before_after ?m ?m" "ic_Deferred ?m = 0" "ic_IgnoreDestination ?m = False"
      using ign zero by (simp_all add: before_after_def with_response_def)
    then obtain b u where "default_match e d (map_option (\<lambda>s g k. matchWithOuterGroups e s g k) rs) invert ?m =
          (b, ?m\<lparr>ic_Deferred := dbit u\<rparr>)"
        "decides b u (default_holds e ?m d (map_option (\<lambda>s k. set_holds e d s k) rs) invert)" "\<not> u"
      using default_rule_as [OF sound, of ?m ?m d invert None] unfolding matches_as_def by auto
    then show ?thesis
      by (intro matches_asI [where b = b and u = False]) (use zero in \<open>auto simp: n Some deferred_zero decides_def\<close>)
  qed
qed

lemma sound_rules:
  "sound_rule e r" "case s of RuleSetItem sets _ _ \<Rightarrow> \<forall>rules\<in>set sets. \<forall>r\<in>set rules. sound_rule e r"
proof (induction r and s)
  case (DefaultRule d rs invert resp)
  then have so: "\<forall>s\<in>set_option rs. case s of RuleSetItem sets _ _ \<Rightarrow> \<forall>rules\<in>set sets. \<forall>r\<in>set rules. sound_rule e r"
    by blast
  show ?case
    unfolding sound_rule_def
  proof (intro allI impI)
    fix m n assume ba: "before_after m n" and zero: "ic_Deferred m = 0"
      and ea: "ic_IgnoreDestination m \<longrightarrow> early (ic_MatchSource m) (DefaultRule d rs invert resp)"
    show "matches_as (Match e (DefaultRule d rs invert resp) m) m
       (\<not> ic_IgnoreDestination m \<or> \<not> deferring (ic_MatchSource m) (DefaultRule d rs invert resp))
       (holds e (DefaultRule d rs invert resp) n)"
    proof (cases resp)
      case None
      then show ?thesis
        using default_rule_as [OF so ba zero ea] by (simp only: Match.simps holds.simps option.case)
    next
      case (Some tag)
      then have "\<not> ic_IgnoreDestination m" using ea by (simp add: early_alt del: early.simps)
      then show ?thesis unfolding Some by (rule response_rule_as [OF so ba zero])
    qed
  qed
next
  case (LogicalRule mode rules invert)
  then have "\<forall>r\<in>set rules. sound_rule e r" by blast
  note as = logical_rule_as [OF this]
  show ?case
    unfolding sound_rule_def early.simps deferring.simps by (intro allI impI, rule as)
qed auto

lemma Match_holds:
  assumes "\<not> ic_IgnoreDestination m" "ic_Deferred m = 0"
  shows "Match e r m = (holds e r m, m)"
proof -
  have "before_after m m" using assms(1) by (simp add: before_after_def)
  then obtain b u where "Match e r m = (b, m\<lparr>ic_Deferred := dbit u\<rparr>)" "decides b u (holds e r m)" "\<not> u"
    using sound_ruleE [OF sound_rules(1), of m m r e thesis] assms by blast
  then show ?thesis using assms(2) by (auto simp: decides_def deferred_zero)
qed

section \<open>Properties\<close>

definition demo_rule_env :: rule_env where
  "demo_rule_env = \<lparr>re_IsIP = (\<lambda>a. IsValid (sx_Addr a)), re_IsIPv6 = (\<lambda>a. Is6 (sx_Addr a)),
     re_IsPublicAddr = IsGlobalUnicast, re_AddrFromIP = (\<lambda>bs. IPv4 (of_nat (be_nat bs))),
     re_IsDuplicate = (=), re_CanonicalName = id, re_uni = id, re_trim = id, re_EqualFold = (=), re_Base = id,
     re_windows = False, re_android = False, re_clashMode = None, re_network = None, re_default = None,
     re_interfaces = [], re_networks = [], re_mine = [], re_SSID = [], re_BSSID = []\<rparr>"

definition demo_ctx :: inbound_context where
  "demo_ctx = \<lparr>ic_Inbound = [], ic_IPVersion = 4, ic_Network = ''tcp'',
     ic_Source = \<lparr>sx_Addr = IPv4 0x0a000001, sx_Port = 40000, sx_Fqdn = []\<rparr>,
     ic_Destination = \<lparr>sx_Addr = NoAddr, sx_Port = 443, sx_Fqdn = ''a.example''\<rparr>,
     ic_TunnelSource = [], ic_TunnelDestination = [], ic_User = [], ic_Outbound = [], ic_Protocol = [],
     ic_Domain = [], ic_Client = [], ic_DestinationAddresses = [], ic_DNSResponse = None,
     ic_NamedDNSResponses = (\<lambda>_. None), ic_FromResponse = False, ic_ProcessInfo = None,
     ic_SourceMACAddress = None, ic_SourceHostname = [], ic_QueryType = 1, ic_QueryClientSubnet = None,
     ic_QueryDNSSEC = False, ic_MatchSource = False, ic_AcceptEmpty = False, ic_Deferred = 0,
     ic_IgnoreDestination = False\<rparr>"

definition no_conditions :: default_rule where
  "no_conditions = \<lparr>dr_items = [], dr_sourceAddressItems = [], dr_sourcePortItems = [],
     dr_destinationAddressItems = [], dr_destinationIPCIDRItems = [], dr_destinationPortItems = [], dr_allItems = []\<rparr>"

definition name_rule :: "string \<Rightarrow> default_rule" where
  "name_rule s = no_conditions\<lparr>dr_destinationAddressItems := [DomainItem ((=) s)], dr_allItems := [DomainItem ((=) s)]\<rparr>"

definition address_rule :: "(addr \<Rightarrow> bool) \<Rightarrow> default_rule" where
  "address_rule p = no_conditions\<lparr>dr_destinationIPCIDRItems := [IPCIDRItem p False], dr_allItems := [IPCIDRItem p False]\<rparr>"

text \<open>
  C21. A rule matches exactly if its Boolean reading holds, for every nesting of logical rules, inversions
  and rule sets, and matching leaves the metadata as it found it: the flags it sets for nested rules
  never leak to the rules that follow.
\<close>

theorem match_meaning:
  assumes "\<not> ic_IgnoreDestination m" "ic_Deferred m = 0"
  shows "Match e r m = (holds e r m, m)"
  using assms by (rule Match_holds)

theorem match_meaning_witness:
  "Match demo_rule_env (LogicalRule LogicalTypeAnd [DefaultRule (name_rule ''a.example'') None False None,
      DefaultRule (name_rule ''b.example'') None True None] False) demo_ctx = (True, demo_ctx)"
proof -
  have c: "\<not> ic_IgnoreDestination demo_ctx" "ic_Deferred demo_ctx = 0" by (simp_all add: demo_ctx_def)
  have "holds demo_rule_env (LogicalRule LogicalTypeAnd [DefaultRule (name_rule ''a.example'') None False None,
      DefaultRule (name_rule ''b.example'') None True None] False) demo_ctx" by code_simp
  then show ?thesis using match_meaning [OF c] by simp
qed

end
