(* ===== verification/DNS_Rules.thy ===== *)
theory DNS_Rules
  imports Rule_Semantics
begin

unbundle bit_operations_syntax

text \<open>
  DNS rules that filter by the addresses of the response (the matching methods of \<open>rule_dns.go\<close>): the
  match before the query is sent, with address conditions deferred, and the match of the response.
\<close>

section \<open>Operations\<close>

definition LegacyPreMatch :: "rule_env \<Rightarrow> rule \<Rightarrow> inbound_context \<Rightarrow> bool \<times> inbound_context" where
  "LegacyPreMatch e r m =
     (let pre = (let (b, m1) = Match e r (m\<lparr>ic_IgnoreDestination := True\<rparr>) in (b, m1\<lparr>ic_IgnoreDestination := False\<rparr>))
      in case r of
           DefaultRule _ _ _ (Some _) \<Rightarrow> (False, m)
         | _ \<Rightarrow> pre)"

text \<open>A default rule is matched against the response handed in, whatever response it names itself.\<close>

fun plain_rule :: "rule \<Rightarrow> rule" where
  "plain_rule (DefaultRule d rs invert resp) = DefaultRule d rs invert None"
| "plain_rule (LogicalRule mode rules invert) = LogicalRule mode rules invert"

definition MatchAddressLimit :: "rule_env \<Rightarrow> rule \<Rightarrow> inbound_context \<Rightarrow> dns_msg option \<Rightarrow> bool" where
  "MatchAddressLimit e r m response = fst (Match e (plain_rule r) (with_response response (ResetRuleCache m)))"

text \<open>Whether a rule set has conditions on destination addresses (\<open>ContainsIPCIDRRule\<close> of its metadata).\<close>

fun contains_ipcidr :: "rule \<Rightarrow> bool" where
  "contains_ipcidr (DefaultRule d rs invert resp) = (dr_destinationIPCIDRItems d \<noteq> [])"
| "contains_ipcidr (LogicalRule mode rules invert) = list_ex contains_ipcidr rules"

fun ContainsDestinationIPCIDRRule :: "rule_set_item \<Rightarrow> bool" where
  "ContainsDestinationIPCIDRRule (RuleSetItem setList source emptyOk) =
     (if source then False else list_ex (list_ex contains_ipcidr) setList)"

fun WithAddressLimit :: "rule \<Rightarrow> bool" where
  "WithAddressLimit (DefaultRule d rs invert resp) =
     (if dr_destinationIPCIDRItems d \<noteq> [] then True
      else case rs of None \<Rightarrow> False | Some s \<Rightarrow> ContainsDestinationIPCIDRRule s)"
| "WithAddressLimit (LogicalRule mode rules invert) = list_ex WithAddressLimit rules"

section \<open>Early answers\<close>

lemma early_plain: "early source r \<Longrightarrow> plain_rule r = r"
  by (cases r) (simp_all add: Option.is_none_def)

lemma LegacyPreMatch_early:
  assumes "early False r"
  shows "LegacyPreMatch e r m =
    (let (b, m1) = Match e r (m\<lparr>ic_IgnoreDestination := True\<rparr>) in (b, m1\<lparr>ic_IgnoreDestination := False\<rparr>))"
  using assms by (cases r) (auto simp: LegacyPreMatch_def Option.is_none_def)

lemma prematch_as:
  assumes "early False r" "\<not> ic_IgnoreDestination m"
  shows "\<exists>b u. LegacyPreMatch e r (ResetRuleCache m) = (b, (ResetRuleCache m)\<lparr>ic_Deferred := dbit u\<rparr>) \<and>
     (\<forall>response. MatchAddressLimit e r m response \<longrightarrow> b) \<and>
     (b \<and> \<not> u \<longrightarrow> (\<forall>response. MatchAddressLimit e r m response)) \<and> (\<not> deferring False r \<longrightarrow> \<not> u)"
proof -
  let ?c = "(ResetRuleCache m)\<lparr>ic_IgnoreDestination := True\<rparr>"
  have zero: "ic_Deferred ?c = 0" and ea: "ic_IgnoreDestination ?c \<longrightarrow> early (ic_MatchSource ?c) r"
    using assms(1) by simp_all
  have full: "MatchAddressLimit e r m response = holds e r (with_response response (ResetRuleCache m))" for response
    unfolding MatchAddressLimit_def early_plain [OF assms(1)]
    using assms(2) by (subst Match_holds) (simp_all add: with_response_def)
  have ba: "before_after ?c (with_response response (ResetRuleCache m))" for response
    using assms(2) by (simp add: before_after_def with_response_def ResetRuleCache_def ResetRuleMatchCache_def)
  obtain b u where r: "Match e r ?c = (b, ?c\<lparr>ic_Deferred := dbit u\<rparr>)"
      and q: "\<not> deferring False r \<longrightarrow> \<not> u"
    by (rule sound_ruleE [OF sound_rules(1) [of e] ba zero ea]) (rule that, assumption, simp)
  have dec: "decides b u (holds e r (with_response response (ResetRuleCache m)))" for response
  proof (rule sound_ruleE [OF sound_rules(1) [of e] ba zero ea])
    fix b' u' assume "Match e r ?c = (b', ?c\<lparr>ic_Deferred := dbit u'\<rparr>)"
      "decides b' u' (holds e r (with_response response (ResetRuleCache m)))"
    moreover from this(1) have "b' = fst (Match e r ?c)" "dbit u' = ic_Deferred (snd (Match e r ?c))" by simp_all
    then have "b' = b" "dbit u' = dbit u" by (simp_all add: r)
    ultimately show ?thesis by (metis dbit_simps(1))
  qed
  have "(?c\<lparr>ic_Deferred := dbit u\<rparr>)\<lparr>ic_IgnoreDestination := False\<rparr> = (ResetRuleCache m)\<lparr>ic_Deferred := dbit u\<rparr>"
    using assms(2) by (cases m) (simp add: ResetRuleCache_def ResetRuleMatchCache_def)
  then show ?thesis
    using dec q unfolding full LegacyPreMatch_early [OF assms(1)] r decides_def by auto
qed


definition demo_response :: "byte \<Rightarrow> dns_msg" where
  "demo_response b = \<lparr>dm_Rcode = 0, dm_Answer = [\<lparr>rr_header = [], rr_data = RR_A [10, 0, 0, b]\<rparr>], dm_Ns = [], dm_Extra = []\<rparr>"

definition low_addresses :: "addr \<Rightarrow> bool" where
  "low_addresses a = (case a of IPv4 w \<Rightarrow> w \<le> 0x0a00007f | _ \<Rightarrow> False)"

definition filter_rule :: rule where
  "filter_rule = LogicalRule LogicalTypeAnd [DefaultRule (name_rule ''a.example'') None False None,
     DefaultRule (address_rule low_addresses) None True None] False"


section \<open>Limits of early answers\<close>


text \<open>
  A rule set named with \<open>rule_set_ip_cidr_match_source\<close> compares its address conditions with the source
  of the connection, but not inside its logical rules: \<open>Match\<close> of a logical rule clears the flag for
  its sub-rules, which then look at the destination.
\<close>

lemma match_source_dropped:
  "let named = (\<lambda>r. DefaultRule no_conditions (Some (RuleSetItem [[r]] True False)) False None);
       plain = DefaultRule (address_rule low_addresses) None False None
   in holds demo_rule_env (named plain) demo_ctx \<and>
      \<not> holds demo_rule_env (named (LogicalRule LogicalTypeOr [plain] False)) demo_ctx"
  by code_simp

text \<open>Rules as the constructors build them: rule sets hold headless rules, which name no rule sets.\<close>

fun headless :: "rule \<Rightarrow> bool" where
  "headless (DefaultRule d rs invert resp) = (Option.is_none rs \<and> Option.is_none resp)"
| "headless (LogicalRule mode rules invert) = list_all headless rules"

fun is_default :: "rule \<Rightarrow> bool" where
  "is_default (DefaultRule d rs invert resp) = True"
| "is_default (LogicalRule mode rules invert) = False"

fun simple_sets :: "rule \<Rightarrow> bool" where
  "simple_sets (DefaultRule d rs invert resp) =
     (case rs of None \<Rightarrow> True | Some (RuleSetItem setList source emptyOk) \<Rightarrow>
        list_all (list_all (\<lambda>r. headless r \<and> (source \<longrightarrow> is_default r))) setList)"
| "simple_sets (LogicalRule mode rules invert) = list_all simple_sets rules"

lemma headless_deferring: "headless r \<Longrightarrow> deferring False r = contains_ipcidr r"
  by (induction r rule: contains_ipcidr.induct)
    (auto simp: addresses_of_def Option.is_none_def list_all_iff list_ex_iff)

lemma headless_source: "headless r \<Longrightarrow> is_default r \<Longrightarrow> \<not> deferring True r"
  by (cases r) (auto simp: addresses_of_def Option.is_none_def)

lemma unlimited_deferring: "simple_sets r \<Longrightarrow> \<not> WithAddressLimit r \<Longrightarrow> \<not> deferring False r"
proof (induction r rule: WithAddressLimit.induct)
  case (1 d rs invert resp)
  then show ?case
    by (cases rs rule: option.exhaust [OF _ rule_set_item.exhaust])
      (auto simp: addresses_of_def list_all_iff list_ex_iff headless_deferring headless_source
        split: if_splits option.splits rule_set_item.splits)
next
  case (2 mode rules invert)
  then show ?case by (auto simp: list_all_iff list_ex_iff)
qed



end
