(* ===== verification/Rule_Build.thy ===== *)
theory Rule_Build
  imports DNS_Rules
begin

text \<open>
  Headless rules from their options (\<open>rule_headless.go\<close>, the metadata of \<open>rule_set.go\<close> and the options
  of \<open>option/rule_set.go\<close>): which option becomes which condition in which group, and what the built rule means.
\<close>

section \<open>Options\<close>

text \<open>
  The lists of the options, where the empty list also stands for an absent one; the validity test tells
  the two apart, so \<open>ho_emptyIPCIDR\<close> says whether \<open>ip_cidr\<close>, and \<open>ho_emptyLists\<close> whether some other list
  is present but empty. Matchers and address sets of binary rule sets come compiled.
\<close>

record headless_options =
  ho_QueryType :: "u16 list"
  ho_Network :: "string list"
  ho_Domain :: "string list"
  ho_DomainSuffix :: "string list"
  ho_DomainKeyword :: "string list"
  ho_DomainRegex :: "string list"
  ho_SourceIPCIDR :: "string list"
  ho_IPCIDR :: "string list"
  ho_SourcePort :: "u16 list"
  ho_SourcePortRange :: "string list"
  ho_Port :: "u16 list"
  ho_PortRange :: "string list"
  ho_TunnelSource :: "string list"
  ho_TunnelDestination :: "string list"
  ho_ProcessName :: "string list"
  ho_ProcessPath :: "string list"
  ho_ProcessPathRegex :: "string list"
  ho_PackageName :: "string list"
  ho_PackageNameRegex :: "string list"
  ho_NetworkType :: "nat list"
  ho_NetworkIsExpensive :: bool
  ho_NetworkIsConstrained :: bool
  ho_WIFISSID :: "string list"
  ho_WIFIBSSID :: "string list"
  ho_NetworkInterfaceAddress :: "(nat \<times> ip_prefix list) list"
  ho_DefaultInterfaceAddress :: "ip_prefix list"
  ho_Invert :: bool
  ho_DomainMatcher :: "(string \<Rightarrow> bool) option"
  ho_SourceIPSet :: "(addr \<Rightarrow> bool) option"
  ho_IPSet :: "(addr \<Rightarrow> bool) option"
  ho_AdGuardDomain :: "string list"
  ho_AdGuardDomainMatcher :: "(string \<Rightarrow> bool) option"
  ho_emptyIPCIDR :: bool
  ho_emptyLists :: bool

datatype headless_rule_options =
  HeadlessRule (hr_type: string) (hr_default: headless_options) (hr_mode: string)
    (hr_rules: "headless_rule_options list") (hr_invert: bool)

text \<open>Libraries outside the repository that compile matchers, expressions and address sets.\<close>

record rule_lib =
  rl_NewMatcher :: "string list \<Rightarrow> string list \<Rightarrow> string \<Rightarrow> bool"
  rl_NewAdGuardMatcher :: "string list \<Rightarrow> string \<Rightarrow> bool"
  rl_compile :: "string \<Rightarrow> (string \<Rightarrow> bool) option"
  rl_IPSet :: "(ip_prefix + addr) list \<Rightarrow> (addr \<Rightarrow> bool) option"

definition headless_IsValid :: "headless_options \<Rightarrow> bool" where
  "headless_IsValid x =
     (\<not> (ho_QueryType x = [] \<and> ho_Network x = [] \<and> ho_Domain x = [] \<and> ho_DomainSuffix x = [] \<and>
         ho_DomainKeyword x = [] \<and> ho_DomainRegex x = [] \<and> ho_SourceIPCIDR x = [] \<and> ho_IPCIDR x = [] \<and>
         ho_SourcePort x = [] \<and> ho_SourcePortRange x = [] \<and> ho_Port x = [] \<and> ho_PortRange x = [] \<and>
         ho_TunnelSource x = [] \<and> ho_TunnelDestination x = [] \<and> ho_ProcessName x = [] \<and> ho_ProcessPath x = [] \<and>
         ho_ProcessPathRegex x = [] \<and> ho_PackageName x = [] \<and> ho_PackageNameRegex x = [] \<and>
         ho_NetworkType x = [] \<and> \<not> ho_NetworkIsExpensive x \<and> \<not> ho_NetworkIsConstrained x \<and>
         ho_WIFISSID x = [] \<and> ho_WIFIBSSID x = [] \<and> ho_NetworkInterfaceAddress x = [] \<and>
         ho_DefaultInterfaceAddress x = [] \<and> Option.is_none (ho_DomainMatcher x) \<and>
         Option.is_none (ho_SourceIPSet x) \<and> Option.is_none (ho_IPSet x) \<and> ho_AdGuardDomain x = [] \<and>
         Option.is_none (ho_AdGuardDomainMatcher x) \<and> \<not> ho_emptyIPCIDR x \<and> \<not> ho_emptyLists x))"

text \<open>\<open>IsValid\<close> of a rule; an unknown type in a nested rule panics.\<close>

fun HeadlessRule_IsValid :: "headless_rule_options \<Rightarrow> rule_error + bool"
and all_valid :: "headless_rule_options list \<Rightarrow> rule_error + bool" where
  "HeadlessRule_IsValid (HeadlessRule ty x mode rules invert) =
     (if ty = ''default'' \<or> ty = [] then Inr (headless_IsValid x)
      else if ty = ''logical'' then (if length rules > 0 then all_valid rules else Inr False)
      else Inl (RulePanic (''unknown rule type: '' @ ty)))"
| "all_valid [] = Inr True"
| "all_valid (r # rules) =
     (case HeadlessRule_IsValid r of
        Inl err \<Rightarrow> Inl err
      | Inr b \<Rightarrow> if b then all_valid rules else Inr False)"

section \<open>Construction\<close>

definition bind_err :: "'e + 'a \<Rightarrow> ('a \<Rightarrow> 'e + 'b) \<Rightarrow> 'e + 'b" where
  "bind_err r f = (case r of Inl err \<Rightarrow> Inl err | Inr a \<Rightarrow> f a)"

definition with_cause :: "string \<Rightarrow> rule_error + 'a \<Rightarrow> rule_error + 'a" where
  "with_cause what r = (case r of Inl err \<Rightarrow> Inl (Cause what err) | Inr a \<Rightarrow> Inr a)"

text \<open>A condition is appended to its group and to all items, if its option is present.\<close>

definition add_other :: "rule_item \<Rightarrow> default_rule \<Rightarrow> default_rule" where
  "add_other i d = d\<lparr>dr_items := dr_items d @ [i], dr_allItems := dr_allItems d @ [i]\<rparr>"

definition add_source :: "rule_item \<Rightarrow> default_rule \<Rightarrow> default_rule" where
  "add_source i d = d\<lparr>dr_sourceAddressItems := dr_sourceAddressItems d @ [i], dr_allItems := dr_allItems d @ [i]\<rparr>"

definition add_source_port :: "rule_item \<Rightarrow> default_rule \<Rightarrow> default_rule" where
  "add_source_port i d = d\<lparr>dr_sourcePortItems := dr_sourcePortItems d @ [i], dr_allItems := dr_allItems d @ [i]\<rparr>"

definition add_destination :: "rule_item \<Rightarrow> default_rule \<Rightarrow> default_rule" where
  "add_destination i d =
     d\<lparr>dr_destinationAddressItems := dr_destinationAddressItems d @ [i], dr_allItems := dr_allItems d @ [i]\<rparr>"

definition add_ipcidr :: "rule_item \<Rightarrow> default_rule \<Rightarrow> default_rule" where
  "add_ipcidr i d =
     d\<lparr>dr_destinationIPCIDRItems := dr_destinationIPCIDRItems d @ [i], dr_allItems := dr_allItems d @ [i]\<rparr>"

definition add_port :: "rule_item \<Rightarrow> default_rule \<Rightarrow> default_rule" where
  "add_port i d = d\<lparr>dr_destinationPortItems := dr_destinationPortItems d @ [i], dr_allItems := dr_allItems d @ [i]\<rparr>"

definition given :: "bool \<Rightarrow> (default_rule \<Rightarrow> rule_error + default_rule) \<Rightarrow> default_rule \<Rightarrow> rule_error + default_rule" where
  "given c f d = (if c then f d else Inr d)"

definition headless_names :: "rule_lib \<Rightarrow> headless_options \<Rightarrow> default_rule \<Rightarrow> rule_error + default_rule" where
  "headless_names L x d =
     bind_err (given (ho_QueryType x \<noteq> []) (\<lambda>d. Inr (add_other (QueryTypeItem (ho_QueryType x)) d)) d) (\<lambda>d.
     bind_err (given (ho_Network x \<noteq> []) (\<lambda>d. Inr (add_other (NetworkItem (ho_Network x)) d)) d) (\<lambda>d.
     bind_err
       (if ho_Domain x \<noteq> [] \<or> ho_DomainSuffix x \<noteq> [] then
          bind_err (NewDomainItem (rl_NewMatcher L) (ho_Domain x) (ho_DomainSuffix x))
            (\<lambda>f. Inr (add_destination (DomainItem f) d))
        else case ho_DomainMatcher x of Some f \<Rightarrow> Inr (add_destination (DomainItem f) d) | None \<Rightarrow> Inr d) (\<lambda>d.
     bind_err (given (ho_DomainKeyword x \<noteq> [])
       (\<lambda>d. Inr (add_destination (DomainKeywordItem (ho_DomainKeyword x)) d)) d) (\<lambda>d.
     given (ho_DomainRegex x \<noteq> [])
       (\<lambda>d. bind_err (with_cause ''domain_regex'' (compile_all (rl_compile L) 0 (ho_DomainRegex x)))
              (\<lambda>rs. Inr (add_destination (DomainRegexItem rs) d))) d))))"

definition headless_addresses :: "rule_lib \<Rightarrow> headless_options \<Rightarrow> default_rule \<Rightarrow> rule_error + default_rule" where
  "headless_addresses L x d =
     bind_err
       (if ho_SourceIPCIDR x \<noteq> [] then
          bind_err (with_cause ''source_ip_cidr'' (NewIPCIDRItem (rl_IPSet L) (ho_SourceIPCIDR x)))
            (\<lambda>s. Inr (add_source (IPCIDRItem s True) d))
        else case ho_SourceIPSet x of Some s \<Rightarrow> Inr (add_source (IPCIDRItem s True) d) | None \<Rightarrow> Inr d) (\<lambda>d.
     if ho_IPCIDR x \<noteq> [] then
       bind_err (with_cause ''ipcidr'' (NewIPCIDRItem (rl_IPSet L) (ho_IPCIDR x)))
         (\<lambda>s. Inr (add_ipcidr (IPCIDRItem s False) d))
     else case ho_IPSet x of Some s \<Rightarrow> Inr (add_ipcidr (IPCIDRItem s False) d) | None \<Rightarrow> Inr d)"

definition headless_ports :: "headless_options \<Rightarrow> default_rule \<Rightarrow> rule_error + default_rule" where
  "headless_ports x d =
     bind_err (given (ho_SourcePort x \<noteq> []) (\<lambda>d. Inr (add_source_port (PortItem (ho_SourcePort x) True) d)) d) (\<lambda>d.
     bind_err (given (ho_SourcePortRange x \<noteq> [])
       (\<lambda>d. bind_err (with_cause ''source_port_range'' (NewPortRangeItem (ho_SourcePortRange x)))
              (\<lambda>rs. Inr (add_source_port (PortRangeItem rs True) d))) d) (\<lambda>d.
     bind_err (given (ho_Port x \<noteq> []) (\<lambda>d. Inr (add_port (PortItem (ho_Port x) False) d)) d) (\<lambda>d.
     given (ho_PortRange x \<noteq> [])
       (\<lambda>d. bind_err (with_cause ''port_range'' (NewPortRangeItem (ho_PortRange x)))
              (\<lambda>rs. Inr (add_port (PortRangeItem rs False) d))) d)))"

definition headless_process ::
  "rule_lib \<Rightarrow> rule_env \<Rightarrow> headless_options \<Rightarrow> default_rule \<Rightarrow> rule_error + default_rule" where
  "headless_process L e x d =
     bind_err (given (ho_TunnelSource x \<noteq> []) (\<lambda>d. Inr (add_other (TunnelSourceItem (ho_TunnelSource x)) d)) d) (\<lambda>d.
     bind_err (given (ho_TunnelDestination x \<noteq> [])
       (\<lambda>d. Inr (add_other (TunnelDestinationItem (ho_TunnelDestination x)) d)) d) (\<lambda>d.
     bind_err (given (ho_ProcessName x \<noteq> [])
       (\<lambda>d. Inr (add_other (ProcessItem (NewProcessItem e (ho_ProcessName x))) d)) d) (\<lambda>d.
     bind_err (given (ho_ProcessPath x \<noteq> []) (\<lambda>d. Inr (add_other (ProcessPathItem (ho_ProcessPath x)) d)) d) (\<lambda>d.
     bind_err (given (ho_ProcessPathRegex x \<noteq> [])
       (\<lambda>d. bind_err (with_cause ''process_path_regex'' (compile_all (rl_compile L) 0 (ho_ProcessPathRegex x)))
              (\<lambda>rs. Inr (add_other (ProcessPathRegexItem rs) d))) d) (\<lambda>d.
     bind_err (given (ho_PackageName x \<noteq> []) (\<lambda>d. Inr (add_other (PackageNameItem (ho_PackageName x)) d)) d) (\<lambda>d.
     given (ho_PackageNameRegex x \<noteq> [])
       (\<lambda>d. bind_err (with_cause ''package_name_regex'' (compile_all (rl_compile L) 0 (ho_PackageNameRegex x)))
              (\<lambda>rs. Inr (add_other (PackageNameRegexItem rs) d))) d))))))"

definition headless_network :: "bool \<Rightarrow> headless_options \<Rightarrow> default_rule \<Rightarrow> rule_error + default_rule" where
  "headless_network manager x d =
     given manager (\<lambda>d.
       bind_err (given (ho_NetworkType x \<noteq> []) (\<lambda>d. Inr (add_other (NetworkTypeItem (ho_NetworkType x)) d)) d) (\<lambda>d.
       bind_err (given (ho_NetworkIsExpensive x) (\<lambda>d. Inr (add_other NetworkIsExpensiveItem d)) d) (\<lambda>d.
       bind_err (given (ho_NetworkIsConstrained x) (\<lambda>d. Inr (add_other NetworkIsConstrainedItem d)) d) (\<lambda>d.
       bind_err (given (ho_WIFISSID x \<noteq> []) (\<lambda>d. Inr (add_other (WIFISSIDItem (ho_WIFISSID x)) d)) d) (\<lambda>d.
       bind_err (given (ho_WIFIBSSID x \<noteq> []) (\<lambda>d. Inr (add_other (WIFIBSSIDItem (ho_WIFIBSSID x)) d)) d) (\<lambda>d.
       bind_err (given (ho_NetworkInterfaceAddress x \<noteq> [])
         (\<lambda>d. Inr (add_other (NetworkInterfaceAddressItem (ho_NetworkInterfaceAddress x)) d)) d) (\<lambda>d.
       given (ho_DefaultInterfaceAddress x \<noteq> [])
         (\<lambda>d. Inr (add_other (DefaultInterfaceAddressItem (ho_DefaultInterfaceAddress x)) d)) d))))))) d"

definition headless_adguard :: "rule_lib \<Rightarrow> headless_options \<Rightarrow> default_rule \<Rightarrow> rule_error + default_rule" where
  "headless_adguard L x d =
     (if ho_AdGuardDomain x \<noteq> [] then
        Inr (add_destination (AdGuardDomainItem (rl_NewAdGuardMatcher L (ho_AdGuardDomain x))) d)
      else case ho_AdGuardDomainMatcher x of
        Some f \<Rightarrow> Inr (add_destination (AdGuardDomainItem f) d)
      | None \<Rightarrow> Inr d)"

definition NewDefaultHeadlessRule :: "rule_lib \<Rightarrow> rule_env \<Rightarrow> bool \<Rightarrow> headless_options \<Rightarrow> rule_error + rule" where
  "NewDefaultHeadlessRule L e manager x =
     bind_err (headless_names L x no_conditions) (\<lambda>d.
     bind_err (headless_addresses L x d) (\<lambda>d.
     bind_err (headless_ports x d) (\<lambda>d.
     bind_err (headless_process L e x d) (\<lambda>d.
     bind_err (headless_network manager x d) (\<lambda>d.
     bind_err (headless_adguard L x d) (\<lambda>d. Inr (DefaultRule d None (ho_Invert x) None)))))))"

fun NewHeadlessRule :: "rule_lib \<Rightarrow> rule_env \<Rightarrow> bool \<Rightarrow> headless_rule_options \<Rightarrow> rule_error + rule"
and sub_rules :: "rule_lib \<Rightarrow> rule_env \<Rightarrow> bool \<Rightarrow> nat \<Rightarrow> headless_rule_options list \<Rightarrow> rule_error + rule list" where
  "NewHeadlessRule L e manager (HeadlessRule ty x mode rules invert) =
     (if ty = [] \<or> ty = ''default'' then
        if \<not> headless_IsValid x then Inl MissingConditions else NewDefaultHeadlessRule L e manager x
      else if ty = ''logical'' then
        bind_err (HeadlessRule_IsValid (HeadlessRule ty x mode rules invert)) (\<lambda>valid.
        if \<not> valid then Inl MissingConditions
        else if mode = ''and'' then
          bind_err (sub_rules L e manager 0 rules) (\<lambda>rs. Inr (LogicalRule LogicalTypeAnd rs invert))
        else if mode = ''or'' then
          bind_err (sub_rules L e manager 0 rules) (\<lambda>rs. Inr (LogicalRule LogicalTypeOr rs invert))
        else Inl (UnknownLogicalMode mode))
      else Inl (UnknownRuleType ty))"
| "sub_rules L e manager i [] = Inr []"
| "sub_rules L e manager i (r # rules) =
     (case NewHeadlessRule L e manager r of
        Inl err \<Rightarrow> Inl (SubRule i err)
      | Inr rule \<Rightarrow> bind_err (sub_rules L e manager (i + 1) rules) (\<lambda>rs. Inr (rule # rs)))"

section \<open>Metadata of a rule set\<close>

fun HasHeadlessRule :: "(headless_options \<Rightarrow> bool) \<Rightarrow> headless_rule_options \<Rightarrow> bool" where
  "HasHeadlessRule cond (HeadlessRule ty x mode rules invert) =
     (if ty = ''default'' then cond x else if ty = ''logical'' then list_ex (HasHeadlessRule cond) rules else False)"

definition isProcessHeadlessRule :: "headless_options \<Rightarrow> bool" where
  "isProcessHeadlessRule x =
     (ho_ProcessName x \<noteq> [] \<or> ho_ProcessPath x \<noteq> [] \<or> ho_ProcessPathRegex x \<noteq> [] \<or> ho_PackageName x \<noteq> [] \<or>
      ho_PackageNameRegex x \<noteq> [])"

definition isWIFIHeadlessRule :: "headless_options \<Rightarrow> bool" where
  "isWIFIHeadlessRule x = (ho_WIFISSID x \<noteq> [] \<or> ho_WIFIBSSID x \<noteq> [])"

definition isIPCIDRHeadlessRule :: "headless_options \<Rightarrow> bool" where
  "isIPCIDRHeadlessRule x = (ho_IPCIDR x \<noteq> [] \<or> \<not> Option.is_none (ho_IPSet x))"

definition isDNSQueryTypeHeadlessRule :: "headless_options \<Rightarrow> bool" where
  "isDNSQueryTypeHeadlessRule x = (ho_QueryType x \<noteq> [])"

text \<open>Whether anything but the destination addresses and the inversion is given.\<close>

definition isNonIPCIDRHeadlessRule :: "headless_options \<Rightarrow> bool" where
  "isNonIPCIDRHeadlessRule x = headless_IsValid (x\<lparr>ho_IPCIDR := [], ho_emptyIPCIDR := False, ho_IPSet := None\<rparr>)"

record rule_set_metadata =
  rm_ContainsProcessRule :: bool
  rm_ContainsWIFIRule :: bool
  rm_ContainsIPCIDRRule :: bool
  rm_ContainsDNSQueryTypeRule :: bool
  rm_ContainsNonIPCIDRRule :: bool

definition buildRuleSetMetadata :: "headless_rule_options list \<Rightarrow> rule_set_metadata" where
  "buildRuleSetMetadata rules =
     \<lparr>rm_ContainsProcessRule = list_ex (HasHeadlessRule isProcessHeadlessRule) rules,
      rm_ContainsWIFIRule = list_ex (HasHeadlessRule isWIFIHeadlessRule) rules,
      rm_ContainsIPCIDRRule = list_ex (HasHeadlessRule isIPCIDRHeadlessRule) rules,
      rm_ContainsDNSQueryTypeRule = list_ex (HasHeadlessRule isDNSQueryTypeHeadlessRule) rules,
      rm_ContainsNonIPCIDRRule = list_ex (HasHeadlessRule isNonIPCIDRHeadlessRule) rules\<rparr>"

section \<open>Reading of the options\<close>

text \<open>
  The conditions an option list gives, by group: what belongs to a group is a matter of the option's
  name alone. Expressions and address lists that the constructor has accepted are read with \<open>projr\<close>.
\<close>

definition only_if :: "bool \<Rightarrow> rule_item \<Rightarrow> rule_item list" where
  "only_if c i = (if c then [i] else [])"

definition raw :: "bool \<Rightarrow> rule_item \<Rightarrow> 'a option \<Rightarrow> ('a \<Rightarrow> rule_item) \<Rightarrow> rule_item list" where
  "raw c i compiled f = (if c then [i] else case compiled of Some s \<Rightarrow> [f s] | None \<Rightarrow> [])"

definition destination_conditions :: "rule_lib \<Rightarrow> headless_options \<Rightarrow> rule_item list" where
  "destination_conditions L x =
     raw (ho_Domain x \<noteq> [] \<or> ho_DomainSuffix x \<noteq> [])
       (DomainItem (rl_NewMatcher L (ho_Domain x) (ho_DomainSuffix x))) (ho_DomainMatcher x) DomainItem @
     only_if (ho_DomainKeyword x \<noteq> []) (DomainKeywordItem (ho_DomainKeyword x)) @
     only_if (ho_DomainRegex x \<noteq> []) (DomainRegexItem (projr (compile_all (rl_compile L) 0 (ho_DomainRegex x)))) @
     raw (ho_AdGuardDomain x \<noteq> []) (AdGuardDomainItem (rl_NewAdGuardMatcher L (ho_AdGuardDomain x)))
       (ho_AdGuardDomainMatcher x) AdGuardDomainItem"

definition address_conditions :: "rule_lib \<Rightarrow> headless_options \<Rightarrow> rule_item list" where
  "address_conditions L x =
     raw (ho_IPCIDR x \<noteq> []) (IPCIDRItem (projr (NewIPCIDRItem (rl_IPSet L) (ho_IPCIDR x))) False)
       (ho_IPSet x) (\<lambda>s. IPCIDRItem s False)"

definition source_conditions :: "rule_lib \<Rightarrow> headless_options \<Rightarrow> rule_item list" where
  "source_conditions L x =
     raw (ho_SourceIPCIDR x \<noteq> []) (IPCIDRItem (projr (NewIPCIDRItem (rl_IPSet L) (ho_SourceIPCIDR x))) True)
       (ho_SourceIPSet x) (\<lambda>s. IPCIDRItem s True)"

definition source_port_conditions :: "headless_options \<Rightarrow> rule_item list" where
  "source_port_conditions x =
     only_if (ho_SourcePort x \<noteq> []) (PortItem (ho_SourcePort x) True) @
     only_if (ho_SourcePortRange x \<noteq> []) (PortRangeItem (projr (NewPortRangeItem (ho_SourcePortRange x))) True)"

definition port_conditions :: "headless_options \<Rightarrow> rule_item list" where
  "port_conditions x =
     only_if (ho_Port x \<noteq> []) (PortItem (ho_Port x) False) @
     only_if (ho_PortRange x \<noteq> []) (PortRangeItem (projr (NewPortRangeItem (ho_PortRange x))) False)"

definition network_conditions :: "headless_options \<Rightarrow> rule_item list" where
  "network_conditions x =
     only_if (ho_NetworkType x \<noteq> []) (NetworkTypeItem (ho_NetworkType x)) @
     only_if (ho_NetworkIsExpensive x) NetworkIsExpensiveItem @
     only_if (ho_NetworkIsConstrained x) NetworkIsConstrainedItem @
     only_if (ho_WIFISSID x \<noteq> []) (WIFISSIDItem (ho_WIFISSID x)) @
     only_if (ho_WIFIBSSID x \<noteq> []) (WIFIBSSIDItem (ho_WIFIBSSID x)) @
     only_if (ho_NetworkInterfaceAddress x \<noteq> []) (NetworkInterfaceAddressItem (ho_NetworkInterfaceAddress x)) @
     only_if (ho_DefaultInterfaceAddress x \<noteq> []) (DefaultInterfaceAddressItem (ho_DefaultInterfaceAddress x))"

definition process_conditions :: "rule_lib \<Rightarrow> rule_env \<Rightarrow> headless_options \<Rightarrow> rule_item list" where
  "process_conditions L e x =
     only_if (ho_TunnelSource x \<noteq> []) (TunnelSourceItem (ho_TunnelSource x)) @
     only_if (ho_TunnelDestination x \<noteq> []) (TunnelDestinationItem (ho_TunnelDestination x)) @
     only_if (ho_ProcessName x \<noteq> []) (ProcessItem (NewProcessItem e (ho_ProcessName x))) @
     only_if (ho_ProcessPath x \<noteq> []) (ProcessPathItem (ho_ProcessPath x)) @
     only_if (ho_ProcessPathRegex x \<noteq> [])
       (ProcessPathRegexItem (projr (compile_all (rl_compile L) 0 (ho_ProcessPathRegex x)))) @
     only_if (ho_PackageName x \<noteq> []) (PackageNameItem (ho_PackageName x)) @
     only_if (ho_PackageNameRegex x \<noteq> [])
       (PackageNameRegexItem (projr (compile_all (rl_compile L) 0 (ho_PackageNameRegex x))))"

definition query_conditions :: "headless_options \<Rightarrow> rule_item list" where
  "query_conditions x =
     only_if (ho_QueryType x \<noteq> []) (QueryTypeItem (ho_QueryType x)) @
     only_if (ho_Network x \<noteq> []) (NetworkItem (ho_Network x))"

definition other_conditions :: "rule_lib \<Rightarrow> rule_env \<Rightarrow> bool \<Rightarrow> headless_options \<Rightarrow> rule_item list" where
  "other_conditions L e manager x =
     query_conditions x @ process_conditions L e x @ (if manager then network_conditions x else [])"

text \<open>Alternatives hold if none is given or one of them holds.\<close>

definition one_of :: "rule_env \<Rightarrow> inbound_context \<Rightarrow> rule_item list \<Rightarrow> bool" where
  "one_of e m items = (items = [] \<or> list_ex (item_match e m) items)"

definition options_hold :: "rule_lib \<Rightarrow> rule_env \<Rightarrow> bool \<Rightarrow> headless_options \<Rightarrow> inbound_context \<Rightarrow> bool" where
  "options_hold L e manager x m =
     (let source = source_conditions L x; address = address_conditions L x; destination = destination_conditions L x in
      if source @ address @ destination @ source_port_conditions x @ port_conditions x @
         other_conditions L e manager x = [] then True
      else ho_Invert x \<noteq>
        (list_all (item_match e m) (other_conditions L e manager x) \<and>
         one_of e m (source_port_conditions x) \<and> one_of e m (port_conditions x) \<and>
         (if ic_MatchSource m then one_of e m (source @ address) \<and> one_of e m destination
          else one_of e m source \<and> one_of e m (destination @ address))))"

fun rule_options_hold ::
  "rule_lib \<Rightarrow> rule_env \<Rightarrow> bool \<Rightarrow> headless_rule_options \<Rightarrow> inbound_context \<Rightarrow> bool" where
  "rule_options_hold L e manager (HeadlessRule ty x mode rules invert) m =
     (if ty = ''logical'' then
        invert \<noteq> (if mode = ''and'' then list_all (\<lambda>r. rule_options_hold L e manager r (ResetRuleCache m)) rules
                  else list_ex (\<lambda>r. rule_options_hold L e manager r (ResetRuleCache m)) rules)
      else options_hold L e manager x m)"

section \<open>Construction follows the reading\<close>

lemmas add_defs = add_other_def add_source_def add_source_port_def add_destination_def add_ipcidr_def add_port_def

lemma bind_err_Inr [simp]: "bind_err r f = Inr b \<longleftrightarrow> (\<exists>a. r = Inr a \<and> f a = Inr b)"
  by (cases r) (simp_all add: bind_err_def)

lemma with_cause_Inr [simp]: "with_cause w r = Inr a \<longleftrightarrow> r = Inr a"
  by (cases r) (simp_all add: with_cause_def)

lemma given_Inr: "given c f d = Inr d' \<longleftrightarrow> (if c then f d = Inr d' else d' = d)"
  by (auto simp: given_def)

text \<open>\<open>grows d d' s sp da ai p os\<close>: the groups have grown by the lists given, all items by all of them.\<close>

definition grows :: "default_rule \<Rightarrow> default_rule \<Rightarrow> rule_item list \<Rightarrow> rule_item list \<Rightarrow> rule_item list \<Rightarrow>
    rule_item list \<Rightarrow> rule_item list \<Rightarrow> rule_item list \<Rightarrow> bool" where
  "grows d d' s sp da ai p os =
     (dr_sourceAddressItems d' = dr_sourceAddressItems d @ s \<and> dr_sourcePortItems d' = dr_sourcePortItems d @ sp \<and>
      dr_destinationAddressItems d' = dr_destinationAddressItems d @ da \<and>
      dr_destinationIPCIDRItems d' = dr_destinationIPCIDRItems d @ ai \<and>
      dr_destinationPortItems d' = dr_destinationPortItems d @ p \<and> dr_items d' = dr_items d @ os \<and>
      set (dr_allItems d') = set (dr_allItems d) \<union> set (s @ sp @ da @ ai @ p @ os))"

lemma grows_refl: "grows d d [] [] [] [] [] []"
  by (simp add: grows_def)

lemma grows_trans:
  "grows a b s sp da ai p os \<Longrightarrow> grows b c s' sp' da' ai' p' os' \<Longrightarrow>
   grows a c (s @ s') (sp @ sp') (da @ da') (ai @ ai') (p @ p') (os @ os')"
  by (auto simp: grows_def)

lemma add_grows:
  "grows d (add_other i d) [] [] [] [] [] [i]" "grows d (add_source i d) [i] [] [] [] [] []"
  "grows d (add_source_port i d) [] [i] [] [] [] []" "grows d (add_destination i d) [] [] [i] [] [] []"
  "grows d (add_ipcidr i d) [] [] [] [i] [] []" "grows d (add_port i d) [] [] [] [] [i] []"
  by (simp_all add: grows_def add_defs)

lemma only_if_grows:
  assumes "given c (\<lambda>d. bind_err (with_cause w r) (\<lambda>a. Inr (add (f a) d))) d = Inr d'"
  shows "(\<And>i d. grows d (add i d) [] [] [] [] [] [i]) \<Longrightarrow> grows d d' [] [] [] [] [] (only_if c (f (projr r)))"
    "(\<And>i d. grows d (add i d) [] [i] [] [] [] []) \<Longrightarrow> grows d d' [] (only_if c (f (projr r))) [] [] [] []"
    "(\<And>i d. grows d (add i d) [] [] [i] [] [] []) \<Longrightarrow> grows d d' [] [] (only_if c (f (projr r))) [] [] []"
    "(\<And>i d. grows d (add i d) [] [] [] [] [i] []) \<Longrightarrow> grows d d' [] [] [] [] (only_if c (f (projr r))) []"
  using assms by (auto simp: given_Inr only_if_def grows_refl split: if_splits)

lemma plain_grows:
  assumes "given c (\<lambda>d. Inr (add i d)) d = Inr d'"
  shows "(\<And>i d. grows d (add i d) [] [] [] [] [] [i]) \<Longrightarrow> grows d d' [] [] [] [] [] (only_if c i)"
    "(\<And>i d. grows d (add i d) [] [i] [] [] [] []) \<Longrightarrow> grows d d' [] (only_if c i) [] [] [] []"
    "(\<And>i d. grows d (add i d) [] [] [i] [] [] []) \<Longrightarrow> grows d d' [] [] (only_if c i) [] [] []"
    "(\<And>i d. grows d (add i d) [] [] [] [] [i] []) \<Longrightarrow> grows d d' [] [] [] [] (only_if c i) []"
  using assms by (auto simp: given_Inr only_if_def grows_refl split: if_splits)

lemmas other_grows = only_if_grows(1) [OF _ add_grows(1)] plain_grows(1) [OF _ add_grows(1)]
lemmas source_port_grows = only_if_grows(2) [OF _ add_grows(3)] plain_grows(2) [OF _ add_grows(3)]
lemmas destination_grows = only_if_grows(3) [OF _ add_grows(4)] plain_grows(3) [OF _ add_grows(4)]
lemmas port_grows = only_if_grows(4) [OF _ add_grows(6)] plain_grows(4) [OF _ add_grows(6)]

lemma names_grow:
  assumes "headless_names L x d = Inr d'"
  shows "grows d d' [] [] (raw (ho_Domain x \<noteq> [] \<or> ho_DomainSuffix x \<noteq> [])
       (DomainItem (rl_NewMatcher L (ho_Domain x) (ho_DomainSuffix x))) (ho_DomainMatcher x) DomainItem @
     only_if (ho_DomainKeyword x \<noteq> []) (DomainKeywordItem (ho_DomainKeyword x)) @
     only_if (ho_DomainRegex x \<noteq> []) (DomainRegexItem (projr (compile_all (rl_compile L) 0 (ho_DomainRegex x)))))
     [] [] (query_conditions x)"
proof -
  have domain: "grows d1 d2 [] [] (raw (ho_Domain x \<noteq> [] \<or> ho_DomainSuffix x \<noteq> [])
       (DomainItem (rl_NewMatcher L (ho_Domain x) (ho_DomainSuffix x))) (ho_DomainMatcher x) DomainItem) [] [] []"
    if "(if ho_Domain x \<noteq> [] \<or> ho_DomainSuffix x \<noteq> [] then
          bind_err (NewDomainItem (rl_NewMatcher L) (ho_Domain x) (ho_DomainSuffix x))
            (\<lambda>f. Inr (add_destination (DomainItem f) d1))
        else case ho_DomainMatcher x of Some f \<Rightarrow> Inr (add_destination (DomainItem f) d1) | None \<Rightarrow> Inr d1) = Inr d2"
    for d1 d2
    using that by (auto simp: raw_def NewDomainItem_def add_grows grows_refl split: if_splits option.splits)
  from assms show ?thesis
    unfolding headless_names_def bind_err_Inr
    apply (elim exE conjE)
    apply (drule other_grows other_grows domain destination_grows)+
    apply (drule (1) grows_trans)+
    apply (simp add: query_conditions_def)
    done
qed

lemma addresses_grow:
  assumes "headless_addresses L x d = Inr d'"
  shows "grows d d' (source_conditions L x) [] [] (address_conditions L x) [] []"
proof -
  have source: "grows d d1 (source_conditions L x) [] [] [] [] []"
    if "(if ho_SourceIPCIDR x \<noteq> [] then
          bind_err (with_cause ''source_ip_cidr'' (NewIPCIDRItem (rl_IPSet L) (ho_SourceIPCIDR x)))
            (\<lambda>s. Inr (add_source (IPCIDRItem s True) d))
        else case ho_SourceIPSet x of Some s \<Rightarrow> Inr (add_source (IPCIDRItem s True) d) | None \<Rightarrow> Inr d) = Inr d1" for d1
    using that by (auto simp: source_conditions_def raw_def add_grows grows_refl split: if_splits option.splits)
  have address: "grows d1 d' [] [] [] (address_conditions L x) [] []"
    if "(if ho_IPCIDR x \<noteq> [] then
       bind_err (with_cause ''ipcidr'' (NewIPCIDRItem (rl_IPSet L) (ho_IPCIDR x)))
         (\<lambda>s. Inr (add_ipcidr (IPCIDRItem s False) d1))
     else case ho_IPSet x of Some s \<Rightarrow> Inr (add_ipcidr (IPCIDRItem s False) d1) | None \<Rightarrow> Inr d1) = Inr d'" for d1
    using that by (auto simp: address_conditions_def raw_def add_grows grows_refl split: if_splits option.splits)
  from assms obtain d1 where "grows d d1 (source_conditions L x) [] [] [] [] []"
      "grows d1 d' [] [] [] (address_conditions L x) [] []"
    unfolding headless_addresses_def bind_err_Inr using source address by blast
  from grows_trans [OF this] show ?thesis by simp
qed

lemma ports_grow:
  assumes "headless_ports x d = Inr d'"
  shows "grows d d' [] (source_port_conditions x) [] [] (port_conditions x) []"
  using assms unfolding headless_ports_def bind_err_Inr
  apply (elim exE conjE)
  apply (drule source_port_grows port_grows)+
  apply (drule (1) grows_trans)+
  apply (simp add: source_port_conditions_def port_conditions_def)
  done

lemma process_grows:
  assumes "headless_process L e x d = Inr d'"
  shows "grows d d' [] [] [] [] [] (process_conditions L e x)"
  using assms unfolding headless_process_def bind_err_Inr
  apply (elim exE conjE)
  apply (drule other_grows)+
  apply (drule (1) grows_trans)+
  apply (simp add: process_conditions_def)
  done

lemma network_grows:
  assumes "headless_network manager x d = Inr d'"
  shows "grows d d' [] [] [] [] [] (if manager then network_conditions x else [])"
proof (cases manager)
  case True
  from assms show ?thesis
    unfolding headless_network_def given_def [of manager] if_P [OF True] bind_err_Inr
    apply (elim exE conjE)
    apply (drule other_grows)+
    apply (drule (1) grows_trans)+
    apply (simp add: network_conditions_def)
    done
next
  case False
  then show ?thesis using assms by (simp add: headless_network_def given_def grows_refl)
qed

lemma adguard_grows:
  "headless_adguard L x d = Inr d' \<Longrightarrow>
   grows d d' [] [] (raw (ho_AdGuardDomain x \<noteq> []) (AdGuardDomainItem (rl_NewAdGuardMatcher L (ho_AdGuardDomain x)))
       (ho_AdGuardDomainMatcher x) AdGuardDomainItem) [] [] []"
  by (auto simp: headless_adguard_def raw_def add_grows grows_refl split: if_splits option.splits)

lemma default_grows:
  assumes "NewDefaultHeadlessRule L e manager x = Inr r"
  obtains d where "r = DefaultRule d None (ho_Invert x) None"
    "grows no_conditions d (source_conditions L x) (source_port_conditions x) (destination_conditions L x)
       (address_conditions L x) (port_conditions x) (other_conditions L e manager x)"
proof -
  from assms obtain d1 d2 d3 d4 d5 d where r: "r = DefaultRule d None (ho_Invert x) None"
      and steps: "headless_names L x no_conditions = Inr d1" "headless_addresses L x d1 = Inr d2"
        "headless_ports x d2 = Inr d3" "headless_process L e x d3 = Inr d4"
        "headless_network manager x d4 = Inr d5" "headless_adguard L x d5 = Inr d"
    unfolding NewDefaultHeadlessRule_def bind_err_Inr by auto
  have "grows no_conditions d (source_conditions L x) (source_port_conditions x) (destination_conditions L x)
       (address_conditions L x) (port_conditions x) (other_conditions L e manager x)"
    using grows_trans [OF grows_trans [OF grows_trans [OF grows_trans [OF grows_trans
      [OF names_grow [OF steps(1)] addresses_grow [OF steps(2)]] ports_grow [OF steps(3)]]
      process_grows [OF steps(4)]] network_grows [OF steps(5)]] adguard_grows [OF steps(6)]]
    by (simp add: destination_conditions_def other_conditions_def)
  with r show thesis by (rule that)
qed

lemma groups_alternatives:
  "groups_hold e d m =
     (one_of e m (conditions d m SourceAddress) \<and> one_of e m (conditions d m SourcePort) \<and>
      one_of e m (conditions d m DestinationAddress) \<and> one_of e m (conditions d m DestinationPort))"
proof -
  have "(required d m g \<longrightarrow> satisfied e d m g) = one_of e m (conditions d m g)" for g
    unfolding required_def satisfied_def one_of_def by blast
  then show ?thesis by (simp only: all_grp)
qed

lemma grows_none:
  assumes "grows no_conditions d s sp da ai p os"
  shows "dr_allItems d = [] \<longleftrightarrow> s @ ai @ da @ sp @ p @ os = []"
proof -
  have "set (dr_allItems d) = set (s @ sp @ da @ ai @ p @ os)" using assms by (simp add: grows_def no_conditions_def)
  then have "dr_allItems d = [] \<longleftrightarrow> s @ sp @ da @ ai @ p @ os = []" by (metis set_empty)
  then show ?thesis by auto
qed

lemma default_options_hold:
  assumes "NewDefaultHeadlessRule L e manager x = Inr r" "\<not> ic_IgnoreDestination m"
  shows "holds e r m = options_hold L e manager x m"
proof -
  from assms(1) obtain d where r: "r = DefaultRule d None (ho_Invert x) None"
    and g: "grows no_conditions d (source_conditions L x) (source_port_conditions x) (destination_conditions L x)
       (address_conditions L x) (port_conditions x) (other_conditions L e manager x)" by (rule default_grows)
  have lists: "dr_sourceAddressItems d = source_conditions L x" "dr_sourcePortItems d = source_port_conditions x"
    "dr_destinationAddressItems d = destination_conditions L x" "dr_destinationIPCIDRItems d = address_conditions L x"
    "dr_destinationPortItems d = port_conditions x" "dr_items d = other_conditions L e manager x"
    using g by (simp_all add: grows_def no_conditions_def)
  have "holds e r m = default_holds e m d None (ho_Invert x)" by (simp add: r)
  also have "\<dots> = options_hold L e manager x m"
    unfolding default_holds_def grows_none [OF g] options_hold_def Let_def groups_alternatives lists option.case is_none_simps
    by (cases "ic_MatchSource m") (simp_all add: lists assms(2) conj_ac del: append_is_Nil_conv)
  finally show ?thesis .
qed

lemma build_holds:
  "NewHeadlessRule L e manager opt = Inr r \<Longrightarrow>
     \<forall>m. \<not> ic_IgnoreDestination m \<longrightarrow> holds e r m = rule_options_hold L e manager opt m"
  "sub_rules L e manager i opts = Inr rs \<Longrightarrow>
     list_all2 (\<lambda>r opt. \<forall>m. \<not> ic_IgnoreDestination m \<longrightarrow> holds e r m = rule_options_hold L e manager opt m) rs opts"
proof (induction L e manager opt and L e manager i opts arbitrary: r and rs
    rule: NewHeadlessRule_sub_rules.induct)
  case (1 L e manager ty x mode rules invert)
  show ?case
  proof (cases "ty = [] \<or> ty = ''default''")
    case True
    then have "NewDefaultHeadlessRule L e manager x = Inr r" using 1(3) by (auto split: if_splits)
    then show ?thesis using True by (auto simp: default_options_hold)
  next
    case False
    then have logical: "ty = ''logical''" and "\<exists>rs. sub_rules L e manager 0 rules = Inr rs \<and>
        (mode = ''and'' \<and> r = LogicalRule LogicalTypeAnd rs invert \<or>
         mode = ''or'' \<and> r = LogicalRule LogicalTypeOr rs invert)"
      using 1(3) by (auto split: if_splits)
    then obtain rs where rs: "sub_rules L e manager 0 rules = Inr rs"
      and r: "mode = ''and'' \<and> r = LogicalRule LogicalTypeAnd rs invert \<or>
         mode = ''or'' \<and> r = LogicalRule LogicalTypeOr rs invert" by blast
    have "list_all2 (\<lambda>r opt. \<forall>m. \<not> ic_IgnoreDestination m \<longrightarrow> holds e r m = rule_options_hold L e manager opt m) rs rules"
      using 1 False logical rs r by (auto split: if_splits)
    then have "list_all (\<lambda>r. holds e r m) rs = list_all (\<lambda>r. rule_options_hold L e manager r m) rules"
      "list_ex (\<lambda>r. holds e r m) rs = list_ex (\<lambda>r. rule_options_hold L e manager r m) rules"
      if "\<not> ic_IgnoreDestination m" for m
      using that by (induction rs rules rule: list_all2_induct) auto
    then show ?thesis using logical r by (auto simp: ResetRuleCache_def ResetRuleMatchCache_def)
  qed
next
  case (2 L e manager i)
  then show ?case by simp
next
  case (3 L e manager i r0 rules)
  then show ?case by (auto split: sum.splits)
qed

text \<open>What JSON decoding leaves in the type field: never the empty string.\<close>

fun decoded :: "headless_rule_options \<Rightarrow> bool" where
  "decoded (HeadlessRule ty x mode rules invert) = (ty \<noteq> [] \<and> list_all decoded rules)"

lemma address_conditions_given: "address_conditions L x \<noteq> [] \<longleftrightarrow> isIPCIDRHeadlessRule x"
  by (auto simp: address_conditions_def isIPCIDRHeadlessRule_def raw_def Option.is_none_def split: option.splits)

lemma build_headless:
  "NewHeadlessRule L e manager opt = Inr r \<Longrightarrow>
     headless r \<and> (decoded opt \<longrightarrow> contains_ipcidr r = HasHeadlessRule isIPCIDRHeadlessRule opt)"
  "sub_rules L e manager i opts = Inr rs \<Longrightarrow>
     list_all2 (\<lambda>r opt. headless r \<and> (decoded opt \<longrightarrow> contains_ipcidr r = HasHeadlessRule isIPCIDRHeadlessRule opt)) rs opts"
proof (induction L e manager opt and L e manager i opts arbitrary: r and rs
    rule: NewHeadlessRule_sub_rules.induct)
  case (1 L e manager ty x mode rules invert)
  show ?case
  proof (cases "ty = [] \<or> ty = ''default''")
    case True
    then have "NewDefaultHeadlessRule L e manager x = Inr r" using 1(3) by (auto split: if_splits)
    then obtain d where "r = DefaultRule d None (ho_Invert x) None" "dr_destinationIPCIDRItems d = address_conditions L x"
      by (rule default_grows) (auto simp: grows_def no_conditions_def)
    then show ?thesis using True by (auto simp: address_conditions_given)
  next
    case False
    then have logical: "ty = ''logical''" and "\<exists>rs md. sub_rules L e manager 0 rules = Inr rs \<and>
        (mode = ''and'' \<or> mode = ''or'') \<and> r = LogicalRule md rs invert"
      using 1(3) by (auto split: if_splits)
    then obtain rs md where rs: "sub_rules L e manager 0 rules = Inr rs"
      and r: "mode = ''and'' \<or> mode = ''or''" "r = LogicalRule md rs invert" by blast
    have "list_all2 (\<lambda>r opt. headless r \<and> (decoded opt \<longrightarrow> contains_ipcidr r = HasHeadlessRule isIPCIDRHeadlessRule opt)) rs rules"
      using 1 False logical rs r(1) by (auto split: if_splits)
    then have "list_all headless rs \<and> (list_all decoded rules \<longrightarrow>
        list_ex contains_ipcidr rs = list_ex (HasHeadlessRule isIPCIDRHeadlessRule) rules)"
      by (induction rs rules rule: list_all2_induct) auto
    then show ?thesis using logical r by auto
  qed
next
  case (2 L e manager i)
  then show ?case by simp
next
  case (3 L e manager i r0 rules)
  then show ?case by (auto split: sum.splits)
qed

section \<open>Properties\<close>

text \<open>
  C27. A headless rule built from options matches exactly as its options read: conditions on the
  destination are alternatives, among them the address list; so are source addresses, source ports and
  ports; every other option is a further condition; rules of a logical rule are joined by its mode; and
  inversion negates the whole, except that a rule left without any condition always matches.
\<close>

theorem headless_meaning:
  assumes "NewHeadlessRule L e manager opt = Inr r" "\<not> ic_IgnoreDestination m" "ic_Deferred m = 0"
  shows "Match e r m = (rule_options_hold L e manager opt m, m)"
  using build_holds(1) [OF assms(1)] Match_holds [OF assms(2,3)] assms(2) by simp

definition no_options :: headless_options where
  "no_options = \<lparr>ho_QueryType = [], ho_Network = [], ho_Domain = [], ho_DomainSuffix = [], ho_DomainKeyword = [],
     ho_DomainRegex = [], ho_SourceIPCIDR = [], ho_IPCIDR = [], ho_SourcePort = [], ho_SourcePortRange = [],
     ho_Port = [], ho_PortRange = [], ho_TunnelSource = [], ho_TunnelDestination = [], ho_ProcessName = [],
     ho_ProcessPath = [], ho_ProcessPathRegex = [], ho_PackageName = [], ho_PackageNameRegex = [],
     ho_NetworkType = [], ho_NetworkIsExpensive = False, ho_NetworkIsConstrained = False, ho_WIFISSID = [],
     ho_WIFIBSSID = [], ho_NetworkInterfaceAddress = [], ho_DefaultInterfaceAddress = [], ho_Invert = False,
     ho_DomainMatcher = None, ho_SourceIPSet = None, ho_IPSet = None, ho_AdGuardDomain = [],
     ho_AdGuardDomainMatcher = None, ho_emptyIPCIDR = False, ho_emptyLists = False\<rparr>"

definition demo_rule_lib :: rule_lib where
  "demo_rule_lib = \<lparr>rl_NewMatcher = (\<lambda>ds ss h. h \<in> set ds \<or> list_ex (has_suffix h) ss),
     rl_NewAdGuardMatcher = (\<lambda>ls h. h \<in> set ls), rl_compile = (\<lambda>x. Some ((=) x)),
     rl_IPSet = (\<lambda>xs. Some (\<lambda>a. Inr a \<in> set xs))\<rparr>"

definition web_options :: headless_options where
  "web_options = no_options\<lparr>ho_DomainSuffix := [''.example''], ho_IPCIDR := [''192.0.2.1''], ho_PortRange := [''400:500'']\<rparr>"

text \<open>The rule is built, and the name alone satisfies the destination group.\<close>

theorem headless_meaning_witness:
  "case NewHeadlessRule demo_rule_lib demo_rule_env True (HeadlessRule ''default'' web_options [] [] False) of
     Inl _ \<Rightarrow> False
   | Inr r \<Rightarrow> Match demo_rule_env r demo_ctx = (True, demo_ctx)"
proof (cases "NewHeadlessRule demo_rule_lib demo_rule_env True (HeadlessRule ''default'' web_options [] [] False)")
  case (Inl err)
  have "\<not> isl (NewHeadlessRule demo_rule_lib demo_rule_env True (HeadlessRule ''default'' web_options [] [] False))"
    by code_simp
  then show ?thesis using Inl by simp
next
  case (Inr r)
  have "rule_options_hold demo_rule_lib demo_rule_env True (HeadlessRule ''default'' web_options [] [] False) demo_ctx"
    "\<not> ic_IgnoreDestination demo_ctx" "ic_Deferred demo_ctx = 0" by code_simp+
  then show ?thesis using headless_meaning [OF Inr, of demo_ctx] Inr by simp
qed

end
