(* ===== verification/Rule_Sets.thy ===== *)
theory Rule_Sets
  imports Rule_Build Go_Time Sha256
begin

text \<open>
  Local and remote rule sets (\<open>rule_set_local.go\<close>, \<open>rule_set_remote.go\<close>): loading, replacing and releasing
  the rules, and the update loop of a remote set with its cache. Decoding of the file formats, HTTP
  and the cache file are answers passed in. Tickers, the registration of transports and the initial path,
  which is only stored, are left out.
\<close>

section \<open>Rules and metadata\<close>

record rule_set =
  rs_rules :: "rule list"
  rs_metadata :: rule_set_metadata
  rs_callbacks :: "nat list"
  rs_refs :: "32 word"

text \<open>
  What loading asks of its surroundings: the libraries and the platform, the decoders of the two
  formats (with the upgrade to the current version), and the validator of the DNS router if there is one.
\<close>

record set_context =
  sc_lib :: rule_lib
  sc_env :: rule_env
  sc_manager :: bool
  sc_source :: "bytes \<Rightarrow> rule_error + headless_rule_options list"
  sc_binary :: "bytes \<Rightarrow> rule_error + headless_rule_options list"
  sc_validator :: "(string \<Rightarrow> rule_set_metadata \<Rightarrow> rule_error option) option"

definition validateRuleSetMetadataUpdate :: "set_context \<Rightarrow> string \<Rightarrow> rule_set_metadata \<Rightarrow> rule_error option" where
  "validateRuleSetMetadataUpdate C tag md =
     (case sc_validator C of None \<Rightarrow> None | Some validator \<Rightarrow> validator tag md)"

text \<open>The loop over the rules of a set; an error names the index of the rule.\<close>

fun load_rules :: "set_context \<Rightarrow> nat \<Rightarrow> headless_rule_options list \<Rightarrow> rule_error + rule list" where
  "load_rules C i [] = Inr []"
| "load_rules C i (x # xs) =
     (case NewHeadlessRule (sc_lib C) (sc_env C) (sc_manager C) x of
        Inl err \<Rightarrow> Inl (Cause ''parse rule_set.rules'' (SubRule i err))
      | Inr r \<Rightarrow> (case load_rules C (i + 1) xs of Inl err \<Rightarrow> Inl err | Inr rs \<Rightarrow> Inr (r # rs)))"

text \<open>A reload returns the callbacks it runs after the new rules are in place.\<close>

definition reloadRules ::
  "set_context \<Rightarrow> string \<Rightarrow> headless_rule_options list \<Rightarrow> rule_set \<Rightarrow> (rule_error + nat list) \<times> rule_set" where
  "reloadRules C tag headlessRules s =
     (case load_rules C 0 headlessRules of
        Inl err \<Rightarrow> (Inl err, s)
      | Inr rules \<Rightarrow>
          let metadata = buildRuleSetMetadata headlessRules in
          case validateRuleSetMetadataUpdate C tag metadata of
            Some err \<Rightarrow> (Inl err, s)
          | None \<Rightarrow> (Inr (rs_callbacks s), s\<lparr>rs_rules := rules, rs_metadata := metadata\<rparr>))"

definition IncRef :: "rule_set \<Rightarrow> rule_set" where
  "IncRef s = s\<lparr>rs_refs := rs_refs s + 1\<rparr>"

text \<open>The Boolean says whether the operation panics.\<close>

definition DecRef :: "rule_set \<Rightarrow> bool \<times> rule_set" where
  "DecRef s = (sint (rs_refs s - 1) < 0, s\<lparr>rs_refs := rs_refs s - 1\<rparr>)"

definition Cleanup :: "rule_set \<Rightarrow> rule_set" where
  "Cleanup s = (if rs_refs s = 0 then s\<lparr>rs_rules := []\<rparr> else s)"

definition RegisterCallback :: "nat \<Rightarrow> rule_set \<Rightarrow> rule_set" where
  "RegisterCallback c s = s\<lparr>rs_callbacks := rs_callbacks s @ [c]\<rparr>"

definition UnregisterCallback :: "nat \<Rightarrow> rule_set \<Rightarrow> rule_set" where
  "UnregisterCallback c s = s\<lparr>rs_callbacks := remove1 c (rs_callbacks s)\<rparr>"

definition set_close :: "rule_set \<Rightarrow> rule_set" where
  "set_close s = s\<lparr>rs_rules := []\<rparr>"

definition rule_set_match :: "rule_env \<Rightarrow> rule_set \<Rightarrow> inbound_context \<Rightarrow> bool \<times> inbound_context" where
  "rule_set_match e s m = matchAnyHeadlessRule e (rs_rules s) m"

fun item_ip_set :: "rule_item \<Rightarrow> (addr \<Rightarrow> bool) list" where
  "item_ip_set (IPCIDRItem s _) = [s]"
| "item_ip_set _ = []"

fun extractIPSetFromRule :: "rule \<Rightarrow> (addr \<Rightarrow> bool) list" where
  "extractIPSetFromRule (DefaultRule d _ _ _) = concat (map item_ip_set (dr_destinationIPCIDRItems d))"
| "extractIPSetFromRule (LogicalRule _ rules _) = concat (map extractIPSetFromRule rules)"

definition ExtractIPSet :: "rule_set \<Rightarrow> (addr \<Rightarrow> bool) list" where
  "ExtractIPSet s = concat (map extractIPSetFromRule (rs_rules s))"

section \<open>Local rule sets\<close>

definition reloadFile ::
  "set_context \<Rightarrow> string \<Rightarrow> string \<Rightarrow> (rule_error + bytes) \<Rightarrow> rule_set \<Rightarrow> (rule_error + nat list) \<times> rule_set" where
  "reloadFile C tag fileFormat content s =
     (if fileFormat = ''source'' \<or> fileFormat = [] then
        (case bind_err content (sc_source C) of Inl err \<Rightarrow> (Inl err, s) | Inr rules \<Rightarrow> reloadRules C tag rules s)
      else if fileFormat = ''binary'' then
        (case bind_err content (sc_binary C) of Inl err \<Rightarrow> (Inl err, s) | Inr rules \<Rightarrow> reloadRules C tag rules s)
      else (Inl (RuleError (''unknown rule-set format: '' @ fileFormat)), s))"

definition new_set :: rule_set where
  "new_set = \<lparr>rs_rules = [], rs_metadata = buildRuleSetMetadata [], rs_callbacks = [], rs_refs = 0\<rparr>"

definition NewLocalRuleSet ::
  "set_context \<Rightarrow> string \<Rightarrow> string \<Rightarrow> headless_rule_options list \<Rightarrow> string \<Rightarrow> (rule_error + bytes) \<Rightarrow> rule_error option
     \<Rightarrow> rule_error + rule_set" where
  "NewLocalRuleSet C tag ty inlineRules fileFormat content watcherErr =
     (if ty = ''inline'' then
        if inlineRules = [] then Inl (RuleError ''empty inline rule-set'')
        else case reloadRules C tag inlineRules new_set of (Inl err, _) \<Rightarrow> Inl err | (Inr _, s) \<Rightarrow> Inr s
      else case reloadFile C tag fileFormat content new_set of
        (Inl err, _) \<Rightarrow> Inl err
      | (Inr _, s) \<Rightarrow> (case watcherErr of Some err \<Rightarrow> Inl err | None \<Rightarrow> Inr s))"

section \<open>Remote rule sets\<close>

record saved_binary =
  sb_Content :: bytes
  sb_LastUpdated :: gotime
  sb_LastEtag :: string
  sb_URLHash :: bytes

record remote_config =
  rc_tag :: string
  rc_url :: string
  rc_urlHash :: bytes
  rc_format :: string
  rc_updateInterval :: int

text \<open>
  \<open>rm_cacheFile\<close>: whether the set has found a cache file; \<open>rm_saved\<close>: what the cache file holds for its tag.
\<close>

record remote_set =
  rm_set :: rule_set
  rm_lastUpdated :: gotime
  rm_lastEtag :: string
  rm_cacheFile :: bool
  rm_saved :: "saved_binary option"
  rm_cancelled :: bool

fun replace_all :: "string \<Rightarrow> string \<Rightarrow> string \<Rightarrow> string" where
  "replace_all old new [] = []"
| "replace_all old new (c # cs) =
     (if old \<noteq> [] \<and> has_prefix (c # cs) old then new @ replace_all old new (drop (length old - 1) cs)
      else c # replace_all old new cs)"

definition NewRemoteRuleSet :: "string \<Rightarrow> string \<Rightarrow> string \<Rightarrow> int \<Rightarrow> saved_binary option \<Rightarrow> remote_config \<times> remote_set" where
  "NewRemoteRuleSet tag rawURL format interval saved =
     (let updateInterval = (if interval > 0 then interval else 24 * hour);
          url = replace_all ''{tag}'' tag rawURL
      in (\<lparr>rc_tag = tag, rc_url = url, rc_urlHash = sha256 (map of_char url), rc_format = format,
           rc_updateInterval = updateInterval\<rparr>,
          \<lparr>rm_set = new_set, rm_lastUpdated = zero_time, rm_lastEtag = [], rm_cacheFile = False, rm_saved = saved,
           rm_cancelled = False\<rparr>))"

definition loadBytes ::
  "set_context \<Rightarrow> remote_config \<Rightarrow> bytes \<Rightarrow> rule_set \<Rightarrow> (rule_error + nat list) \<times> rule_set" where
  "loadBytes C cfg content s =
     (if rc_format cfg = ''source'' then
        (case sc_source C content of Inl err \<Rightarrow> (Inl err, s) | Inr rules \<Rightarrow> reloadRules C (rc_tag cfg) rules s)
      else if rc_format cfg = ''binary'' then
        (case sc_binary C content of Inl err \<Rightarrow> (Inl err, s) | Inr rules \<Rightarrow> reloadRules C (rc_tag cfg) rules s)
      else (Inl (RuleError (''unknown rule-set format: '' @ rc_format cfg)), s))"

text \<open>\<open>StartContext\<close>, with the outcome of creating the transport and whether there is a cache file.\<close>

definition StartContext ::
  "set_context \<Rightarrow> remote_config \<Rightarrow> rule_error option \<Rightarrow> bool \<Rightarrow> remote_set \<Rightarrow> rule_error option \<times> remote_set" where
  "StartContext C cfg transportErr cacheFile s0 =
     (let s = s0\<lparr>rm_cacheFile := cacheFile\<rparr> in
      case transportErr of
        Some err \<Rightarrow> (Some (Cause ''create rule-set http client'' err), s)
      | None \<Rightarrow>
          if \<not> cacheFile then (None, s)
          else case rm_saved s of
            None \<Rightarrow> (None, s)
          | Some saved \<Rightarrow>
              if sb_URLHash saved \<noteq> [] \<and> sb_URLHash saved \<noteq> rc_urlHash cfg then (None, s)
              else case loadBytes C cfg (sb_Content saved) (rm_set s) of
                (Inl err, _) \<Rightarrow> (None, s)
              | (Inr _, loaded) \<Rightarrow>
                  (None, s\<lparr>rm_set := loaded, rm_lastUpdated := sb_LastUpdated saved, rm_lastEtag := sb_LastEtag saved\<rparr>))"

text \<open>
  One attempt to fetch: what creating the request, sending it and reading the body gave, the instant
  of success, and whether the cache file could be written.
\<close>

datatype http_answer = DoError rule_error | Status nat "rule_error + bytes" string

record fetch_input =
  fi_requestErr :: "rule_error option"
  fi_answer :: http_answer
  fi_now :: gotime
  fi_saveOk :: bool

definition save_rule_set :: "bool \<Rightarrow> saved_binary \<Rightarrow> remote_set \<Rightarrow> remote_set" where
  "save_rule_set ok b s = (if ok then s\<lparr>rm_saved := Some b\<rparr> else s)"

definition fetch :: "set_context \<Rightarrow> remote_config \<Rightarrow> fetch_input \<Rightarrow> remote_set \<Rightarrow> rule_error option \<times> remote_set" where
  "fetch C cfg x s =
     (case fi_requestErr x of
        Some err \<Rightarrow> (Some err, s)
      | None \<Rightarrow>
          (case fi_answer x of
             DoError err \<Rightarrow> (Some err, s)
           | Status code body etag \<Rightarrow>
               if code = 200 then
                 (case body of
                    Inl err \<Rightarrow> (Some err, s)
                  | Inr content \<Rightarrow>
                      (case loadBytes C cfg content (rm_set s) of
                         (Inl err, _) \<Rightarrow> (Some err, s)
                       | (Inr _, loaded) \<Rightarrow>
                           let s1 = s\<lparr>rm_set := loaded, rm_lastEtag := (if etag \<noteq> [] then etag else rm_lastEtag s),
                                      rm_lastUpdated := fi_now x\<rparr>
                           in (None,
                               if rm_cacheFile s1 then
                                 save_rule_set (fi_saveOk x)
                                   \<lparr>sb_Content = content, sb_LastUpdated = rm_lastUpdated s1,
                                    sb_LastEtag = rm_lastEtag s1, sb_URLHash = rc_urlHash cfg\<rparr> s1
                               else s1)))
               else if code = 304 then
                 let s1 = s\<lparr>rm_lastUpdated := fi_now x\<rparr>
                 in (None,
                     if rm_cacheFile s1 then
                       (case rm_saved s1 of
                          None \<Rightarrow> s1
                        | Some b \<Rightarrow> save_rule_set (fi_saveOk x)
                            (b\<lparr>sb_LastUpdated := rm_lastUpdated s1, sb_URLHash := rc_urlHash cfg\<rparr>) s1)
                     else s1)
               else (Some (RuleError ''unexpected status''), s)))"

definition updateOnce :: "set_context \<Rightarrow> remote_config \<Rightarrow> fetch_input \<Rightarrow> remote_set \<Rightarrow> remote_set" where
  "updateOnce C cfg x s =
     (case fetch C cfg x s of
        (Some err, s1) \<Rightarrow> s1
      | (None, s1) \<Rightarrow>
          if rs_refs (rm_set s1) = 0 then s1\<lparr>rm_set := (rm_set s1)\<lparr>rs_rules := []\<rparr>\<rparr> else s1)"

text \<open>What a select of the update loop receives: the end of the context, or a tick and what the fetch then finds.\<close>

datatype round = CtxDone | Tick fetch_input

fun startup_loop :: "set_context \<Rightarrow> remote_config \<Rightarrow> round list \<Rightarrow> remote_set \<Rightarrow> round list \<times> remote_set" where
  "startup_loop C cfg rounds s =
     (if \<not> is_zero (rm_lastUpdated s) then (rounds, s)
      else case rounds of
        [] \<Rightarrow> ([], s)
      | CtxDone # _ \<Rightarrow> ([], s)
      | Tick x # rest \<Rightarrow> startup_loop C cfg rest (updateOnce C cfg x s))"

fun update_loop :: "set_context \<Rightarrow> remote_config \<Rightarrow> round list \<Rightarrow> remote_set \<Rightarrow> remote_set" where
  "update_loop C cfg [] s = s"
| "update_loop C cfg (CtxDone # _) s = s"
| "update_loop C cfg (Tick x # rest) s = update_loop C cfg rest (updateOnce C cfg x s)"

definition loopUpdate ::
  "set_context \<Rightarrow> remote_config \<Rightarrow> gotime \<Rightarrow> fetch_input \<Rightarrow> round list \<Rightarrow> remote_set \<Rightarrow> remote_set" where
  "loopUpdate C cfg now x rounds s =
     (let s1 = (if time_sub now (rm_lastUpdated s) > rc_updateInterval cfg then updateOnce C cfg x s else s);
          (rest, s2) = startup_loop C cfg rounds s1
      in update_loop C cfg rest s2)"

definition remote_close :: "remote_set \<Rightarrow> remote_set" where
  "remote_close s = s\<lparr>rm_set := set_close (rm_set s), rm_cancelled := True\<rparr>"

declare startup_loop.simps [simp del]

section \<open>Histories of a rule set\<close>

inductive set_step :: "set_context \<Rightarrow> string \<Rightarrow> rule_set \<Rightarrow> rule_set \<Rightarrow> bool" for C tag where
  reload: "list_all decoded opts \<Longrightarrow> set_step C tag s (snd (reloadRules C tag opts s))"
| inc: "set_step C tag s (IncRef s)"
| dec: "set_step C tag s (snd (DecRef s))"
| cleanup: "set_step C tag s (Cleanup s)"
| register: "set_step C tag s (RegisterCallback c s)"
| unregister: "set_step C tag s (UnregisterCallback c s)"
| close: "set_step C tag s (set_close s)"

definition loaded_inv :: "set_context \<Rightarrow> rule_set \<Rightarrow> bool" where
  "loaded_inv C s =
     (\<exists>opts. list_all decoded opts \<and> rs_metadata s = buildRuleSetMetadata opts \<and>
             (rs_rules s = [] \<or> load_rules C 0 opts = Inr (rs_rules s)))"

lemma loaded_new: "loaded_inv C new_set"
  unfolding loaded_inv_def by (rule exI [of _ "[]"]) (simp add: new_set_def)

lemma loaded_keep:
  "loaded_inv C s \<Longrightarrow> rs_metadata t = rs_metadata s \<Longrightarrow> rs_rules t = rs_rules s \<or> rs_rules t = [] \<Longrightarrow> loaded_inv C t"
  unfolding loaded_inv_def by auto

lemma loaded_reload:
  assumes "loaded_inv C s" "list_all decoded opts"
  shows "loaded_inv C (snd (reloadRules C tag opts s))"
proof (cases "snd (reloadRules C tag opts s) = s")
  case False
  then obtain rules where "load_rules C 0 opts = Inr rules"
      "snd (reloadRules C tag opts s) = s\<lparr>rs_rules := rules, rs_metadata := buildRuleSetMetadata opts\<rparr>"
    by (auto simp: reloadRules_def Let_def split: sum.splits option.splits)
  then show ?thesis using assms(2) unfolding loaded_inv_def by auto
qed (simp add: assms(1))

lemma loaded_step:
  assumes "loaded_inv C s" "set_step C tag s t"
  shows "loaded_inv C t"
  using assms(2)
proof cases
  case (reload opts)
  then show ?thesis using loaded_reload [OF assms(1)] by simp
qed (use assms(1) in \<open>auto elim!: loaded_keep simp: IncRef_def DecRef_def Cleanup_def RegisterCallback_def
      UnregisterCallback_def set_close_def\<close>)

interpretation rule_sets: invariant_system "(=) new_set" "set_step C tag" "loaded_inv C" for C tag
  by unfold_locales (auto intro: loaded_new loaded_step)

section \<open>Matching a rule set\<close>

lemma any_loop_holds:
  assumes "\<not> ic_IgnoreDestination m" "ic_Deferred m = 0"
  shows "any_loop e (snapshotRuleMatch m) False 0 rules m = (list_ex (\<lambda>r. holds e r m) rules, m)"
proof -
  have reset: "ResetRuleMatchCache m = m" and restore: "snapshot_restore (snapshotRuleMatch m) m = m"
    using assms(2) by (simp_all add: ResetRuleMatchCache_def snapshot_restore_def snapshotRuleMatch_def)
  show ?thesis
    by (induction rules) (simp_all add: finish_sets_def restore reset Match_holds [OF assms] assms(2))
qed

lemma loaded_holds:
  "load_rules C i opts = Inr rules \<Longrightarrow> \<not> ic_IgnoreDestination m \<Longrightarrow>
   list_ex (\<lambda>r. holds (sc_env C) r m) rules =
   list_ex (\<lambda>x. rule_options_hold (sc_lib C) (sc_env C) (sc_manager C) x m) opts"
  by (induction opts arbitrary: i rules) (auto simp: build_holds(1) split: sum.splits)

lemma loaded_headless:
  "load_rules C i opts = Inr rules \<Longrightarrow> list_all decoded opts \<Longrightarrow>
   list_all headless rules \<and> list_ex contains_ipcidr rules = list_ex (HasHeadlessRule isIPCIDRHeadlessRule) opts"
  by (induction opts arbitrary: i rules) (auto dest: build_headless(1) split: sum.splits)


definition demo_set_context :: set_context where
  "demo_set_context = \<lparr>sc_lib = demo_rule_lib, sc_env = demo_rule_env, sc_manager = True,
     sc_source = (\<lambda>bs. if bs = [] then Inl (RuleError ''eof'') else Inr [HeadlessRule ''default'' web_options [] [] False]),
     sc_binary = (\<lambda>bs. Inl (RuleError ''not binary'')), sc_validator = None\<rparr>"

abbreviation web_rules :: "headless_rule_options list" where
  "web_rules \<equiv> [HeadlessRule ''default'' web_options [] [] False]"

definition web_set :: rule_set where
  "web_set = snd (reloadRules demo_set_context ''web'' web_rules (IncRef new_set))"


section \<open>Updates of a remote rule set\<close>

text \<open>The options the content of the configured format decodes to.\<close>

definition decode_content :: "set_context \<Rightarrow> remote_config \<Rightarrow> bytes \<Rightarrow> rule_error + headless_rule_options list" where
  "decode_content C cfg content =
     (if rc_format cfg = ''source'' then sc_source C content
      else if rc_format cfg = ''binary'' then sc_binary C content
      else Inl (RuleError (''unknown rule-set format: '' @ rc_format cfg)))"

lemma loadBytes_decode:
  "loadBytes C cfg content s =
     (case decode_content C cfg content of Inl err \<Rightarrow> (Inl err, s) | Inr opts \<Rightarrow> reloadRules C (rc_tag cfg) opts s)"
  by (simp add: loadBytes_def decode_content_def split: sum.splits)

lemma reload_ok:
  assumes "reloadRules C tag opts s = (Inr cs, t)"
  shows "load_rules C 0 opts = Inr (rs_rules t)" "rs_metadata t = buildRuleSetMetadata opts"
    "rs_refs t = rs_refs s" "cs = rs_callbacks s" "rs_callbacks t = rs_callbacks s"
  using assms by (auto simp: reloadRules_def Let_def split: sum.splits option.splits)

lemma fetch_cases:
  obtains err where "fetch C cfg x s = (Some err, s)"
  | content etag cs loaded where "fi_answer x = Status 200 (Inr content) etag"
      "loadBytes C cfg content (rm_set s) = (Inr cs, loaded)" "fst (fetch C cfg x s) = None"
      "rm_set (snd (fetch C cfg x s)) = loaded" "rm_lastUpdated (snd (fetch C cfg x s)) = fi_now x"
  | body etag where "fi_answer x = Status 304 body etag" "fst (fetch C cfg x s) = None"
      "rm_set (snd (fetch C cfg x s)) = rm_set s" "rm_lastUpdated (snd (fetch C cfg x s)) = fi_now x"
proof (cases "fi_requestErr x")
  case None
  show thesis
  proof (cases "fi_answer x")
    case (DoError err)
    then show thesis using None that(1) by (simp add: fetch_def)
  next
    case (Status code body etag)
    note simps = fetch_def None Status save_rule_set_def Let_def
    consider "code = 200" | "code = 304" | "code \<noteq> 200" "code \<noteq> 304" by blast
    then show thesis
    proof cases
      case 1
      show thesis
      proof (cases body)
        case (Inl err)
        then show thesis using 1 that(1) by (simp add: simps)
      next
        case (Inr content)
        obtain r loaded where l: "loadBytes C cfg content (rm_set s) = (r, loaded)" by fastforce
        show thesis
        proof (cases r)
          case (Inl err)
          then show thesis using 1 \<open>body = Inr content\<close> l that(1) by (simp add: simps)
        next
          case r: (Inr cs)
          show thesis by (rule that(2) [of content etag cs loaded]) (simp_all add: simps 1 Inr l r)
        qed
      qed
    next
      case 2
      show thesis by (rule that(3) [of body etag]) (simp_all add: simps 2 split: option.split)
    next
      case 3
      then show thesis using that(1) by (simp add: simps)
    qed
  qed
qed (use that(1) in \<open>simp add: fetch_def\<close>)

lemma fetch_failed: "fst (fetch C cfg x s) = Some err \<Longrightarrow> snd (fetch C cfg x s) = s"
  by (rule fetch_cases [of C cfg x s]) simp_all

lemma updateOnce_failed: "fst (fetch C cfg x s) \<noteq> None \<Longrightarrow> updateOnce C cfg x s = s"
  using fetch_failed [of C cfg x s] by (auto simp: updateOnce_def split: prod.splits option.splits)

lemma fetch_succeeded:
  "fst (fetch C cfg x s) = None \<Longrightarrow> rm_lastUpdated (snd (fetch C cfg x s)) = fi_now x"
  by (rule fetch_cases [of C cfg x s]) simp_all

lemma fetch_content:
  assumes "fst (fetch C cfg x s) = None" "fi_answer x = Status 200 (Inr content) etag"
  shows "\<exists>opts cs. decode_content C cfg content = Inr opts \<and>
    reloadRules C (rc_tag cfg) opts (rm_set s) = (Inr cs, rm_set (snd (fetch C cfg x s)))"
  by (rule fetch_cases [of C cfg x s])
    (use assms in \<open>auto simp: loadBytes_decode split: sum.splits\<close>)

lemma updateOnce_succeeded:
  "fst (fetch C cfg x s) = None \<Longrightarrow> rm_lastUpdated (updateOnce C cfg x s) = fi_now x"
  using fetch_succeeded [of C cfg x s] by (auto simp: updateOnce_def split: prod.splits option.splits)

lemma updateOnce_content:
  assumes "fst (fetch C cfg x s) = None" "fi_answer x = Status 200 (Inr content) etag" "rs_refs (rm_set s) \<noteq> 0"
  shows "\<exists>opts. decode_content C cfg content = Inr opts \<and>
    load_rules C 0 opts = Inr (rs_rules (rm_set (updateOnce C cfg x s)))"
proof -
  from fetch_content [OF assms(1,2)] obtain opts cs where opts: "decode_content C cfg content = Inr opts"
      "reloadRules C (rc_tag cfg) opts (rm_set s) = (Inr cs, rm_set (snd (fetch C cfg x s)))" by blast
  from reload_ok [OF opts(2)] assms(1,3) have "updateOnce C cfg x s = snd (fetch C cfg x s)"
    by (auto simp: updateOnce_def split: prod.splits option.splits)
  with reload_ok(1) [OF opts(2)] opts(1) show ?thesis by simp
qed

lemma startup_retries:
  assumes "is_zero (rm_lastUpdated s)" "\<forall>y \<in> set fails. fst (fetch C cfg y s) \<noteq> None"
  shows "startup_loop C cfg (map Tick fails @ rounds) s = startup_loop C cfg rounds s"
  using assms(2) by (induction fails) (simp_all add: startup_loop.simps [of C cfg "_ # _"] assms(1) updateOnce_failed)


definition demo_remote :: remote_config where
  "demo_remote = \<lparr>rc_tag = ''web'', rc_url = ''https://host/web.json'', rc_urlHash = [1, 2], rc_format = ''source'',
     rc_updateInterval = hour\<rparr>"

definition held_remote :: remote_set where
  "held_remote = \<lparr>rm_set = IncRef new_set, rm_lastUpdated = zero_time, rm_lastEtag = [], rm_cacheFile = True,
     rm_saved = None, rm_cancelled = False\<rparr>"

definition demo_fetch :: "http_answer \<Rightarrow> fetch_input" where
  "demo_fetch a = \<lparr>fi_requestErr = None, fi_answer = a, fi_now = \<lparr>wall = 1800000000 * second, mono_ns = Some 5\<rparr>, fi_saveOk = True\<rparr>"


text \<open>The updates of a remote rule set are steps of the histories above.\<close>

lemma fetch_keeps_set:
  assumes "\<And>content etag. fi_answer x = Status 200 (Inr content) etag \<Longrightarrow> fst (fetch C cfg x s) \<noteq> None"
  shows "rm_set (snd (fetch C cfg x s)) = rm_set s"
  by (rule fetch_cases [of C cfg x s]) (use assms in auto)

lemma updateOnce_steps:
  assumes "\<forall>content opts. decode_content C cfg content = Inr opts \<longrightarrow> list_all decoded opts"
  shows "(set_step C (rc_tag cfg))\<^sup>*\<^sup>* (rm_set s) (rm_set (updateOnce C cfg x s))"
proof -
  let ?s1 = "snd (fetch C cfg x s)"
  have load: "(set_step C (rc_tag cfg))\<^sup>*\<^sup>* (rm_set s) (rm_set ?s1)"
  proof (cases "fst (fetch C cfg x s) = None \<and> (\<exists>content etag. fi_answer x = Status 200 (Inr content) etag)")
    case True
    then obtain content etag where "fi_answer x = Status 200 (Inr content) etag" by blast
    with True fetch_content obtain opts cs where opts: "decode_content C cfg content = Inr opts"
        "reloadRules C (rc_tag cfg) opts (rm_set s) = (Inr cs, rm_set ?s1)" by meson
    have "set_step C (rc_tag cfg) (rm_set s) (snd (reloadRules C (rc_tag cfg) opts (rm_set s)))"
      by (rule set_step.reload) (use assms opts(1) in blast)
    then show ?thesis using opts(2) by simp
  next
    case False
    then have "rm_set ?s1 = rm_set s" by (intro fetch_keeps_set) auto
    then show ?thesis by simp
  qed
  have "rm_set (updateOnce C cfg x s) = rm_set ?s1 \<or> rm_set (updateOnce C cfg x s) = Cleanup (rm_set ?s1)"
    by (auto simp: updateOnce_def Cleanup_def split: prod.splits option.splits)
  then show ?thesis using rtranclp.rtrancl_into_rtrancl [OF load set_step.cleanup] load by fastforce
qed

end
