(* ===== verification/Service_Group.thy ===== *)
theory Service_Group
  imports Smart_Leases
begin

text \<open>
  The group of Smart Access outbounds that serve one service (\<open>smartaccess/service_group.go\<close>): which
  member new connections use, the retirement of members whose resolver failed, and the readiness
  receipt of a probe with its fallback guard. Members, probes and probe windows are heap objects; what
  the group asks of its surroundings is a record of answers (\<open>sg_env\<close>): whether a context has ended,
  which transport a manager has under a tag, whether a catalog window is active, and the readings of
  the clock, one field per place that reads it.
\<close>

section \<open>State\<close>

datatype ctx_error = Canceled | DeadlineExceeded

record readiness_stage =
  rg_Stage :: string
  rg_Result :: string
  rg_ObservedAtMS :: int
  rg_DurationMS :: int
  rg_Reason :: string

record readiness_probe =
  rp_ProbeID :: u64
  rp_LeaseID :: string
  rp_StartedAtMS :: int
  rp_CompletedAtMS :: "int option"
  rp_Status :: string
  rp_Stages :: "readiness_stage list"
  rp_FallbackGuardClosed :: bool
  rp_member :: "ref option"
  rp_ctx :: ref
  rp_owner :: ref
  rp_transport :: "ref option"
  rp_manager :: "ref option"
  rp_lookupStarted :: gotime

record probe_window =
  wd_id :: ref
  wd_member :: ref
  wd_dns :: bool
  wd_transport :: "ref option"

record service_group =
  sg_serviceID :: string
  sg_members :: "ref list"
  sg_selected :: int
  sg_evaluated :: bool
  sg_dnsFailed :: "ref set"
  sg_probeWindows :: "probe_window list"
  sg_probeID :: u64
  sg_readiness :: "ref option"
  sg_fallbackGuardClosed :: bool
  sg_out :: "ref \<Rightarrow> smart"
  sg_probe :: "ref \<Rightarrow> readiness_probe"
  sg_next_probe :: ref
  sg_next_window :: ref

record sg_env =
  ge_ctx :: "ref \<Rightarrow> ctx_error option"
  ge_bound :: "ref \<Rightarrow> string \<Rightarrow> ref option"
  ge_tag :: "ref \<Rightarrow> string"
  ge_active :: "ref \<Rightarrow> bool"
  ge_current :: "ref \<Rightarrow> string \<Rightarrow> bool"
  ge_check :: gotime
  ge_recheck :: gotime
  ge_now :: gotime
  ge_close :: gotime
  ge_sticky :: gotime
  ge_select :: "ref \<Rightarrow> gotime"

definition set_out :: "ref \<Rightarrow> smart \<Rightarrow> service_group \<Rightarrow> service_group" where
  "set_out m h g = g\<lparr>sg_out := (sg_out g)(m := h)\<rparr>"

definition set_probe :: "ref \<Rightarrow> readiness_probe \<Rightarrow> service_group \<Rightarrow> service_group" where
  "set_probe p v g = g\<lparr>sg_probe := (sg_probe g)(p := v)\<rparr>"

text \<open>\<open>Duration.Milliseconds\<close> truncates towards zero.\<close>

definition milliseconds :: "int \<Rightarrow> int" where
  "milliseconds d = (if d \<ge> 0 then d div millisecond else - ((- d) div millisecond))"

definition member_at :: "service_group \<Rightarrow> ref option" where
  "member_at g = (if sg_selected g < 0 then None else Some (sg_members g ! nat (sg_selected g)))"

section \<open>Readiness\<close>

definition readinessBindingCurrentLocked :: "sg_env \<Rightarrow> gotime \<Rightarrow> ref \<Rightarrow> service_group \<Rightarrow> bool \<times> service_group" where
  "readinessBindingCurrentLocked env now p g =
     (let probe = sg_probe g p in
      case (rp_member probe, rp_manager probe, rp_transport probe) of
        (Some m, Some manager, Some transport) \<Rightarrow>
          if ge_ctx env (rp_owner probe) \<noteq> None \<or> member_at g \<noteq> Some m then (False, g)
          else (case (if LeaseID (sg_out g m) = rp_LeaseID probe then admitsLocked now (sg_out g m) else (False, sg_out g m)) of
            (currentLease, h) \<Rightarrow>
              if \<not> currentLease then (False, set_out m h g)
              else if ge_bound env manager (ge_tag env transport) \<noteq> Some transport then (False, set_out m h g)
              else let ws = filter (\<lambda>w. wd_member w = m \<and> ge_active env (wd_id w)) (sg_probeWindows g) in
                (list_ex (\<lambda>w. wd_dns w \<and> wd_transport w = Some transport) ws \<and> list_ex (\<lambda>w. \<not> wd_dns w) ws, set_out m h g))
      | _ \<Rightarrow> (False, g))"

definition readinessCurrentLocked :: "sg_env \<Rightarrow> gotime \<Rightarrow> ref \<Rightarrow> service_group \<Rightarrow> bool \<times> service_group" where
  "readinessCurrentLocked env now p g =
     (let probe = sg_probe g p in
      if rp_Status probe = ''pending'' \<and> ge_ctx env (rp_ctx probe) \<noteq> None then (False, g)
      else readinessBindingCurrentLocked env now p g)"

definition retainResolverDeadlineLocked :: "sg_env \<Rightarrow> ref \<Rightarrow> service_group \<Rightarrow> service_group" where
  "retainResolverDeadlineLocked env p g =
     (let probe = sg_probe g p in
      if \<not> sg_fallbackGuardClosed g \<and> rp_Status probe = ''pending'' \<and> \<not> is_zero (rp_lookupStarted probe)
         \<and> rp_Stages probe = [] \<and> ge_ctx env (rp_ctx probe) = Some DeadlineExceeded
      then (case readinessBindingCurrentLocked env (ge_recheck env) p g of
          (True, g') \<Rightarrow> set_probe p (probe\<lparr>rp_Stages := rp_Stages probe @
              [\<lparr>rg_Stage = ''resolver'', rg_Result = ''failure'', rg_ObservedAtMS = unix_milli (ge_now env),
                rg_DurationMS = milliseconds (time_sub (ge_now env) (rp_lookupStarted probe)), rg_Reason = ''''\<rparr>]\<rparr>) g'
        | (False, g') \<Rightarrow> g')
      else g)"

definition closeReadinessLocked :: "gotime \<Rightarrow> service_group \<Rightarrow> service_group" where
  "closeReadinessLocked now g =
     (case sg_readiness g of
        None \<Rightarrow> g
      | Some p \<Rightarrow>
          let probe = (sg_probe g p)\<lparr>rp_FallbackGuardClosed := True\<rparr>;
              probe' = (if rp_Status probe \<noteq> ''failure''
                then probe\<lparr>rp_CompletedAtMS := Some (unix_milli now), rp_Status := ''failure''\<rparr> else probe)
          in set_probe p probe' (g\<lparr>sg_fallbackGuardClosed := True\<rparr>))"

text \<open>The result is the new probe.\<close>

definition beginReadiness :: "sg_env \<Rightarrow> ref \<Rightarrow> ref \<Rightarrow> service_group \<Rightarrow> ref \<times> service_group" where
  "beginReadiness env ctx owner g =
     (let g1 = (case sg_readiness g of
            None \<Rightarrow> g
          | Some q \<Rightarrow> if rp_member (sg_probe g q) = None then g
              else (case readinessCurrentLocked env (ge_check env) q g of
                (valid, g') \<Rightarrow> if valid then g' else closeReadinessLocked (ge_close env) g'));
          probe = \<lparr>rp_ProbeID = sg_probeID g1 + 1, rp_LeaseID = '''', rp_StartedAtMS = unix_milli (ge_now env),
            rp_CompletedAtMS = None, rp_Status = ''pending'', rp_Stages = [],
            rp_FallbackGuardClosed = sg_fallbackGuardClosed g1, rp_member = None, rp_ctx = ctx, rp_owner = owner,
            rp_transport = None, rp_manager = None, rp_lookupStarted = zero_time\<rparr>;
          probe' = (case sg_readiness g of
            None \<Rightarrow> probe
          | Some q \<Rightarrow> let previous = sg_probe g1 q in
              probe\<lparr>rp_member := rp_member previous, rp_LeaseID := rp_LeaseID previous,
                rp_transport := rp_transport previous, rp_manager := rp_manager previous\<rparr>);
          p = sg_next_probe g1
      in (p, (set_probe p probe' g1)\<lparr>sg_probeID := sg_probeID g1 + 1, sg_readiness := Some p, sg_next_probe := p + 1\<rparr>))"

definition bindReadiness :: "ref \<Rightarrow> ref \<Rightarrow> string \<Rightarrow> ref option \<Rightarrow> ref option \<Rightarrow> service_group \<Rightarrow> service_group" where
  "bindReadiness p m leaseID transport manager g =
     (if sg_readiness g \<noteq> Some p then g
      else set_probe p ((sg_probe g p)\<lparr>rp_member := Some m, rp_LeaseID := leaseID, rp_transport := transport,
        rp_manager := manager\<rparr>) g)"

definition beginResolverLookup :: "sg_env \<Rightarrow> ref \<Rightarrow> service_group \<Rightarrow> service_group" where
  "beginResolverLookup env p g =
     (if sg_readiness g = Some p \<and> rp_Status (sg_probe g p) = ''pending''
      then (case readinessCurrentLocked env (ge_check env) p g of
          (True, g') \<Rightarrow> set_probe p ((sg_probe g' p)\<lparr>rp_lookupStarted := ge_now env\<rparr>) g'
        | (False, g') \<Rightarrow> g')
      else g)"

definition finishResolverLookup :: "sg_env \<Rightarrow> ref \<Rightarrow> service_group \<Rightarrow> service_group" where
  "finishResolverLookup env p g =
     (if sg_readiness g = Some p \<and> ge_ctx env (rp_ctx (sg_probe g p)) = None
      then set_probe p ((sg_probe g p)\<lparr>rp_lookupStarted := zero_time\<rparr>) g else g)"

definition observeReadiness ::
    "sg_env \<Rightarrow> ref \<Rightarrow> string \<Rightarrow> gotime \<Rightarrow> int \<Rightarrow> go_error option \<Rightarrow> service_group \<Rightarrow> service_group" where
  "observeReadiness env p stage observedAt duration err g =
     (if sg_readiness g \<noteq> Some p then g
      else case (if ge_ctx env (rp_ctx (sg_probe g p)) \<noteq> None then (False, g)
                 else readinessCurrentLocked env (ge_check env) p g) of
        (False, g1) \<Rightarrow> closeReadinessLocked (ge_close env) (retainResolverDeadlineLocked env p g1)
      | (True, g1) \<Rightarrow>
          let g2 = set_probe p ((sg_probe g1 p)\<lparr>rp_Stages := rp_Stages (sg_probe g1 p) @
                [\<lparr>rg_Stage = stage, rg_Result = (if err \<noteq> None then ''failure'' else ''pass''),
                  rg_ObservedAtMS = unix_milli observedAt, rg_DurationMS = milliseconds duration,
                  rg_Reason = ObservedFailure err\<rparr>]\<rparr>) g1
          in if err \<noteq> None then closeReadinessLocked (ge_close env) g2 else g2)"

definition three_passes :: "readiness_stage list \<Rightarrow> bool" where
  "three_passes stages \<longleftrightarrow> map rg_Stage stages = [''resolver'', ''dns'', ''tls'']
     \<and> map rg_Result stages = [''pass'', ''pass'', ''pass'']"

definition finishReadiness :: "sg_env \<Rightarrow> ref \<Rightarrow> go_error option \<Rightarrow> service_group \<Rightarrow> service_group" where
  "finishReadiness env p err g =
     (if sg_readiness g \<noteq> Some p then g
      else case (if err \<noteq> None \<or> ge_ctx env (rp_ctx (sg_probe g p)) \<noteq> None \<or> sg_fallbackGuardClosed g then (False, g)
                 else readinessCurrentLocked env (ge_check env) p g) of
        (ok, g1) \<Rightarrow>
          if \<not> ok \<or> \<not> three_passes (rp_Stages (sg_probe g1 p))
          then closeReadinessLocked (ge_close env) (retainResolverDeadlineLocked env p g1)
          else set_probe p ((sg_probe g1 p)\<lparr>rp_CompletedAtMS := Some (unix_milli (ge_now env)), rp_Status := ''pass''\<rparr>) g1)"

definition ObserveScopedRuleBypass :: "(string \<Rightarrow> string) \<Rightarrow> ref \<Rightarrow> string \<Rightarrow> gotime \<Rightarrow> service_group \<Rightarrow> service_group" where
  "ObserveScopedRuleBypass uni m domain now g =
     (case sg_readiness g of
        None \<Rightarrow> g
      | Some p \<Rightarrow>
          if rp_member (sg_probe g p) = Some m \<and> allows (to_lower uni (trim_suffix domain ''.'')) (sg_out g m)
          then closeReadinessLocked now g else g)"

section \<open>Probe windows\<close>

definition BindProbeWindow :: "ref \<Rightarrow> bool \<Rightarrow> ref option \<Rightarrow> service_group \<Rightarrow> ref \<times> service_group" where
  "BindProbeWindow m dns transport g =
     (sg_next_window g,
      g\<lparr>sg_probeWindows := sg_probeWindows g @
          [\<lparr>wd_id = sg_next_window g, wd_member = m, wd_dns = dns, wd_transport = transport\<rparr>],
        sg_next_window := sg_next_window g + 1\<rparr>)"

text \<open>The function that \<open>BindProbeWindow\<close> returns.\<close>

definition unbindProbeWindow :: "ref \<Rightarrow> gotime \<Rightarrow> service_group \<Rightarrow> service_group" where
  "unbindProbeWindow i now g =
     (case find (\<lambda>w. wd_id w = i) (sg_probeWindows g) of
        None \<Rightarrow> g
      | Some window \<Rightarrow>
          let g1 = (case sg_readiness g of
                None \<Rightarrow> g
              | Some p \<Rightarrow> if rp_member (sg_probe g p) = Some (wd_member window) then closeReadinessLocked now g else g)
          in g1\<lparr>sg_probeWindows := remove1 window (sg_probeWindows g1)\<rparr>)"

section \<open>Selection\<close>

text \<open>\<open>availableForNewFlows\<close> of a member.\<close>

definition member_available :: "ref \<Rightarrow> gotime \<Rightarrow> service_group \<Rightarrow> bool \<times> service_group" where
  "member_available m now g =
     (case availableForNewFlows now (sg_out g m) of (ok, h) \<Rightarrow> (ok, set_out m h g))"

fun select_loop :: "sg_env \<Rightarrow> nat \<Rightarrow> ref list \<Rightarrow> service_group \<Rightarrow> ref option \<times> service_group" where
  "select_loop env index [] g = (None, g\<lparr>sg_selected := - 1\<rparr>)"
| "select_loop env index (m # ms) g =
     (if m \<in> sg_dnsFailed g then select_loop env (index + 1) ms g
      else case member_available m (ge_select env m) g of
        (True, g') \<Rightarrow> (Some m, g'\<lparr>sg_selected := int index\<rparr>)
      | (False, g') \<Rightarrow> select_loop env (index + 1) ms g')"

text \<open>The deferred check: a selection that left the probed member closes the guard.\<close>

definition close_if_moved :: "gotime \<Rightarrow> service_group \<Rightarrow> service_group" where
  "close_if_moved now g =
     (case sg_readiness g of
        None \<Rightarrow> g
      | Some p \<Rightarrow>
          if rp_member (sg_probe g p) \<noteq> None \<and> member_at g \<noteq> rp_member (sg_probe g p)
          then closeReadinessLocked now g else g)"

definition Selected :: "sg_env \<Rightarrow> service_group \<Rightarrow> ref option \<times> service_group" where
  "Selected env g =
     (let g0 = g\<lparr>sg_evaluated := True\<rparr>;
          sticky = (case member_at g0 of
              None \<Rightarrow> (False, g0)
            | Some m \<Rightarrow> if m \<in> sg_dnsFailed g0 then (False, g0) else member_available m (ge_sticky env) g0)
      in case sticky of
        (True, g1) \<Rightarrow> (member_at g1, close_if_moved (ge_close env) g1)
      | (False, g1) \<Rightarrow>
          (case select_loop env 0 (sg_members g1) g1 of (r, g2) \<Rightarrow> (r, close_if_moved (ge_close env) g2)))"

definition DNSFailed :: "sg_env \<Rightarrow> ref \<Rightarrow> service_group \<Rightarrow> service_group" where
  "DNSFailed env m g =
     (let g1 = (case sg_readiness g of
            None \<Rightarrow> g
          | Some p \<Rightarrow> if rp_member (sg_probe g p) = Some m then closeReadinessLocked (ge_close env) g else g);
          g2 = (case admitsLocked (ge_now env) (sg_out g1 m) of
            (ok, h) \<Rightarrow> set_out m (if ok then set_lease (so_lease h) ((so_auth h (so_lease h))\<lparr>sl_probeFailure := Some ProbeStageDNS\<rparr>) h
              else h) g1);
          g3 = g2\<lparr>sg_dnsFailed := insert m (sg_dnsFailed g2)\<rparr>
      in if member_at g3 = Some m then g3\<lparr>sg_selected := - 1\<rparr> else g3)"

text \<open>
  \<open>probeScope\<close> locks several times: \<open>env k\<close> are the answers during its \<open>k\<close>-th call and \<open>other k\<close> is
  what other goroutines did before it. The result is the transport and whether the scope holds.
\<close>

definition probeScope ::
    "(nat \<Rightarrow> sg_env) \<Rightarrow> (nat \<Rightarrow> service_group \<Rightarrow> service_group) \<Rightarrow> ref \<Rightarrow> string \<Rightarrow> bool \<Rightarrow> service_group
      \<Rightarrow> (ref option \<times> bool) \<times> service_group" where
  "probeScope env other m domain selected g =
     (let g0 = other 0 g in
      case AdmitsNewFlows (ge_check (env 0)) (sg_out g0 m) of
        (ok, h) \<Rightarrow>
          let g1 = set_out m h g0 in
          if \<not> ok then ((None, False), g1)
          else (case (if selected then Selected (env 1) (other 1 g1) else (Some m, g1)) of
            (chosen, g2) \<Rightarrow>
              if chosen \<noteq> Some m then ((None, False), g2)
              else let g3 = other 2 g2;
                  ws = filter (\<lambda>w. wd_member w = m \<and> ge_active (env 2) (wd_id w)
                    \<and> \<not> (selected \<and> \<not> ge_current (env 2) (wd_id w) domain)) (sg_probeWindows g3);
                  transport = fold (\<lambda>w t. if wd_dns w then wd_transport w else t) ws None;
                  route = list_ex (\<lambda>w. \<not> wd_dns w) ws
                in if \<not> route \<or> transport = None then ((transport, False), g3)
                   else if selected then
                     (case Selected (env 3) (other 3 g3) of (again, g4) \<Rightarrow> ((transport, again = Some m), g4))
                   else ((transport, True), g3)))"

text \<open>
  Why no member can be probed. The loop returns nothing as soon as one member lacks authority;
  otherwise it returns the failure of the first member whose grant is still in force, if any.
\<close>

fun unavailable_members ::
    "sg_env \<Rightarrow> ref \<Rightarrow> gotime \<Rightarrow> service_group \<Rightarrow> probe_stage option \<Rightarrow> ref list \<Rightarrow> probe_stage option option" where
  "unavailable_members env manager now g failure [] = Some failure"
| "unavailable_members env manager now g failure (m # ms) =
     (let h = sg_out g m; lease = so_auth h (so_lease h);
          expired = (\<not> time_before now (sl_newUntil lease) \<or> \<not> time_before now (sl_newDeadline lease)) in
      if so_closed h \<or> so_revoked h \<or> sl_revoked lease \<or> time_before now (sl_issued lease) then None
      else if expired \<and> m \<in> sg_dnsFailed g then None
      else if \<not> expired \<and> (sl_admissionExpired lease \<or> (sl_probeFailure lease = None \<and> m \<notin> sg_dnsFailed g)) then None
      else let failure' = (if \<not> expired \<and> failure = None
              then (if m \<in> sg_dnsFailed g then Some ProbeStageDNS else sl_probeFailure lease) else failure);
            ws = filter (\<lambda>w. wd_member w = m \<and> ge_active env (wd_id w)) (sg_probeWindows g);
            route = list_ex (\<lambda>w. \<not> wd_dns w) ws;
            dns = fold (\<lambda>w d. case wd_transport w of
                None \<Rightarrow> d
              | Some t \<Rightarrow> if wd_dns w then ge_bound env manager (ge_tag env t) = Some t else d) ws False
        in if \<not> dns \<or> \<not> route then None else unavailable_members env manager now g failure' ms)"

definition probeUnavailableError :: "sg_env \<Rightarrow> ref option \<Rightarrow> gotime \<Rightarrow> service_group \<Rightarrow> probe_stage option" where
  "probeUnavailableError env manager now g =
     (case manager of
        None \<Rightarrow> None
      | Some mg \<Rightarrow>
          (case unavailable_members env mg now g None (sg_members g) of
             None \<Rightarrow> None
           | Some (Some stage) \<Rightarrow> Some stage
           | Some None \<Rightarrow> Some ProbeStageLeaseExpired))"

section \<open>Construction and readback\<close>

fun check_members :: "(ref \<Rightarrow> smart) \<Rightarrow> sa_domain list \<Rightarrow> ref list \<Rightarrow> ref option list \<Rightarrow> bool" where
  "check_members out domains seen [] = True"
| "check_members out domains seen (m # ms) =
     (case m of
        None \<Rightarrow> False
      | Some r \<Rightarrow>
          if r \<in> set seen \<or> length (so_domains (out r)) \<noteq> length (remdups domains) then False
          else if \<not> list_all (\<lambda>d. d \<in> set domains) (so_domains (out r)) then False
          else check_members out domains (r # seen) ms)"

text \<open>\<open>existing\<close> is the group the anchor already has.\<close>

definition ServiceLeaseGroup ::
    "(ref \<Rightarrow> smart) \<Rightarrow> service_group option \<Rightarrow> ref \<Rightarrow> string \<Rightarrow> ref option list \<Rightarrow> sa_error + service_group" where
  "ServiceLeaseGroup out existing anchor serviceID members =
     (if serviceID = '''' \<or> length members = 0 \<or> length members > 16 \<or> hd members \<noteq> Some anchor then Inl errScope
      else if \<not> check_members out (so_domains (out anchor)) [] members then Inl errScope
      else case existing of
        Some old \<Rightarrow>
          if sg_serviceID old \<noteq> serviceID \<or> length (sg_members old) \<noteq> length members then Inl errScope
          else if map Some (sg_members old) \<noteq> members then Inl errScope
          else Inr old
      | None \<Rightarrow>
          Inr \<lparr>sg_serviceID = serviceID, sg_members = map the members, sg_selected = 0, sg_evaluated = False,
            sg_dnsFailed = {}, sg_probeWindows = [], sg_probeID = 0, sg_readiness = None,
            sg_fallbackGuardClosed = False, sg_out = out,
            sg_probe = (\<lambda>_. \<lparr>rp_ProbeID = 0, rp_LeaseID = '''', rp_StartedAtMS = 0, rp_CompletedAtMS = None,
              rp_Status = '''', rp_Stages = [], rp_FallbackGuardClosed = False, rp_member = None, rp_ctx = 0, rp_owner = 0,
              rp_transport = None, rp_manager = None, rp_lookupStarted = zero_time\<rparr>),
            sg_next_probe = 0, sg_next_window = 0\<rparr>)"

record lease_selection =
  ls_ServiceID :: string
  ls_LeaseID :: string
  ls_SelectionIndex :: int
  ls_State :: string
  ls_Available :: bool
  ls_Readiness :: "readiness_probe option"

definition ReadServiceLeaseSelection :: "sg_env \<Rightarrow> service_group \<Rightarrow> lease_selection \<times> service_group" where
  "ReadServiceLeaseSelection env g =
     (let g1 = (case sg_readiness g of
            None \<Rightarrow> g
          | Some p \<Rightarrow> if rp_member (sg_probe g p) = None then g
              else (case readinessCurrentLocked env (ge_check env) p g of
                (valid, g') \<Rightarrow> if valid then g'
                  else closeReadinessLocked (ge_close env) (retainResolverDeadlineLocked env p g')));
          result = \<lparr>ls_ServiceID = sg_serviceID g1, ls_LeaseID = '''', ls_SelectionIndex = sg_selected g1,
            ls_State = ''pending'', ls_Available = False, ls_Readiness = map_option (sg_probe g1) (sg_readiness g1)\<rparr>
      in case member_at g1 of
        None \<Rightarrow> (result\<lparr>ls_State := ''unavailable''\<rparr>, g1)
      | Some m \<Rightarrow>
          (case member_available m (ge_sticky env) g1 of
             (ok, g2) \<Rightarrow> (result\<lparr>ls_LeaseID := LeaseID (sg_out g1 m), ls_Available := ok,
                 ls_State := (if sg_evaluated g2 then ''gateway'' else ''pending'')\<rparr>, g2)))"

section \<open>Histories\<close>

inductive sg_step :: "service_group \<Rightarrow> service_group \<Rightarrow> bool" where
  begin_probe: "sg_step g (snd (beginReadiness env ctx owner g))"
| bind: "sg_step g (bindReadiness p m leaseID transport manager g)"
| begin_lookup: "sg_step g (beginResolverLookup env p g)"
| finish_lookup: "sg_step g (finishResolverLookup env p g)"
| observe: "sg_step g (observeReadiness env p stage at duration err g)"
| finish: "sg_step g (finishReadiness env p err g)"
| bypass: "sg_step g (ObserveScopedRuleBypass uni m domain now g)"
| bind_window: "sg_step g (snd (BindProbeWindow m dns transport g))"
| unbind_window: "sg_step g (unbindProbeWindow i now g)"
| select: "sg_step g (snd (Selected env g))"
| dns_failed: "m \<in> set (sg_members g) \<Longrightarrow> sg_step g (DNSFailed env m g)"
| read: "sg_step g (snd (ReadServiceLeaseSelection env g))"
| member: "sg_step g (set_out m h g)"

inductive_cases sg_stepE: "sg_step g g'"

definition sg_init :: "(ref \<Rightarrow> smart) \<Rightarrow> ref \<Rightarrow> string \<Rightarrow> ref option list \<Rightarrow> service_group \<Rightarrow> bool" where
  "sg_init out anchor serviceID members g \<longleftrightarrow> ServiceLeaseGroup out None anchor serviceID members = Inr g"

subsection \<open>What the parts leave alone\<close>

text \<open>The selection, the failed members and the guard never depend on what a check latches in a member.\<close>

definition same_but_out :: "service_group \<Rightarrow> service_group \<Rightarrow> bool" where
  "same_but_out g g' \<longleftrightarrow> g'\<lparr>sg_out := sg_out g\<rparr> = g"

lemma same_but_out_sel:
  assumes "same_but_out g g'"
  shows "sg_members g' = sg_members g" "sg_selected g' = sg_selected g" "sg_dnsFailed g' = sg_dnsFailed g"
    "sg_readiness g' = sg_readiness g" "sg_fallbackGuardClosed g' = sg_fallbackGuardClosed g" "sg_probe g' = sg_probe g"
    "sg_next_probe g' = sg_next_probe g" "sg_probeWindows g' = sg_probeWindows g" "member_at g' = member_at g"
    "sg_serviceID g' = sg_serviceID g" "sg_evaluated g' = sg_evaluated g" "sg_probeID g' = sg_probeID g"
  using assms by (auto simp: same_but_out_def member_at_def service_group.splits elim!: subst)

lemma same_but_out_refl [simp]: "same_but_out g g"
  by (simp add: same_but_out_def)

lemma same_but_out_set [simp]: "same_but_out g (set_out m h g)"
  by (simp add: same_but_out_def set_out_def)

lemma binding_same [simp]: "same_but_out g (snd (readinessBindingCurrentLocked env now p g))"
  by (auto simp: readinessBindingCurrentLocked_def Let_def split: option.splits prod.splits)

lemma current_same [simp]: "same_but_out g (snd (readinessCurrentLocked env now p g))"
  by (simp add: readinessCurrentLocked_def Let_def)

lemma available_same [simp]: "same_but_out g (snd (member_available m now g))"
  by (simp add: member_available_def split: prod.splits)

lemmas current_sel = same_but_out_sel [OF current_same]
  and binding_sel = same_but_out_sel [OF binding_same]
  and available_sel = same_but_out_sel [OF available_same]

lemma select_loop_Cons:
  "select_loop env i (m # ms) g =
     (if m \<in> sg_dnsFailed g then select_loop env (i + 1) ms g
      else if fst (member_available m (ge_select env m) g)
      then (Some m, (snd (member_available m (ge_select env m) g))\<lparr>sg_selected := int i\<rparr>)
      else select_loop env (i + 1) ms (snd (member_available m (ge_select env m) g)))"
  by (auto split: prod.splits bool.splits)

lemma select_loop_frame:
  "sg_members (snd (select_loop env i ms g)) = sg_members g" "sg_dnsFailed (snd (select_loop env i ms g)) = sg_dnsFailed g"
  "sg_readiness (snd (select_loop env i ms g)) = sg_readiness g" "sg_probe (snd (select_loop env i ms g)) = sg_probe g"
  "sg_fallbackGuardClosed (snd (select_loop env i ms g)) = sg_fallbackGuardClosed g"
  "sg_next_probe (snd (select_loop env i ms g)) = sg_next_probe g"
  by (induction ms arbitrary: i g)
    (simp_all add: select_loop_Cons available_sel del: select_loop.simps(2))

text \<open>The loop finds the first member that did not fail and is available.\<close>

definition candidate :: "sg_env \<Rightarrow> service_group \<Rightarrow> ref \<Rightarrow> bool" where
  "candidate env g m \<longleftrightarrow> m \<notin> sg_dnsFailed g \<and> fst (availableForNewFlows (ge_select env m) (sg_out g m))"

lemma available_result:
  "fst (member_available m now g) = fst (availableForNewFlows now (sg_out g m))"
  "k \<noteq> m \<Longrightarrow> sg_out (snd (member_available m now g)) k = sg_out g k"
  by (simp_all add: member_available_def set_out_def case_prod_beta)

lemma candidate_cong:
  "sg_dnsFailed g' = sg_dnsFailed g \<Longrightarrow> sg_out g' m = sg_out g m \<Longrightarrow> candidate env g' m = candidate env g m"
  by (simp add: candidate_def)

lemma find_cong_set: "(\<And>x. x \<in> set xs \<Longrightarrow> P x = Q x) \<Longrightarrow> find P xs = find Q xs"
  by (induction xs) auto

lemma select_loop_first:
  assumes "sg_members g = pre @ ms" and "distinct ms"
  shows "fst (select_loop env (length pre) ms g) = find (candidate env g) ms
    \<and> member_at (snd (select_loop env (length pre) ms g)) = find (candidate env g) ms"
  using assms
proof (induction ms arbitrary: pre g)
  case Nil
  then show ?case by (simp add: member_at_def)
next
  case (Cons m ms)
  let ?g = "snd (member_available m (ge_select env m) g)"
  have same: "find (candidate env ?g) ms = find (candidate env g) ms"
    using Cons.prems(2) by (intro find_cong_set candidate_cong) (auto simp: available_sel intro: available_result(2))
  have "sg_members ?g = (pre @ [m]) @ ms" "distinct ms" "sg_members g = (pre @ [m]) @ ms"
    using Cons.prems by (simp_all add: available_sel)
  note IH = Cons.IH [OF this(1,2)] Cons.IH [OF this(3,2)]
  show ?case
    using IH same Cons.prems
    by (auto simp: select_loop_Cons candidate_def [of env g m] available_result member_at_def available_sel
        simp del: select_loop.simps(2))
qed

text \<open>The check of the current member that precedes the loop.\<close>

definition sticky :: "sg_env \<Rightarrow> service_group \<Rightarrow> bool \<times> service_group" where
  "sticky env g = (case member_at g of
      None \<Rightarrow> (False, g)
    | Some m \<Rightarrow> if m \<in> sg_dnsFailed g then (False, g) else member_available m (ge_sticky env) g)"

lemma sticky_same [simp]: "same_but_out g (snd (sticky env g))"
  by (auto simp: sticky_def split: option.splits)

lemmas sticky_sel = same_but_out_sel [OF sticky_same]

lemma Selected_eq:
  "Selected env g = (let g1 = snd (sticky env (g\<lparr>sg_evaluated := True\<rparr>)) in
     if fst (sticky env (g\<lparr>sg_evaluated := True\<rparr>)) then (member_at g1, close_if_moved (ge_close env) g1)
     else (fst (select_loop env 0 (sg_members g1) g1), close_if_moved (ge_close env) (snd (select_loop env 0 (sg_members g1) g1))))"
  by (simp add: Selected_def sticky_def Let_def case_prod_beta split: bool.splits)

lemma close_frame [simp]:
  "sg_members (closeReadinessLocked now g) = sg_members g" "sg_selected (closeReadinessLocked now g) = sg_selected g"
  "sg_dnsFailed (closeReadinessLocked now g) = sg_dnsFailed g" "sg_readiness (closeReadinessLocked now g) = sg_readiness g"
  "sg_out (closeReadinessLocked now g) = sg_out g" "sg_next_probe (closeReadinessLocked now g) = sg_next_probe g"
  "member_at (closeReadinessLocked now g) = member_at g"
  by (simp_all add: closeReadinessLocked_def set_probe_def Let_def member_at_def split: option.splits)

lemma close_if_moved_frame [simp]:
  "sg_members (close_if_moved now g) = sg_members g" "sg_selected (close_if_moved now g) = sg_selected g"
  "sg_dnsFailed (close_if_moved now g) = sg_dnsFailed g" "sg_readiness (close_if_moved now g) = sg_readiness g"
  "member_at (close_if_moved now g) = member_at g" "sg_next_probe (close_if_moved now g) = sg_next_probe g"
  by (simp_all add: close_if_moved_def split: option.splits)

text \<open>
  C18. Selection follows the coordinator's order and is sticky: if the member selected so far did not
  fail and is available, it stays; otherwise the choice is the first member in the order, among those
  whose resolver did not fail, that is available when asked; nothing is returned only when there is none. The
  recorded selection is the member returned.
\<close>

theorem selection_order:
  assumes "distinct (sg_members g)" and "sticky env g = (kept, g1)" and "Selected env g = (r, g')"
  shows "r = (if kept then member_at g else find (candidate env g1) (sg_members g))
    \<and> member_at g' = r \<and> sg_members g' = sg_members g
    \<and> (kept \<longleftrightarrow> (\<exists>m. member_at g = Some m \<and> m \<notin> sg_dnsFailed g \<and> fst (availableForNewFlows (ge_sticky env) (sg_out g m))))"
proof -
  let ?g = "g\<lparr>sg_evaluated := True\<rparr>"
  have st: "fst (sticky env ?g) = kept" "sg_out (snd (sticky env ?g)) = sg_out g1" "member_at ?g = member_at g"
    using assms(2) by (auto simp: sticky_def member_at_def member_available_def set_out_def case_prod_beta split: option.splits if_splits)
  have k: "kept \<longleftrightarrow> (\<exists>m. member_at g = Some m \<and> m \<notin> sg_dnsFailed g \<and> fst (availableForNewFlows (ge_sticky env) (sg_out g m)))"
    using assms(2) by (auto simp: sticky_def member_available_def case_prod_beta split: option.splits if_splits)
  have f: "sg_dnsFailed g1 = sg_dnsFailed g" using assms(2) sticky_sel(3) [of env g] by simp
  have c: "candidate env (snd (sticky env ?g)) = candidate env g1"
    by (simp add: fun_eq_iff candidate_def st sticky_sel f)
  have l: "fst (select_loop env 0 (sg_members g) (snd (sticky env ?g))) = find (candidate env g1) (sg_members g)
      \<and> member_at (snd (select_loop env 0 (sg_members g) (snd (sticky env ?g)))) = find (candidate env g1) (sg_members g)"
    using select_loop_first [of "snd (sticky env ?g)" "[]" "sg_members g" env] assms(1) by (simp add: sticky_sel c)
  have r: "r = fst (Selected env g)" "g' = snd (Selected env g)" using assms(3) by simp_all
  have "r = (if kept then member_at g else find (candidate env g1) (sg_members g)) \<and> member_at g' = r
      \<and> sg_members g' = sg_members g"
    using l st unfolding r by (cases kept) (simp_all add: Selected_eq Let_def sticky_sel select_loop_frame)
  with k show ?thesis by blast
qed

section \<open>The receipt and its guard\<close>

text \<open>What no step undoes.\<close>

definition sg_grows :: "service_group \<Rightarrow> service_group \<Rightarrow> bool" where
  "sg_grows g g' \<longleftrightarrow> sg_members g' = sg_members g \<and> sg_dnsFailed g \<subseteq> sg_dnsFailed g'
     \<and> (sg_fallbackGuardClosed g \<longrightarrow> sg_fallbackGuardClosed g')"

definition receipt_ok :: "bool \<Rightarrow> readiness_probe \<Rightarrow> bool" where
  "receipt_ok closed r \<longleftrightarrow> rp_FallbackGuardClosed r = closed \<and> rp_Status r \<in> {''pending'', ''pass'', ''failure''}
     \<and> (closed \<longrightarrow> rp_Status r \<noteq> ''pass'') \<and> (rp_Status r = ''failure'' \<longrightarrow> closed)
     \<and> (rp_Status r = ''pass'' \<longrightarrow> three_passes (take 3 (rp_Stages r)))"

definition receipt_inv :: "service_group \<Rightarrow> bool" where
  "receipt_inv g \<longleftrightarrow> (case sg_readiness g of
      None \<Rightarrow> \<not> sg_fallbackGuardClosed g
    | Some p \<Rightarrow> p < sg_next_probe g \<and> receipt_ok (sg_fallbackGuardClosed g) (sg_probe g p))"

definition receipt_step :: "service_group \<Rightarrow> service_group \<Rightarrow> bool" where
  "receipt_step g g' \<longleftrightarrow> sg_grows g g' \<and> (receipt_inv g \<longrightarrow> receipt_inv g')"

lemma receipt_step_refl [simp]: "receipt_step g g"
  by (simp add: receipt_step_def sg_grows_def)

lemma receipt_step_trans: "receipt_step g g' \<Longrightarrow> receipt_step g' g'' \<Longrightarrow> receipt_step g g''"
  by (auto simp: receipt_step_def sg_grows_def)

lemma receipt_step_same:
  assumes "sg_members g' = sg_members g" "sg_dnsFailed g \<subseteq> sg_dnsFailed g'" "sg_readiness g' = sg_readiness g"
    "sg_fallbackGuardClosed g' = sg_fallbackGuardClosed g" "sg_probe g' = sg_probe g" "sg_next_probe g' = sg_next_probe g"
  shows "receipt_step g g'"
  using assms by (simp add: receipt_step_def sg_grows_def receipt_inv_def split: option.splits)

lemma receipt_step_out: "same_but_out g g' \<Longrightarrow> receipt_step g g'"
  by (rule receipt_step_same) (simp_all add: same_but_out_sel)

lemma receipt_step_probe:
  assumes "sg_readiness g = Some p \<Longrightarrow> receipt_ok (sg_fallbackGuardClosed g) (sg_probe g p) \<Longrightarrow> receipt_ok (sg_fallbackGuardClosed g) v"
  shows "receipt_step g (set_probe p v g)"
  using assms by (auto simp: receipt_step_def sg_grows_def receipt_inv_def set_probe_def split: option.splits)

lemma receipt_step_close: "receipt_step g (closeReadinessLocked now g)"
  by (auto simp: receipt_step_def sg_grows_def receipt_inv_def closeReadinessLocked_def set_probe_def Let_def receipt_ok_def
      split: option.splits)

lemma receipt_step_retain: "receipt_step g (retainResolverDeadlineLocked env p g)"
proof -
  have "receipt_step (snd (readinessBindingCurrentLocked env now p g)) (set_probe p ((sg_probe g p)\<lparr>rp_Stages := x\<rparr>)
      (snd (readinessBindingCurrentLocked env now p g)))" if "rp_Status (sg_probe g p) = ''pending''" for now x
    using that by (intro receipt_step_probe) (auto simp: receipt_ok_def binding_sel)
  from receipt_step_trans [OF receipt_step_out [OF binding_same] this] receipt_step_out [OF binding_same]
  show ?thesis
    by (auto simp: retainResolverDeadlineLocked_def Let_def case_prod_beta split: bool.splits)
qed

lemma three_passes_take: "three_passes stages \<Longrightarrow> three_passes (take 3 stages)"
  unfolding three_passes_def by (simp add: take_map [symmetric])

lemma three_passes_append: "three_passes (take 3 stages) \<Longrightarrow> three_passes (take 3 (stages @ later))"
proof -
  assume t: "three_passes (take 3 stages)"
  then have "length (map rg_Stage (take 3 stages)) = 3" by (simp add: three_passes_def)
  then have "3 \<le> length stages" by simp
  with t show ?thesis by simp
qed

lemma receipt_step_observe: "receipt_step g (observeReadiness env p stage at duration err g)"
proof -
  let ?c = "if ge_ctx env (rp_ctx (sg_probe g p)) \<noteq> None then (False, g) else readinessCurrentLocked env (ge_check env) p g"
  have c: "receipt_step g (snd ?c)" by (simp add: receipt_step_out)
  have "receipt_step g' (set_probe p ((sg_probe g' p)\<lparr>rp_Stages := rp_Stages (sg_probe g' p) @ x\<rparr>) g')" for g' x
    by (rule receipt_step_probe) (auto simp: receipt_ok_def three_passes_append simp del: take_append)
  from receipt_step_trans [OF c this] receipt_step_trans [OF receipt_step_trans [OF c this] receipt_step_close]
    receipt_step_trans [OF receipt_step_trans [OF c receipt_step_retain] receipt_step_close]
  show ?thesis
    unfolding observeReadiness_def Let_def case_prod_beta by (auto split: bool.splits)
qed

lemma receipt_step_finish: "receipt_step g (finishReadiness env p err g)"
proof -
  let ?c = "if err \<noteq> None \<or> ge_ctx env (rp_ctx (sg_probe g p)) \<noteq> None \<or> sg_fallbackGuardClosed g then (False, g)
    else readinessCurrentLocked env (ge_check env) p g"
  have c: "receipt_step g (snd ?c)" by (simp add: receipt_step_out)
  have "receipt_step (snd ?c) (set_probe p ((sg_probe (snd ?c) p)\<lparr>rp_CompletedAtMS := x, rp_Status := ''pass''\<rparr>) (snd ?c))"
    if "fst ?c" "three_passes (rp_Stages (sg_probe (snd ?c) p))" for x
    using that three_passes_take [OF that(2)]
    by (intro receipt_step_probe) (auto simp: receipt_ok_def current_sel split: if_splits)
  from receipt_step_trans [OF c this]
    receipt_step_trans [OF receipt_step_trans [OF c receipt_step_retain] receipt_step_close]
  show ?thesis unfolding finishReadiness_def Let_def case_prod_beta by auto
qed

lemma receipt_step_if: "receipt_step g a \<Longrightarrow> receipt_step g b \<Longrightarrow> receipt_step g (if c then a else b)"
  by simp

lemma receipt_step_begin: "receipt_step g (snd (beginReadiness env ctx owner g))"
proof -
  define g1 where "g1 = (case sg_readiness g of
      None \<Rightarrow> g
    | Some q \<Rightarrow> if rp_member (sg_probe g q) = None then g
        else (case readinessCurrentLocked env (ge_check env) q g of
          (valid, g') \<Rightarrow> if valid then g' else closeReadinessLocked (ge_close env) g'))"
  have "receipt_step g g1"
    using receipt_step_trans [OF receipt_step_out [OF current_same] receipt_step_close]
    by (auto simp: g1_def case_prod_beta receipt_step_out split: option.splits)
  moreover have "receipt_step g1 (snd (beginReadiness env ctx owner g))"
    unfolding beginReadiness_def Let_def g1_def [symmetric]
    by (auto simp: receipt_step_def sg_grows_def receipt_inv_def receipt_ok_def set_probe_def split: option.splits)
  ultimately show ?thesis by (rule receipt_step_trans)
qed

lemma receipt_step_moved: "receipt_step g (close_if_moved now g)"
  by (simp add: close_if_moved_def receipt_step_close split: option.splits)

lemma receipt_step_loop: "receipt_step g (snd (select_loop env i ms g))"
  by (rule receipt_step_same) (simp_all add: select_loop_frame)

lemma receipt_step_selected: "receipt_step g (snd (Selected env g))"
proof -
  let ?g = "snd (sticky env (g\<lparr>sg_evaluated := True\<rparr>))"
  have "receipt_step g (g\<lparr>sg_evaluated := True\<rparr>)" by (rule receipt_step_same) simp_all
  then have "receipt_step g ?g" by (rule receipt_step_trans) (rule receipt_step_out [OF sticky_same])
  from receipt_step_trans [OF this receipt_step_moved]
    receipt_step_trans [OF receipt_step_trans [OF this receipt_step_loop] receipt_step_moved]
  show ?thesis by (simp add: Selected_eq Let_def)
qed

lemma receipt_step_dns: "receipt_step g (DNSFailed env m g)"
proof -
  define g1 where "g1 = (case sg_readiness g of
      None \<Rightarrow> g
    | Some p \<Rightarrow> if rp_member (sg_probe g p) = Some m then closeReadinessLocked (ge_close env) g else g)"
  have "receipt_step g g1" by (auto simp: g1_def receipt_step_close split: option.splits)
  moreover have "receipt_step g1 (DNSFailed env m g)"
    unfolding DNSFailed_def g1_def [symmetric] Let_def case_prod_beta
    by (rule receipt_step_same) (auto simp: set_out_def)
  ultimately show ?thesis by (rule receipt_step_trans)
qed

lemma receipt_step_unbind: "receipt_step g (unbindProbeWindow i now g)"
proof (cases "find (\<lambda>w. wd_id w = i) (sg_probeWindows g)")
  case (Some w)
  define g1 where "g1 = (case sg_readiness g of
      None \<Rightarrow> g
    | Some p \<Rightarrow> if rp_member (sg_probe g p) = Some (wd_member w) then closeReadinessLocked now g else g)"
  have "receipt_step g g1" by (auto simp: g1_def receipt_step_close split: option.splits)
  moreover have "receipt_step g1 (unbindProbeWindow i now g)"
    by (rule receipt_step_same) (simp_all add: unbindProbeWindow_def Some g1_def Let_def)
  ultimately show ?thesis by (rule receipt_step_trans)
qed (simp add: unbindProbeWindow_def)

lemma receipt_step_read: "receipt_step g (snd (ReadServiceLeaseSelection env g))"
proof -
  define g1 where "g1 = (case sg_readiness g of
      None \<Rightarrow> g
    | Some p \<Rightarrow> if rp_member (sg_probe g p) = None then g
        else (case readinessCurrentLocked env (ge_check env) p g of
          (valid, g') \<Rightarrow> if valid then g' else closeReadinessLocked (ge_close env) (retainResolverDeadlineLocked env p g')))"
  have "receipt_step g g1"
    using receipt_step_trans [OF receipt_step_trans [OF receipt_step_out [OF current_same] receipt_step_retain] receipt_step_close]
    by (auto simp: g1_def case_prod_beta receipt_step_out split: option.splits)
  moreover have "receipt_step g1 (snd (ReadServiceLeaseSelection env g))"
    unfolding ReadServiceLeaseSelection_def Let_def g1_def [symmetric]
    by (auto simp: receipt_step_out case_prod_beta split: option.splits)
  ultimately show ?thesis by (rule receipt_step_trans)
qed

lemma receipt_step_lookup: "receipt_step g (beginResolverLookup env p g)" "receipt_step g (finishResolverLookup env p g)"
proof -
  have "receipt_step g' (set_probe p ((sg_probe g' p)\<lparr>rp_lookupStarted := x\<rparr>) g')" for g' x
    by (rule receipt_step_probe) (simp add: receipt_ok_def)
  from receipt_step_trans [OF receipt_step_out [OF current_same] this] this receipt_step_out [OF current_same]
  show "receipt_step g (beginResolverLookup env p g)" "receipt_step g (finishResolverLookup env p g)"
    by (auto simp: beginResolverLookup_def finishResolverLookup_def case_prod_beta split: bool.splits)
qed

lemma sg_step_receipt: "sg_step g g' \<Longrightarrow> receipt_step g g'"
proof (erule sg_stepE)
  fix p m leaseID transport manager assume "g' = bindReadiness p m leaseID transport manager g"
  then show ?thesis
    by (auto simp: bindReadiness_def receipt_ok_def intro: receipt_step_probe)
next
  fix uni m domain now assume "g' = ObserveScopedRuleBypass uni m domain now g"
  then show ?thesis by (auto simp: ObserveScopedRuleBypass_def receipt_step_close split: option.splits)
next
  fix m dns transport assume "g' = snd (BindProbeWindow m dns transport g)"
  then show ?thesis by (intro receipt_step_same) (simp_all add: BindProbeWindow_def)
qed (simp_all add: receipt_step_begin receipt_step_lookup receipt_step_observe receipt_step_finish receipt_step_unbind
    receipt_step_selected receipt_step_dns receipt_step_read receipt_step_out)

section \<open>Contracts over histories\<close>

lemma check_members_sound:
  assumes "check_members out domains seen ms"
  shows "\<exists>rs. ms = map Some rs \<and> distinct rs \<and> set rs \<inter> set seen = {}
    \<and> (\<forall>r \<in> set rs. length (so_domains (out r)) = card (set domains) \<and> set (so_domains (out r)) \<subseteq> set domains)"
  using assms
proof (induction out domains seen ms rule: check_members.induct)
  case (2 out domains seen m ms)
  then obtain r where r: "m = Some r" "r \<notin> set seen" "length (so_domains (out r)) = length (remdups domains)"
    "set (so_domains (out r)) \<subseteq> set domains" "check_members out domains (r # seen) ms"
    by (auto simp: list_all_iff split: option.splits if_splits)
  with 2 obtain rs where "ms = map Some rs" "distinct rs" "set rs \<inter> set (r # seen) = {}"
    "\<forall>r \<in> set rs. length (so_domains (out r)) = card (set domains) \<and> set (so_domains (out r)) \<subseteq> set domains"
    by (auto simp: list_all_iff)
  with r show ?case by (intro exI [of _ "r # rs"]) (auto simp: length_remdups_card_conv)
qed simp

lemma sg_init_members:
  assumes "sg_init out anchor serviceID members g"
  shows "members = map Some (sg_members g)" "distinct (sg_members g)" "sg_members g \<noteq> []" "length (sg_members g) \<le> 16"
    "hd (sg_members g) = anchor" "receipt_inv g" "sg_dnsFailed g = {}"
    "\<forall>m \<in> set (sg_members g). length (so_domains (out m)) = card (set (so_domains (out anchor)))
       \<and> set (so_domains (out m)) \<subseteq> set (so_domains (out anchor))"
proof -
  have c: "check_members out (so_domains (out anchor)) [] members" and g: "sg_members g = map the members"
    "members \<noteq> []" "length members \<le> 16" "hd members = Some anchor" "receipt_inv g" "sg_dnsFailed g = {}"
    using assms by (auto simp: sg_init_def ServiceLeaseGroup_def receipt_inv_def split: if_splits)
  obtain rs where rs: "members = map Some rs" "distinct rs" "\<forall>r \<in> set rs. length (so_domains (out r)) = card (set (so_domains (out anchor)))
       \<and> set (so_domains (out r)) \<subseteq> set (so_domains (out anchor))"
    using check_members_sound [OF c] by auto
  have "sg_members g = rs" using g(1) rs(1) by (simp add: comp_def)
  with rs g(2-) show "members = map Some (sg_members g)" "distinct (sg_members g)" "sg_members g \<noteq> []"
    "length (sg_members g) \<le> 16" "hd (sg_members g) = anchor" "receipt_inv g" "sg_dnsFailed g = {}"
    "\<forall>m \<in> set (sg_members g). length (so_domains (out m)) = card (set (so_domains (out anchor)))
       \<and> set (so_domains (out m)) \<subseteq> set (so_domains (out anchor))"
    by (auto simp: hd_map)
qed

interpretation group_receipts: invariant_system "sg_init out anchor serviceID members" sg_step
  "\<lambda>g. receipt_inv g \<and> distinct (sg_members g)" for out anchor serviceID members
proof
  fix g assume "sg_init out anchor serviceID members g"
  then show "receipt_inv g \<and> distinct (sg_members g)" by (simp add: sg_init_members)
next
  fix g g' assume "receipt_inv g \<and> distinct (sg_members g)" and "sg_step g g'"
  then show "receipt_inv g' \<and> distinct (sg_members g')"
    using sg_step_receipt [of g g'] by (simp add: receipt_step_def sg_grows_def)
qed

interpretation group_guard: terminal_gate sg_step "\<lambda>g. receipt_inv g \<and> sg_fallbackGuardClosed g"
  "\<lambda>g p. sg_readiness g = Some p \<and> rp_Status (sg_probe g p) = ''pass''"
proof
  fix g g' assume "receipt_inv g \<and> sg_fallbackGuardClosed g" and "sg_step g g'"
  then show "receipt_inv g' \<and> sg_fallbackGuardClosed g'"
    using sg_step_receipt [of g g'] by (simp add: receipt_step_def sg_grows_def)
qed (auto simp: receipt_inv_def receipt_ok_def)

text \<open>
  C17. A readiness receipt means what it says, in every history of probes, selections, window changes
  and resolver failures: a receipt that passed has the three stages resolver, dns and tls, in this
  order and all passed, and the fallback guard was never closed; and once the guard has closed, it
  stays closed and no later receipt of this group passes.
\<close>

theorem receipt_sound:
  assumes "reachable (sg_init out anchor serviceID members) sg_step g"
  shows "(sg_readiness g = Some p \<and> rp_Status (sg_probe g p) = ''pass'' \<longrightarrow>
        three_passes (take 3 (rp_Stages (sg_probe g p))) \<and> \<not> sg_fallbackGuardClosed g
        \<and> \<not> rp_FallbackGuardClosed (sg_probe g p))
    \<and> (sg_fallbackGuardClosed g \<and> sg_step\<^sup>*\<^sup>* g g' \<longrightarrow>
        sg_fallbackGuardClosed g' \<and> \<not> (sg_readiness g' = Some q \<and> rp_Status (sg_probe g' q) = ''pass''))"
proof -
  have inv: "receipt_inv g" using group_receipts.inv_reachable [OF assms] by blast
  have "three_passes (take 3 (rp_Stages (sg_probe g p))) \<and> \<not> sg_fallbackGuardClosed g \<and> \<not> rp_FallbackGuardClosed (sg_probe g p)"
    if "sg_readiness g = Some p" "rp_Status (sg_probe g p) = ''pass''"
    using inv that by (auto simp: receipt_inv_def receipt_ok_def)
  moreover have "sg_fallbackGuardClosed g' \<and> \<not> (sg_readiness g' = Some q \<and> rp_Status (sg_probe g' q) = ''pass'')"
    if "sg_fallbackGuardClosed g" "sg_step\<^sup>*\<^sup>* g g'"
    using group_guard.shut_steps [OF that(2)] group_guard.never_admits_again [OF that(2)] inv that(1) by blast
  ultimately show ?thesis by blast
qed

definition demo_group :: service_group where
  "demo_group = projr (ServiceLeaseGroup (\<lambda>_. demo_smart) None 0 ''video'' [Some 0, Some 1])"

lemma demo_group_ok: "sg_init (\<lambda>_. demo_smart) 0 ''video'' [Some 0, Some 1] demo_group"
  by (simp add: sg_init_def demo_group_def ServiceLeaseGroup_def demo_smart_leases)

lemma demo_group_reachable: "reachable (sg_init (\<lambda>_. demo_smart) 0 ''video'' [Some 0, Some 1]) sg_step demo_group"
  by (rule reachable.start) (rule demo_group_ok)

text \<open>The guard closed after a probe was begun and its first observation failed.\<close>

definition demo_env :: sg_env where
  "demo_env = \<lparr>ge_ctx = (\<lambda>_. None), ge_bound = (\<lambda>_ _. None), ge_tag = (\<lambda>_. ''dns''), ge_active = (\<lambda>_. True),
     ge_current = (\<lambda>_ _. True), ge_check = demo_load, ge_recheck = demo_load, ge_now = demo_load, ge_close = demo_load,
     ge_sticky = demo_load, ge_select = (\<lambda>_. demo_load)\<rparr>"

definition demo_probed :: service_group where
  "demo_probed = observeReadiness demo_env 0 ''resolver'' demo_load 5 None (snd (beginReadiness demo_env 7 8 demo_group))"

lemma begin_probe_ref: "sg_readiness (snd (beginReadiness env ctx owner g)) = Some (sg_next_probe g)"
  by (simp add: beginReadiness_def Let_def case_prod_beta current_sel split: option.splits)

theorem receipt_sound_witness:
  "sg_fallbackGuardClosed demo_probed
   \<and> sg_fallbackGuardClosed (snd (beginReadiness demo_env 7 8 demo_probed))
   \<and> rp_Status (sg_probe (snd (beginReadiness demo_env 7 8 demo_probed)) 1) \<noteq> ''pass''"
proof -
  have r: "reachable (sg_init (\<lambda>_. demo_smart) 0 ''video'' [Some 0, Some 1]) sg_step demo_probed"
    unfolding demo_probed_def
    by (rule reachable.next_step [OF reachable.next_step [OF demo_group_reachable sg_step.begin_probe] sg_step.observe])
  have "sg_fallbackGuardClosed demo_probed \<and> sg_next_probe demo_probed = 1"
    by (simp add: demo_probed_def observeReadiness_def beginReadiness_def demo_group_def ServiceLeaseGroup_def
        demo_smart_leases readinessCurrentLocked_def readinessBindingCurrentLocked_def demo_env_def set_probe_def
        closeReadinessLocked_def retainResolverDeadlineLocked_def Let_def)
  moreover from this have "sg_readiness (snd (beginReadiness demo_env 7 8 demo_probed)) = Some 1"
    by (simp add: begin_probe_ref)
  ultimately show ?thesis
    using receipt_sound [OF r, of 0 "snd (beginReadiness demo_env 7 8 demo_probed)" 1] sg_step.begin_probe by blast
qed

lemma select_loop_not_failed: "fst (select_loop env i ms g) = Some m \<Longrightarrow> m \<notin> sg_dnsFailed g"
proof (induction ms arbitrary: i g)
  case (Cons k ms)
  then show ?case
    using Cons.IH [of "Suc i" "snd (member_available k (ge_select env k) g)"] Cons.IH [of "Suc i" g]
    by (auto simp: select_loop_Cons available_sel simp del: select_loop.simps(2) split: if_splits)
qed simp

lemma Selected_not_failed: "fst (Selected env g) = Some m \<Longrightarrow> m \<notin> sg_dnsFailed g"
proof -
  assume s: "fst (Selected env g) = Some m"
  let ?g = "g\<lparr>sg_evaluated := True\<rparr>"
  have "m \<notin> sg_dnsFailed g" if "fst (sticky env ?g)" "member_at (snd (sticky env ?g)) = Some m"
    using that unfolding sticky_sel by (simp add: sticky_def split: option.splits if_splits)
  then show ?thesis using s select_loop_not_failed [of env 0 "sg_members (snd (sticky env ?g))" "snd (sticky env ?g)" m]
    by (auto simp: Selected_eq Let_def sticky_sel split: if_splits)
qed

interpretation retired_members: terminal_gate sg_step "\<lambda>g. m \<in> sg_dnsFailed g" "\<lambda>g env. fst (Selected env g) = Some m"
  for m
proof
  fix g g' assume "m \<in> sg_dnsFailed g" and "sg_step g g'"
  then show "m \<in> sg_dnsFailed g'" using sg_step_receipt [of g g'] by (auto simp: receipt_step_def sg_grows_def)
qed (auto dest: Selected_not_failed)

text \<open>
  C19. A member whose resolver failed is retired for the lifetime of the group: after its failure was
  reported, no history, not even a renewal of its grant, makes the group select it again.
\<close>

theorem failed_member_retired:
  assumes "sg_step\<^sup>*\<^sup>* (DNSFailed env m g) g'"
  shows "fst (Selected env' g') \<noteq> Some m"
proof -
  have "m \<in> sg_dnsFailed (DNSFailed env m g)" by (simp add: DNSFailed_def Let_def set_out_def)
  then show ?thesis by (rule retired_members.never_admits_again [OF assms])
qed

theorem failed_member_retired_witness: "fst (Selected demo_env (DNSFailed demo_env 0 demo_group)) \<noteq> Some 0"
  by (rule failed_member_retired [OF rtranclp.rtrancl_refl])

text \<open>
  C20. All members of a group serve the same scope: a group is formed only of one to sixteen different
  outbounds, the anchor first, whose grants (each without repeated domains, as an outbound requires)
  name exactly the same set of domains.
\<close>

theorem group_one_scope:
  assumes "ServiceLeaseGroup out None anchor serviceID members = Inr g" and "m \<in> set (sg_members g)"
    and "distinct (so_domains (out m))"
  shows "distinct (sg_members g) \<and> length (sg_members g) \<le> 16 \<and> hd (sg_members g) = anchor
    \<and> set (so_domains (out m)) = set (so_domains (out anchor))"
proof -
  have i: "sg_init out anchor serviceID members g" using assms(1) by (simp add: sg_init_def)
  have "set (so_domains (out m)) \<subseteq> set (so_domains (out anchor))"
    "card (set (so_domains (out m))) = card (set (so_domains (out anchor)))"
    using sg_init_members(8) [OF i] assms(2,3) by (auto simp: distinct_card)
  then have "set (so_domains (out m)) = set (so_domains (out anchor))" by (simp add: card_subset_eq)
  then show ?thesis using sg_init_members [OF i] by blast
qed

theorem group_one_scope_witness: "length (sg_members demo_group) \<le> 16 \<and> hd (sg_members demo_group) = 0"
proof -
  have g: "ServiceLeaseGroup (\<lambda>_. demo_smart) None 0 ''video'' [Some 0, Some 1] = Inr demo_group"
    using demo_group_ok by (simp add: sg_init_def)
  have "1 \<in> set (sg_members demo_group)" using sg_init_members(1) [OF demo_group_ok] by (auto simp: map_eq_Cons_conv)
  with group_one_scope [OF g] show ?thesis by (auto simp: demo_smart_leases)
qed

theorem selection_order_witness:
  "fst (Selected demo_env demo_group) = Some 0 \<and> member_at (snd (Selected demo_env demo_group)) = Some 0"
proof -
  have d: "distinct (sg_members demo_group)" by (rule sg_init_members(2) [OF demo_group_ok])
  have "member_at demo_group = Some 0" "sg_dnsFailed demo_group = {}" "sg_out demo_group 0 = demo_smart"
    by (simp_all add: demo_group_def ServiceLeaseGroup_def demo_smart_leases member_at_def)
  moreover have "fst (availableForNewFlows demo_load demo_smart)"
    using demo_admits admit_result(5) [OF demo_admits]
    by (simp add: availableForNewFlows_def admitsLocked_def case_prod_beta Let_def demo_smart_leases prune_attempts_def
        admitsLeaseLocked_frame NewOutbound_start [OF demo_smart_ok] new_relay_state_def list_ex_iff)
  ultimately show ?thesis
    using selection_order [OF d prod.collapse [symmetric] prod.collapse [symmetric], of demo_env]
    by (auto simp: demo_env_def)
qed

end
