(* ===== verification/Catalog_Window.thy ===== *)
theory Catalog_Window
  imports Service_Group DNS_Rules
begin

text \<open>
  Rules that come from a signed routing catalog (\<open>pokrov_catalog_window.go\<close> and the parts of
  \<open>rule_abstract.go\<close> that use it): such a rule matches only while its catalog is current, its Smart
  Access lease admits new flows and its lease is the one its service group selects.
\<close>

section \<open>Windows\<close>

record catalog_options =
  co_IssuedAt :: string
  co_ExpiresAt :: string
  co_ServiceID :: string
  co_LeaseID :: string
  co_LeaseGroup :: "string list"

datatype catalog_error =
    catalog_window_requires_noninverted_domain_rule | catalog_window_time_invalid | catalog_window_not_current
  | catalog_window_lease_invalid | catalog_window_lease_unavailable | catalog_window_service_invalid
  | catalog_window_group_invalid | catalog_window_group_unavailable | GroupError sa_error

text \<open>
  \<open>cw_leaseGroup\<close> names the group by its anchor, its first member. The rule's own \<open>Match\<close>, which the
  window hands to the group as \<open>probeCurrent\<close>, is kept as whether it is there.
\<close>

record catalog_window =
  cw_issuedAt :: gotime
  cw_expiresAt :: gotime
  cw_deadline :: gotime
  cw_expired :: bool
  cw_leaseID :: string
  cw_serviceID :: string
  cw_lease :: "ref option"
  cw_leaseGroupIDs :: "string list"
  cw_leaseGroup :: "ref option"
  cw_domainMatch :: "string \<Rightarrow> bool"
  cw_probeCurrent :: bool
  cw_probeDNS :: bool
  cw_probeServer :: string
  cw_probeUnbind :: "ref option"

definition catalogLeaseIDPattern :: "string \<Rightarrow> bool" where
  "catalogLeaseIDPattern s = (length s = 32 \<and> list_all is_lower_hex s)"

definition catalogServiceIDPattern :: "string \<Rightarrow> bool" where
  "catalogServiceIDPattern s =
     (case s of
        [] \<Rightarrow> False
      | c # cs \<Rightarrow> (is_lower_letter c \<or> is_digit c) \<and> length cs \<le> 63 \<and>
          list_all (\<lambda>x. is_lower_letter x \<or> is_digit x \<or> x \<in> {CHR ''.'', CHR ''_'', CHR ''-''}) cs)"

text \<open>\<open>manager\<close> says whether the context holds an outbound manager; \<open>domainMatch\<close> is the matcher of the rule's names.\<close>

definition newCatalogRuleWindow ::
  "bool \<Rightarrow> catalog_options option \<Rightarrow> bool \<Rightarrow> nat \<Rightarrow> (string \<Rightarrow> bool) \<Rightarrow> gotime \<Rightarrow> catalog_error + catalog_window option" where
  "newCatalogRuleWindow manager opts invert domains domainMatch now =
     (case opts of
        None \<Rightarrow> Inr None
      | Some x \<Rightarrow>
          if invert \<or> domains = 0 then Inl catalog_window_requires_noninverted_domain_rule
          else case canonical_time (co_IssuedAt x) of
            None \<Rightarrow> Inl catalog_window_time_invalid
          | Some issued \<Rightarrow>
              (case canonical_time (co_ExpiresAt x) of
                 None \<Rightarrow> Inl catalog_window_time_invalid
               | Some expires \<Rightarrow>
                   if \<not> time_after expires issued then Inl catalog_window_time_invalid
                   else if time_before now issued then Inl catalog_window_not_current
                   else if co_LeaseID x \<noteq> [] \<and> \<not> catalogLeaseIDPattern (co_LeaseID x) then Inl catalog_window_lease_invalid
                   else if co_LeaseID x \<noteq> [] \<and> \<not> manager then Inl catalog_window_lease_unavailable
                   else if co_ServiceID x \<noteq> [] \<and> \<not> catalogServiceIDPattern (co_ServiceID x)
                   then Inl catalog_window_service_invalid
                   else if co_LeaseGroup x \<noteq> [] \<and>
                     (co_LeaseID x = [] \<or> co_ServiceID x = [] \<or> length (co_LeaseGroup x) > 16 \<or>
                      \<not> list_all catalogLeaseIDPattern (co_LeaseGroup x) \<or> \<not> distinct (co_LeaseGroup x) \<or>
                      co_LeaseID x \<notin> set (co_LeaseGroup x))
                   then Inl catalog_window_group_invalid
                   else Inr (Some \<lparr>cw_issuedAt = issued, cw_expiresAt = expires,
                     cw_deadline = time_add now (time_sub expires now), cw_expired = \<not> time_before now expires,
                     cw_leaseID = co_LeaseID x, cw_serviceID = co_ServiceID x, cw_lease = None,
                     cw_leaseGroupIDs = co_LeaseGroup x, cw_leaseGroup = None, cw_domainMatch = domainMatch,
                     cw_probeCurrent = False, cw_probeDNS = False, cw_probeServer = [], cw_probeUnbind = None\<rparr>)))"

section \<open>Surroundings\<close>

text \<open>
  The outbounds of the process and the service groups, by anchor. A group works on the outbounds of
  the process: they are handed to its operations and taken back.
\<close>

record catalog_world =
  wo_out :: "ref \<Rightarrow> smart"
  wo_groups :: "ref \<Rightarrow> service_group option"

definition on_group :: "ref \<Rightarrow> (service_group \<Rightarrow> 'a \<times> service_group) \<Rightarrow> 'a \<Rightarrow> catalog_world \<Rightarrow> 'a \<times> catalog_world" where
  "on_group a f absent W =
     (case wo_groups W a of
        None \<Rightarrow> (absent, W)
      | Some g \<Rightarrow> (case f (g\<lparr>sg_out := wo_out W\<rparr>) of
          (r, g') \<Rightarrow> (r, W\<lparr>wo_out := sg_out g', wo_groups := (wo_groups W)(a := Some g')\<rparr>)))"

text \<open>\<open>lookup\<close>: the Smart Access outbound under a tag; \<open>transports\<close>: a DNS transport under a tag and whether it is DNS over HTTPS.\<close>

fun find_members :: "(string \<Rightarrow> ref option) \<Rightarrow> (ref \<Rightarrow> smart) \<Rightarrow> string list \<Rightarrow> ref list option" where
  "find_members lookup out [] = Some []"
| "find_members lookup out (i # ids) =
     (case lookup (''pokrov-smart-access-'' @ i) of
        None \<Rightarrow> None
      | Some m \<Rightarrow> if LeaseID (out m) \<noteq> i then None else map_option ((#) m) (find_members lookup out ids))"

definition probe_transport :: "(string \<Rightarrow> (ref \<times> bool) option) option \<Rightarrow> catalog_window \<Rightarrow> ref option" where
  "probe_transport transports w =
     (if \<not> cw_probeDNS w then None
      else case transports of
        None \<Rightarrow> None
      | Some bound \<Rightarrow>
          if cw_probeServer w \<noteq> ''pokrov-smart-access-dns-'' @ cw_leaseID w then None
          else (case bound (cw_probeServer w) of Some (t, https) \<Rightarrow> if https then Some t else None | None \<Rightarrow> None))"

definition window_start ::
  "(string \<Rightarrow> ref option) \<Rightarrow> (string \<Rightarrow> (ref \<times> bool) option) option \<Rightarrow> catalog_window \<Rightarrow> catalog_world
     \<Rightarrow> catalog_error option \<times> catalog_window \<times> catalog_world" where
  "window_start lookup transports w W =
     (if cw_leaseID w = [] then (None, w, W)
      else case lookup (''pokrov-smart-access-'' @ cw_leaseID w) of
        None \<Rightarrow> (Some catalog_window_lease_unavailable, w, W)
      | Some l \<Rightarrow>
          if LeaseID (wo_out W l) \<noteq> cw_leaseID w then (Some catalog_window_lease_unavailable, w, W)
          else let w1 = w\<lparr>cw_lease := Some l\<rparr> in
            if cw_leaseGroupIDs w = [] then (None, w1, W)
            else case find_members lookup (wo_out W) (cw_leaseGroupIDs w) of
              None \<Rightarrow> (Some catalog_window_group_unavailable, w1, W)
            | Some ms \<Rightarrow>
                (case ServiceLeaseGroup (wo_out W) (wo_groups W (hd ms)) (hd ms) (cw_serviceID w) (map Some ms) of
                   Inl err \<Rightarrow> (Some (GroupError err), w1, W)
                 | Inr g \<Rightarrow>
                     let w2 = w1\<lparr>cw_leaseGroup := Some (hd ms)\<rparr>;
                         W2 = W\<lparr>wo_groups := (wo_groups W)(hd ms := Some g)\<rparr>
                     in if \<not> cw_probeCurrent w then (None, w2, W2)
                        else (case on_group (hd ms) (BindProbeWindow l (cw_probeDNS w) (probe_transport transports w)) 0 W2 of
                          (i, W3) \<Rightarrow> (None, w2\<lparr>cw_probeUnbind := Some i\<rparr>, W3))))"

definition closeProbe :: "gotime \<Rightarrow> catalog_window \<Rightarrow> catalog_world \<Rightarrow> catalog_window \<times> catalog_world" where
  "closeProbe now w W =
     (let w1 = w\<lparr>cw_expired := True\<rparr> in
      case (cw_probeUnbind w, cw_leaseGroup w) of
        (Some i, Some a) \<Rightarrow> (w1\<lparr>cw_probeUnbind := None\<rparr>, snd (on_group a (\<lambda>g. ((), unbindProbeWindow i now g)) () W))
      | _ \<Rightarrow> (w1, W))"

text \<open>The check also latches the end of the window.\<close>

definition catalogCurrent :: "gotime \<Rightarrow> catalog_window \<Rightarrow> bool \<times> catalog_window" where
  "catalogCurrent now w =
     (if cw_expired w then (False, w)
      else if time_before now (cw_issuedAt w) \<or> \<not> time_before now (cw_expiresAt w) \<or> \<not> time_before now (cw_deadline w)
      then (False, w\<lparr>cw_expired := True\<rparr>)
      else (True, w))"

text \<open>The two readings of the clock are those of \<open>catalogCurrent\<close> and of \<open>AdmitsNewFlows\<close>.\<close>

definition window_active :: "gotime \<Rightarrow> gotime \<Rightarrow> catalog_window \<Rightarrow> catalog_world \<Rightarrow> bool \<times> catalog_window \<times> catalog_world" where
  "window_active now now2 w W =
     (case catalogCurrent now w of
        (False, w1) \<Rightarrow> (False, w1, W)
      | (True, w1) \<Rightarrow>
          if cw_leaseID w = [] then (True, w1, W)
          else (case cw_lease w of
            None \<Rightarrow> (False, w1, W)
          | Some l \<Rightarrow> (case AdmitsNewFlows now2 (wo_out W l) of
              (ok, h) \<Rightarrow> (ok, w1, W\<lparr>wo_out := (wo_out W)(l := h)\<rparr>))))"

definition window_selected :: "sg_env \<Rightarrow> catalog_window \<Rightarrow> catalog_world \<Rightarrow> bool \<times> catalog_world" where
  "window_selected env w W =
     (case cw_leaseGroup w of
        None \<Rightarrow> (True, W)
      | Some a \<Rightarrow> (case on_group a (Selected env) None W of (r, W1) \<Rightarrow> (r = cw_lease w, W1)))"

definition observeScopedBypass :: "rule_env \<Rightarrow> inbound_context \<Rightarrow> gotime \<Rightarrow> catalog_window \<Rightarrow> catalog_world \<Rightarrow> catalog_world" where
  "observeScopedBypass e m now w W =
     (case (cw_leaseGroup w, cw_lease w) of
        (Some a, Some l) \<Rightarrow>
          if \<not> DomainItem_Match e (cw_domainMatch w) m then W
          else let domain = (if ic_Domain m = [] then sx_Fqdn (ic_Destination m) else ic_Domain m)
            in snd (on_group a (\<lambda>g. ((), ObserveScopedRuleBypass (re_uni e) l domain now g)) () W)
      | _ \<Rightarrow> W)"

definition smartAccessDNSFailed :: "sg_env \<Rightarrow> catalog_window option \<Rightarrow> catalog_world \<Rightarrow> bool \<times> catalog_world" where
  "smartAccessDNSFailed env window W =
     (case window of
        None \<Rightarrow> (False, W)
      | Some w \<Rightarrow>
          (case (cw_leaseGroup w, cw_lease w) of
             (Some a, Some l) \<Rightarrow> (True, snd (on_group a (\<lambda>g. ((), DNSFailed env l g)) () W))
           | _ \<Rightarrow> (False, W)))"

section \<open>Rules with a window\<close>

record windowed_rule =
  wr_rule :: default_rule
  wr_sets :: "rule_set_item option"
  wr_invert :: bool
  wr_window :: "catalog_window option"

text \<open>The answers one match gets: the readings of the clock where it reads it, and those of the group.\<close>

record match_times =
  mt_current :: gotime
  mt_admits :: gotime
  mt_bypass :: gotime
  mt_group :: sg_env

definition rule_match_inner :: "rule_env \<Rightarrow> windowed_rule \<Rightarrow> inbound_context \<Rightarrow> bool \<times> inbound_context" where
  "rule_match_inner e r m = matchInner e (wr_rule r) (map_option (\<lambda>s g k. matchWithOuterGroups e s g k) (wr_sets r)) m"

definition windowed_match ::
  "rule_env \<Rightarrow> match_times \<Rightarrow> windowed_rule \<Rightarrow> inbound_context \<Rightarrow> catalog_world
     \<Rightarrow> bool \<times> inbound_context \<times> windowed_rule \<times> catalog_world" where
  "windowed_match e t r m W =
     (case wr_window r of
        None \<Rightarrow>
          (case default_match e (wr_rule r) (map_option (\<lambda>s g k. matchWithOuterGroups e s g k) (wr_sets r)) (wr_invert r) m of
             (b, m1) \<Rightarrow> (b, m1, r, W))
      | Some w \<Rightarrow>
          (case window_active (mt_current t) (mt_admits t) w W of
             (False, w1, W1) \<Rightarrow> (False, m, r\<lparr>wr_window := Some w1\<rparr>, observeScopedBypass e m (mt_bypass t) w1 W1)
           | (True, w1, W1) \<Rightarrow>
               let r1 = r\<lparr>wr_window := Some w1\<rparr> in
               if dr_allItems (wr_rule r) = [] \<and> Option.is_none (wr_sets r) then (True, m, r1, W1)
               else case rule_match_inner e r m of
                 (matched, m1) \<Rightarrow>
                   let W2 = (if \<not> matched then observeScopedBypass e m1 (mt_bypass t) w1 W1 else W1);
                       (sel, W3) = (if matched then window_selected (mt_group t) w1 W2 else (True, W2))
                   in if matched \<and> \<not> sel then (False, m1, r1, observeScopedBypass e m1 (mt_bypass t) w1 W3)
                      else if wr_invert r then
                        if \<not> matched then (True, m1\<lparr>ic_Deferred := 0\<rparr>, r1, W3) else (ic_Deferred m1 \<noteq> 0, m1, r1, W3)
                      else (matched, m1, r1, W3)))"

definition RevokeRoutingCatalog :: "gotime \<Rightarrow> windowed_rule \<Rightarrow> catalog_world \<Rightarrow> bool \<times> windowed_rule \<times> catalog_world" where
  "RevokeRoutingCatalog now r W =
     (case wr_window r of
        None \<Rightarrow> (False, r, W)
      | Some w \<Rightarrow> (case closeProbe now w W of (w1, W1) \<Rightarrow> (True, r\<lparr>wr_window := Some w1\<rparr>, W1)))"

text \<open>\<open>Revoke(true)\<close> of an outbound: the critical section, then the flows it found are closed.\<close>

definition revoke_lease :: "ref \<Rightarrow> catalog_world \<Rightarrow> catalog_world" where
  "revoke_lease l W =
     (case revoke_locked True (wo_out W l) of
        (flows, h) \<Rightarrow> W\<lparr>wo_out := (wo_out W)(l := fold close_flow flows h)\<rparr>)"

definition RevokeRoutingCatalogService ::
  "string \<Rightarrow> gotime \<Rightarrow> windowed_rule \<Rightarrow> catalog_world \<Rightarrow> bool \<times> windowed_rule \<times> catalog_world" where
  "RevokeRoutingCatalogService serviceID now r W =
     (case wr_window r of
        None \<Rightarrow> (False, r, W)
      | Some w \<Rightarrow>
          if cw_serviceID w = [] \<or> cw_serviceID w \<noteq> serviceID then (False, r, W)
          else (case closeProbe now w W of
            (w1, W1) \<Rightarrow>
              (True, r\<lparr>wr_window := Some w1\<rparr>, case cw_lease w of None \<Rightarrow> W1 | Some l \<Rightarrow> revoke_lease l W1)))"

text \<open>\<open>itemsErr\<close>: the first error of starting or closing the conditions.\<close>

definition rule_Start ::
  "(string \<Rightarrow> ref option) \<Rightarrow> (string \<Rightarrow> (ref \<times> bool) option) option \<Rightarrow> rule_error option \<Rightarrow> windowed_rule \<Rightarrow> catalog_world
     \<Rightarrow> (catalog_error + rule_error) option \<times> windowed_rule \<times> catalog_world" where
  "rule_Start lookup transports itemsErr r W =
     (case wr_window r of
        None \<Rightarrow> (map_option Inr itemsErr, r, W)
      | Some w \<Rightarrow>
          (case window_start lookup transports w W of
             (Some err, w1, W1) \<Rightarrow> (Some (Inl err), r\<lparr>wr_window := Some w1\<rparr>, W1)
           | (None, w1, W1) \<Rightarrow> (map_option Inr itemsErr, r\<lparr>wr_window := Some w1\<rparr>, W1)))"

definition rule_Close ::
  "rule_error option \<Rightarrow> gotime \<Rightarrow> windowed_rule \<Rightarrow> catalog_world \<Rightarrow> rule_error option \<times> windowed_rule \<times> catalog_world" where
  "rule_Close itemsErr now r W =
     (case wr_window r of
        None \<Rightarrow> (itemsErr, r, W)
      | Some w \<Rightarrow> (case closeProbe now w W of (w1, W1) \<Rightarrow> (itemsErr, r\<lparr>wr_window := Some w1\<rparr>, W1)))"

section \<open>Histories\<close>

text \<open>What happens to a rule with a window; outbounds, groups and other rules may change in any way in between.\<close>

inductive cat_step :: "windowed_rule \<times> catalog_world \<Rightarrow> windowed_rule \<times> catalog_world \<Rightarrow> bool" where
  match: "cat_step (r, W) (snd (snd (windowed_match e t r m W)))"
| check: "wr_window r = Some w \<Longrightarrow> cat_step (r, W) (r\<lparr>wr_window := Some (snd (catalogCurrent now w))\<rparr>, W)"
| start: "cat_step (r, W) (snd (rule_Start lookup transports itemsErr r W))"
| close: "cat_step (r, W) (snd (rule_Close itemsErr now r W))"
| revoke: "cat_step (r, W) (snd (RevokeRoutingCatalog now r W))"
| revoke_service: "cat_step (r, W) (snd (RevokeRoutingCatalogService i now r W))"
| other: "cat_step (r, W) (r, W')"

text \<open>The dates of a window never change, and once it has ended it stays so.\<close>

definition window_le :: "catalog_window \<Rightarrow> catalog_window \<Rightarrow> bool" where
  "window_le w w' = (cw_issuedAt w' = cw_issuedAt w \<and> cw_expiresAt w' = cw_expiresAt w \<and> cw_deadline w' = cw_deadline w \<and>
     cw_serviceID w' = cw_serviceID w \<and> (cw_expired w \<longrightarrow> cw_expired w'))"

definition rule_le :: "windowed_rule \<Rightarrow> windowed_rule \<Rightarrow> bool" where
  "rule_le r r' = (case (wr_window r, wr_window r') of
     (None, None) \<Rightarrow> True | (Some w, Some w') \<Rightarrow> window_le w w' | _ \<Rightarrow> False)"

lemma window_le_refl [simp]: "window_le w w"
  by (simp add: window_le_def)

lemma window_le_trans: "window_le a b \<Longrightarrow> window_le b c \<Longrightarrow> window_le a c"
  by (auto simp: window_le_def)

lemma rule_le_refl [simp]: "rule_le r r"
  by (auto simp: rule_le_def split: option.splits)

lemma rule_le_trans: "rule_le a b \<Longrightarrow> rule_le b c \<Longrightarrow> rule_le a c"
  by (auto simp: rule_le_def intro: window_le_trans split: option.splits)

lemma rule_le_update: "wr_window r = Some w \<Longrightarrow> window_le w w' \<Longrightarrow> rule_le r (r\<lparr>wr_window := Some w'\<rparr>)"
  by (simp add: rule_le_def)

lemma current_le: "window_le w (snd (catalogCurrent now w))"
  by (auto simp: catalogCurrent_def window_le_def)

lemma close_le: "window_le w (fst (closeProbe now w W))" "cw_expired (fst (closeProbe now w W))"
  by (auto simp: closeProbe_def window_le_def Let_def split: option.splits)

lemma start_le: "window_le w (fst (snd (window_start lookup transports w W)))"
  by (auto simp: window_start_def window_le_def Let_def case_prod_beta split: option.splits sum.splits)

lemma active_window: "fst (snd (window_active now adm w W)) = snd (catalogCurrent now w)"
  by (auto simp: window_active_def split: prod.splits bool.splits option.splits)

lemma active_current: "fst (window_active now adm w W) \<Longrightarrow> catalogCurrent now w = (True, w)"
  by (auto simp: window_active_def catalogCurrent_def split: prod.splits bool.splits option.splits if_splits)

lemma match_window:
  "wr_window r = Some w \<Longrightarrow>
   fst (snd (snd (windowed_match e t r m W))) = r\<lparr>wr_window := Some (snd (catalogCurrent (mt_current t) w))\<rparr>"
  unfolding active_window [where adm = "mt_admits t" and W = W, symmetric]
  by (cases "window_active (mt_current t) (mt_admits t) w W")
    (auto simp: windowed_match_def Let_def case_prod_beta split: bool.splits)

lemma match_active:
  "wr_window r = Some w \<Longrightarrow> fst (windowed_match e t r m W) \<Longrightarrow> fst (window_active (mt_current t) (mt_admits t) w W)"
  by (auto simp: windowed_match_def split: prod.splits bool.splits)

lemma step_le: "cat_step (r, W) (r', W') \<Longrightarrow> rule_le r r'"
proof (induction "(r, W)" "(r', W')" rule: cat_step.induct)
  case (match e t m)
  then have r': "r' = fst (snd (snd (windowed_match e t r m W)))" by (metis fst_conv)
  show ?case
  proof (cases "wr_window r")
    case None
    then show ?thesis by (simp add: r' windowed_match_def case_prod_beta)
  qed (simp add: r' match_window rule_le_def current_le)
next
  case (check w now)
  then show ?case using rule_le_update [OF _ current_le] by blast
next
  case (start lookup transports itemsErr)
  then have r': "r' = fst (snd (rule_Start lookup transports itemsErr r W))" by (metis fst_conv)
  then show ?case
    using start_le by (auto simp: rule_Start_def rule_le_def case_prod_beta split: option.splits)
next
  case (close itemsErr now)
  then have r': "r' = fst (snd (rule_Close itemsErr now r W))" by (metis fst_conv)
  then show ?case using close_le(1) by (auto simp: rule_Close_def rule_le_def case_prod_beta split: option.splits)
next
  case (revoke now)
  then have r': "r' = fst (snd (RevokeRoutingCatalog now r W))" by (metis fst_conv)
  then show ?case using close_le(1) by (auto simp: RevokeRoutingCatalog_def rule_le_def case_prod_beta split: option.splits)
next
  case (revoke_service i now)
  then have r': "r' = fst (snd (RevokeRoutingCatalogService i now r W))" by (metis fst_conv)
  then show ?case
    using close_le(1) by (auto simp: RevokeRoutingCatalogService_def rule_le_def case_prod_beta split: option.splits if_splits)
qed simp

lemma step_le_pair: "cat_step s s' \<Longrightarrow> rule_le (fst s) (fst s')"
  using step_le [of "fst s" "snd s" "fst s'" "snd s'"] by simp

lemma steps_le: "cat_step\<^sup>*\<^sup>* s s' \<Longrightarrow> rule_le (fst s) (fst s')"
  by (induction rule: rtranclp_induct) (rule rule_le_refl, erule rule_le_trans, erule step_le_pair)

definition catalog_ended :: "windowed_rule \<times> catalog_world \<Rightarrow> bool" where
  "catalog_ended s = (case wr_window (fst s) of None \<Rightarrow> False | Some w \<Rightarrow> cw_expired w)"

lemma ended_le: "catalog_ended s \<Longrightarrow> rule_le (fst s) (fst t) \<Longrightarrow> catalog_ended t"
  by (auto simp: catalog_ended_def rule_le_def window_le_def split: option.splits)

lemma ended_denies: "catalog_ended s \<Longrightarrow> \<not> fst (windowed_match e t (fst s) m (snd s))"
  by (auto simp: catalog_ended_def catalogCurrent_def dest!: match_active active_current split: option.splits)

interpretation catalog_gate:
  terminal_gate cat_step catalog_ended "\<lambda>s (e, t, m). fst (windowed_match e t (fst s) m (snd s))"
proof
  show "catalog_ended s \<Longrightarrow> cat_step s t \<Longrightarrow> catalog_ended t" for s t by (rule ended_le [OF _ step_le_pair])
  show "catalog_ended s \<Longrightarrow> \<not> (case i of (e, t, m) \<Rightarrow> fst (windowed_match e t (fst s) m (snd s)))" for s i
    using ended_denies by (cases i) simp
qed

section \<open>Properties\<close>

lemma match_ends:
  assumes "wr_window r = Some w" "\<not> fst (catalogCurrent (mt_current t) w)"
  shows "catalog_ended (snd (snd (windowed_match e t r m W)))"
  using assms by (auto simp: catalog_ended_def match_window catalogCurrent_def split: if_splits)

lemma close_ends:
  assumes "wr_window r = Some w"
  shows "catalog_ended (snd (RevokeRoutingCatalog now r W))" "catalog_ended (snd (rule_Close itemsErr now r W))"
    "cw_serviceID w = i \<Longrightarrow> i \<noteq> [] \<Longrightarrow> catalog_ended (snd (RevokeRoutingCatalogService i now r W))"
  using assms close_le(2) [of now w W]
  by (auto simp: catalog_ended_def RevokeRoutingCatalog_def rule_Close_def RevokeRoutingCatalogService_def case_prod_beta)

text \<open>
  C26. A catalog rule that has ended never matches again: after the catalog or its service is revoked,
  after the rule is closed, and after one match that found the catalog not yet issued or expired, no
  later match succeeds, in any history and whatever the clock is set to. Starting the rule again does
  not revive it.
\<close>

theorem catalog_terminal:
  assumes "wr_window r = Some w"
    and "s = snd (RevokeRoutingCatalog now r W) \<or> s = snd (rule_Close itemsErr now r W) \<or>
      (cw_serviceID w = i \<and> i \<noteq> [] \<and> s = snd (RevokeRoutingCatalogService i now r W)) \<or>
      (\<not> fst (catalogCurrent (mt_current t0) w) \<and> s = snd (snd (windowed_match e0 t0 r m0 W)))"
    and "cat_step\<^sup>*\<^sup>* s s'"
  shows "\<not> fst (windowed_match e t (fst s') m (snd s'))"
proof -
  have "catalog_ended s" using assms(2) close_ends [OF assms(1)] match_ends [OF assms(1)] by blast
  then show ?thesis using catalog_gate.never_admits_again [OF assms(3), of "(e, t, m)"] by simp
qed

lemma new_window:
  assumes "newCatalogRuleWindow manager (Some x) invert domains dm now = Inr (Some w)"
  shows "mono_ns (cw_issuedAt w) = None" "mono_ns (cw_expiresAt w) = None"
    "cw_deadline w = monotonic_deadline now (cw_expiresAt w)" "\<not> time_before now (cw_issuedAt w)"
    "canonical_time (co_IssuedAt x) = Some (cw_issuedAt w)" "canonical_time (co_ExpiresAt x) = Some (cw_expiresAt w)"
  using assms
  by (auto simp: newCatalogRuleWindow_def monotonic_deadline_def dest: canonical_time_wall split: option.splits if_splits)

text \<open>
  C25. A catalog rule matches only inside the dates its catalog is signed for, and only for as long,
  measured on the monotonic clock from loading, as the expiry was ahead then: setting the wall clock
  back cannot extend it, in any history. (The expiry is a date before the year 2157, up to which Go
  keeps the monotonic reading, and less than 146 years ahead, so that the deadline does not overflow.)
\<close>

theorem catalog_bound:
  assumes new: "newCatalogRuleWindow manager (Some x) invert domains dm now = Inr (Some w0)" "wr_window r0 = Some w0"
    and clock: "clock_ok now" "clock_ok (mt_current t)" "packed_wall (wall (cw_expiresAt w0))"
      "wall (cw_expiresAt w0) - wall now < 2 ^ 62"
    and "cat_step\<^sup>*\<^sup>* (r0, W0) (r, W)" and "fst (windowed_match e t r m W)"
  shows "wall (cw_issuedAt w0) \<le> wall (mt_current t) \<and> wall (mt_current t) < wall (cw_expiresAt w0) \<and>
    the (mono_ns (mt_current t)) - the (mono_ns now) < wall (cw_expiresAt w0) - wall now"
proof -
  obtain a b where mono: "mono_ns now = Some a" "0 \<le> a" "a \<le> 2 ^ 62" "mono_ns (mt_current t) = Some b"
    using clock(1,2) by (auto simp: clock_ok_def split: option.splits)
  have "packed_wall (wall now)" using clock(1) by (simp add: clock_ok_def)
  then have range: "\<bar>wall (cw_expiresAt w0) - wall now\<bar> \<le> 2 ^ 33 * second"
    using packed_wall_range [of "wall now"] packed_wall_range [OF clock(3)] by (auto simp: second_def abs_le_iff)
  have deadline: "cw_deadline w0 = \<lparr>wall = wall (cw_expiresAt w0), mono_ns = Some (a + (wall (cw_expiresAt w0) - wall now))\<rparr>"
    unfolding new_window(3) [OF new(1)]
    by (rule monotonic_deadline_mono [OF mono(1) new_window(2) [OF new(1)] _ _ clock(3)])
      (use range mono(2,3) clock(4) in \<open>simp_all add: min_duration_def max_duration_def second_def\<close>)
  from steps_le [OF assms(7)] new(2) obtain w where w: "wr_window r = Some w" "window_le w0 w"
    by (auto simp: rule_le_def split: option.splits)
  from active_current [OF match_active [OF w(1) assms(8)]] have "\<not> time_before (mt_current t) (cw_issuedAt w0)"
    "time_before (mt_current t) (cw_expiresAt w0)" "time_before (mt_current t) (cw_deadline w0)"
    using w(2) by (auto simp: catalogCurrent_def window_le_def split: if_splits)
  then show ?thesis using new_window(1,2) [OF new(1)] mono(1,4) by (simp add: clock_simps deadline)
qed

definition demo_catalog :: catalog_options where
  "demo_catalog = \<lparr>co_IssuedAt = ''2026-01-01T00:00:00Z'', co_ExpiresAt = ''2026-01-01T06:00:00Z'', co_ServiceID = ''video'',
     co_LeaseID = [], co_LeaseGroup = []\<rparr>"

definition catalog_now :: gotime where
  "catalog_now = \<lparr>wall = 1767226000 * second, mono_ns = Some second\<rparr>"

definition demo_window :: catalog_window where
  "demo_window = \<lparr>cw_issuedAt = wall_time (1767225600 * second), cw_expiresAt = wall_time (1767247200 * second),
     cw_deadline = \<lparr>wall = 1767247200 * second, mono_ns = Some (21201 * second)\<rparr>, cw_expired = False,
     cw_leaseID = [], cw_serviceID = ''video'', cw_lease = None, cw_leaseGroupIDs = [], cw_leaseGroup = None,
     cw_domainMatch = (=) ''a.example'', cw_probeCurrent = False, cw_probeDNS = False, cw_probeServer = [],
     cw_probeUnbind = None\<rparr>"

lemma demo_window_new:
  "newCatalogRuleWindow False (Some demo_catalog) False 1 ((=) ''a.example'') catalog_now = Inr (Some demo_window)"
proof -
  have "canonical_time ''2026-01-01T00:00:00Z'' = Some (wall_time (1767225600 * second))"
    "canonical_time ''2026-01-01T06:00:00Z'' = Some (wall_time (1767247200 * second))"
    "catalogServiceIDPattern ''video''" by code_simp+
  then show ?thesis
    by (simp add: newCatalogRuleWindow_def demo_catalog_def demo_window_def catalog_now_def time_before_def time_after_def
        time_add_def time_sub_def packed_wall_def min_duration_def max_duration_def second_def Let_def)
qed

definition demo_times :: "gotime \<Rightarrow> match_times" where
  "demo_times now = \<lparr>mt_current = now, mt_admits = now, mt_bypass = now, mt_group = demo_env\<rparr>"

definition demo_windowed :: windowed_rule where
  "demo_windowed = \<lparr>wr_rule = name_rule ''a.example'', wr_sets = None, wr_invert = False, wr_window = Some demo_window\<rparr>"

definition demo_catalog_world :: catalog_world where
  "demo_catalog_world = \<lparr>wo_out = (\<lambda>_. demo_smart), wo_groups = (\<lambda>_. None)\<rparr>"

lemma demo_windowed_match:
  "fst (windowed_match demo_rule_env (demo_times \<lparr>wall = 1767226000 * second, mono_ns = Some (2 * second)\<rparr>) demo_windowed
     demo_ctx demo_catalog_world)"
proof -
  have "fst (rule_match_inner demo_rule_env demo_windowed demo_ctx)" by code_simp
  then obtain m1 where inner: "rule_match_inner demo_rule_env demo_windowed demo_ctx = (True, m1)" by (metis prod.collapse)
  have w: "wr_window demo_windowed = Some demo_window" "wr_sets demo_windowed = None" "\<not> wr_invert demo_windowed"
    "dr_allItems (wr_rule demo_windowed) \<noteq> []" by (simp_all add: demo_windowed_def name_rule_def)
  have "window_active \<lparr>wall = 1767226000 * second, mono_ns = Some (2 * second)\<rparr>
      \<lparr>wall = 1767226000 * second, mono_ns = Some (2 * second)\<rparr> demo_window demo_catalog_world = (True, demo_window, demo_catalog_world)"
    by (simp add: window_active_def catalogCurrent_def demo_window_def time_before_def second_def)
  moreover have "window_selected demo_env demo_window W = (True, W)" for W
    by (simp add: window_selected_def demo_window_def)
  ultimately show ?thesis by (simp add: windowed_match_def w inner demo_times_def)
qed

theorem catalog_bound_witness:
  "wall (cw_issuedAt demo_window) \<le> 1767226000 * second \<and> 1767226000 * second < wall (cw_expiresAt demo_window) \<and>
   2 * second - second < wall (cw_expiresAt demo_window) - wall catalog_now"
proof -
  let ?now = "\<lparr>wall = 1767226000 * second, mono_ns = Some (2 * second)\<rparr>"
  have "clock_ok catalog_now" "clock_ok ?now" "packed_wall (wall (cw_expiresAt demo_window))"
    "wall (cw_expiresAt demo_window) - wall catalog_now < 2 ^ 62"
    by (simp_all add: clock_ok_def catalog_now_def packed_wall_def demo_window_def second_def Let_def)
  with catalog_bound [OF demo_window_new _ _ _ _ _ rtranclp.rtrancl_refl demo_windowed_match]
  show ?thesis by (simp add: demo_times_def demo_windowed_def catalog_now_def)
qed

text \<open>The rule above matches, and after its service is revoked it does not, one second later.\<close>

theorem catalog_terminal_witness:
  "fst (windowed_match demo_rule_env (demo_times \<lparr>wall = 1767226000 * second, mono_ns = Some (2 * second)\<rparr>) demo_windowed
      demo_ctx demo_catalog_world) \<and>
   \<not> fst (case RevokeRoutingCatalogService ''video'' catalog_now demo_windowed demo_catalog_world of (_, r, W) \<Rightarrow>
      windowed_match demo_rule_env (demo_times \<lparr>wall = 1767226000 * second, mono_ns = Some (3 * second)\<rparr>) r demo_ctx W)"
proof -
  let ?s = "snd (RevokeRoutingCatalogService ''video'' catalog_now demo_windowed demo_catalog_world)"
  have w: "wr_window demo_windowed = Some demo_window" "cw_serviceID demo_window = ''video''"
    by (simp_all add: demo_windowed_def demo_window_def)
  then have "cw_serviceID demo_window = ''video'' \<and> ''video'' \<noteq> [] \<and> ?s = ?s" by simp
  from catalog_terminal [OF w(1) disjI2 [OF disjI2 [OF disjI1 [OF this]]] rtranclp.rtrancl_refl]
  show ?thesis using demo_windowed_match by (simp add: case_prod_beta)
qed

end
