(* ===== verification/Json_Text.thy ===== *)
theory Json_Text
  imports Prelude
begin

text \<open>
  JSON as package \<open>encoding/json\<close> reads and writes it: the compact text that \<open>json.Marshal\<close> produces, a
  reader of texts, and the proof that reading a printed value gives the value back. The keys of an
  object are kept in the order of the text, duplicates included. Strings are byte strings; the texts
  that the sources write consist of ASCII characters.
\<close>

section \<open>Values and their text\<close>

text \<open>A number is kept as its literal, as \<open>json.RawMessage\<close> keeps it.\<close>

datatype json = JNull | JBool bool | JNum string | JStr string | JArr "json list" | JObj "(string \<times> json) list"

definition hex_digit :: "nat \<Rightarrow> char" where
  "hex_digit n = (if n < 10 then char_of (48 + n) else char_of (87 + n))"

definition json_escape :: "char \<Rightarrow> string" where
  "json_escape c =
     (let n = (of_char c :: nat) in
      if n = 34 \<or> n = 92 then [CHR 0x5C, c]
      else if n = 8 then [CHR 0x5C, CHR ''b'']
      else if n = 12 then [CHR 0x5C, CHR ''f'']
      else if n = 10 then [CHR 0x5C, CHR ''n'']
      else if n = 13 then [CHR 0x5C, CHR ''r'']
      else if n = 9 then [CHR 0x5C, CHR ''t'']
      else if n < 32 \<or> n = 38 \<or> n = 60 \<or> n = 62
      then [CHR 0x5C, CHR ''u'', CHR ''0'', CHR ''0'', hex_digit (n div 16), hex_digit (n mod 16)]
      else [c])"

definition json_quote :: "string \<Rightarrow> string" where
  "json_quote s = CHR 0x22 # concat (map json_escape s) @ [CHR 0x22]"

fun join_comma :: "string list \<Rightarrow> string" where
  "join_comma [] = []"
| "join_comma [s] = s"
| "join_comma (s # ss) = s @ CHR '','' # join_comma ss"

fun print_json :: "json \<Rightarrow> string" where
  "print_json JNull = ''null''"
| "print_json (JBool b) = (if b then ''true'' else ''false'')"
| "print_json (JNum n) = n"
| "print_json (JStr s) = json_quote s"
| "print_json (JArr vs) = CHR ''['' # join_comma (map print_json vs) @ '']''"
| "print_json (JObj kvs) =
     CHR ''{'' # join_comma (map (\<lambda>(k, v). json_quote k @ CHR '':'' # print_json v) kvs) @ ''}''"

text \<open>The literal of an integer.\<close>

fun show_nat :: "nat \<Rightarrow> string" where
  "show_nat n = (if n < 10 then [] else show_nat (n div 10)) @ [char_of (48 + n mod 10)]"

declare show_nat.simps [simp del]

definition show_int :: "int \<Rightarrow> string" where
  "show_int i = (if i < 0 then CHR ''-'' # show_nat (nat (- i)) else show_nat (nat i))"

section \<open>Reading\<close>

definition json_space :: "char \<Rightarrow> bool" where
  "json_space c \<longleftrightarrow> c = CHR '' '' \<or> c = CHR 0x09 \<or> c = CHR 0x0A \<or> c = CHR 0x0D"

definition skip_ws :: "string \<Rightarrow> string" where
  "skip_ws s = dropWhile json_space s"

definition hex_value :: "char \<Rightarrow> nat option" where
  "hex_value c =
     (let n = (of_char c :: nat) in
      if 48 \<le> n \<and> n \<le> 57 then Some (n - 48)
      else if 97 \<le> n \<and> n \<le> 102 then Some (n - 87)
      else if 65 \<le> n \<and> n \<le> 70 then Some (n - 55)
      else None)"

text \<open>The four hexadecimal digits after \<open>\u\<close>, and the rest.\<close>

definition scan_hex4 :: "string \<Rightarrow> (nat \<times> string) option" where
  "scan_hex4 s =
     (case s of
        a # b # c # d # r \<Rightarrow>
          (case (hex_value a, hex_value b, hex_value c, hex_value d) of
             (Some w, Some x, Some y, Some z) \<Rightarrow> Some (((w * 16 + x) * 16 + y) * 16 + z, r)
           | _ \<Rightarrow> None)
      | _ \<Rightarrow> None)"

definition utf8 :: "nat \<Rightarrow> string" where
  "utf8 n =
     (if n < 128 then [char_of n]
      else if n < 2048 then [char_of (192 + n div 64), char_of (128 + n mod 64)]
      else if n < 65536 then
        [char_of (224 + n div 4096), char_of (128 + n div 64 mod 64), char_of (128 + n mod 64)]
      else [char_of (240 + n div 262144), char_of (128 + n div 4096 mod 64),
            char_of (128 + n div 64 mod 64), char_of (128 + n mod 64)])"

text \<open>A surrogate must be the first of a pair; otherwise it reads as the replacement character.\<close>

definition scan_unicode :: "string \<Rightarrow> (string \<times> string) option" where
  "scan_unicode s =
     (case scan_hex4 s of
        None \<Rightarrow> None
      | Some (n, r) \<Rightarrow>
          if n < 55296 \<or> 57344 \<le> n then Some (utf8 n, r)
          else (case r of
             a # b # r' \<Rightarrow>
               if a = CHR 0x5C \<and> b = CHR ''u'' then
                 (case scan_hex4 r' of
                    Some (m, r'') \<Rightarrow>
                      if n < 56320 \<and> 56320 \<le> m \<and> m < 57344
                      then Some (utf8 ((n - 55296) * 1024 + (m - 56320) + 65536), r'')
                      else Some (utf8 65533, r)
                  | None \<Rightarrow> Some (utf8 65533, r))
               else Some (utf8 65533, r)
           | _ \<Rightarrow> Some (utf8 65533, r)))"

lemma scan_hex4_shorter: "scan_hex4 s = Some (n, r) \<Longrightarrow> length r < length s"
  by (auto simp: scan_hex4_def split: list.splits option.splits)

lemma scan_unicode_shorter: "scan_unicode s = Some (t, r) \<Longrightarrow> length r < length s"
  by (auto simp: scan_unicode_def split: list.splits option.splits if_splits dest!: scan_hex4_shorter)

text \<open>The one-letter escapes.\<close>

definition escape_table :: "(char \<times> char) list" where
  "escape_table = [(CHR 0x22, CHR 0x22), (CHR 0x5C, CHR 0x5C), (CHR ''/'', CHR ''/''),
     (CHR ''b'', CHR 0x08), (CHR ''f'', CHR 0x0C), (CHR ''n'', CHR 0x0A), (CHR ''r'', CHR 0x0D), (CHR ''t'', CHR 0x09)]"

text \<open>The characters of a string after its opening quote, and the rest.\<close>

function scan_string :: "string \<Rightarrow> (string \<times> string) option" where
  "scan_string s =
     (case s of
        [] \<Rightarrow> None
      | c # r \<Rightarrow>
          if c = CHR 0x22 then Some ([], r)
          else if c = CHR 0x5C then
            (case r of
               [] \<Rightarrow> None
             | e # r' \<Rightarrow>
                 if e = CHR ''u'' then
                   (case scan_unicode r' of
                      None \<Rightarrow> None
                    | Some (t, r'') \<Rightarrow> map_option (\<lambda>(u, q). (t @ u, q)) (scan_string r''))
                 else
                   (case map_of escape_table e of
                      None \<Rightarrow> None
                    | Some x \<Rightarrow> map_option (\<lambda>(u, q). (x # u, q)) (scan_string r')))
          else if (of_char c :: nat) < 32 then None
          else map_option (\<lambda>(u, q). (c # u, q)) (scan_string r))"
  by pat_completeness auto
termination
  by (relation "measure length") (auto dest: scan_unicode_shorter)

declare scan_string.simps [simp del]

text \<open>A number: an integer part without leading zeros, then a fraction and an exponent if there are any.\<close>

definition scan_fraction :: "string \<Rightarrow> (string \<times> string) option" where
  "scan_fraction s =
     (case s of
        [] \<Rightarrow> Some ([], [])
      | c # r \<Rightarrow>
          if c \<noteq> CHR ''.'' then Some ([], s)
          else if takeWhile is_digit r = [] then None
          else Some (c # takeWhile is_digit r, dropWhile is_digit r))"

definition scan_exponent :: "string \<Rightarrow> (string \<times> string) option" where
  "scan_exponent s =
     (case s of
        [] \<Rightarrow> Some ([], [])
      | c # r \<Rightarrow>
          if c \<noteq> CHR ''e'' \<and> c \<noteq> CHR ''E'' then Some ([], s)
          else let sign = (case r of [] \<Rightarrow> [] | x # _ \<Rightarrow> if x = CHR ''+'' \<or> x = CHR ''-'' then [x] else []);
                   r' = drop (length sign) r
            in if takeWhile is_digit r' = [] then None
               else Some (c # sign @ takeWhile is_digit r', dropWhile is_digit r'))"

definition integer_part :: "string \<Rightarrow> string" where
  "integer_part digits = (if hd digits = CHR ''0'' then ''0'' else digits)"

definition scan_number :: "string \<Rightarrow> (string \<times> string) option" where
  "scan_number s =
     (let sign = (if has_prefix s ''-'' then ''-'' else []);
          s' = drop (length sign) s;
          digits = takeWhile is_digit s'
      in if digits = [] then None
         else let int = integer_part digits in
           Option.bind (scan_fraction (drop (length int) s')) (\<lambda>(f, r).
           Option.bind (scan_exponent r) (\<lambda>(e, r').
             Some (sign @ int @ f @ e, r'))))"

text \<open>
  The reader. The number bounds the nesting and the length of what is read: every second call takes
  a character, so twice the length of the text is enough.
\<close>

fun scan_json :: "nat \<Rightarrow> string \<Rightarrow> (json \<times> string) option"
  and scan_elements :: "nat \<Rightarrow> string \<Rightarrow> (json list \<times> string) option"
  and scan_members :: "nat \<Rightarrow> string \<Rightarrow> ((string \<times> json) list \<times> string) option" where
  "scan_json 0 s = None"
| "scan_json (Suc n) s =
     (case skip_ws s of
        [] \<Rightarrow> None
      | c # r \<Rightarrow>
          if c = CHR 0x22 then map_option (\<lambda>(t, q). (JStr t, q)) (scan_string r)
          else if c = CHR ''['' then
            (if has_prefix (skip_ws r) '']'' then Some (JArr [], tl (skip_ws r))
             else map_option (\<lambda>(vs, q). (JArr vs, q)) (scan_elements n r))
          else if c = CHR ''{'' then
            (if has_prefix (skip_ws r) ''}'' then Some (JObj [], tl (skip_ws r))
             else map_option (\<lambda>(kvs, q). (JObj kvs, q)) (scan_members n r))
          else if has_prefix (c # r) ''null'' then Some (JNull, drop 3 r)
          else if has_prefix (c # r) ''true'' then Some (JBool True, drop 3 r)
          else if has_prefix (c # r) ''false'' then Some (JBool False, drop 4 r)
          else map_option (\<lambda>(t, q). (JNum t, q)) (scan_number (c # r)))"
| "scan_elements 0 s = None"
| "scan_elements (Suc n) s =
     (case scan_json n s of
        None \<Rightarrow> None
      | Some (v, r) \<Rightarrow>
          (case skip_ws r of
             [] \<Rightarrow> None
           | c # r' \<Rightarrow>
               if c = CHR '']'' then Some ([v], r')
               else if c = CHR '','' then map_option (\<lambda>(vs, q). (v # vs, q)) (scan_elements n r')
               else None))"
| "scan_members 0 s = None"
| "scan_members (Suc n) s =
     (case skip_ws s of
        [] \<Rightarrow> None
      | c # r \<Rightarrow>
          if c \<noteq> CHR 0x22 then None
          else (case scan_string r of
             None \<Rightarrow> None
           | Some (k, r1) \<Rightarrow>
               if \<not> has_prefix (skip_ws r1) '':'' then None
               else (case scan_json n (tl (skip_ws r1)) of
                  None \<Rightarrow> None
                | Some (v, r2) \<Rightarrow>
                    (case skip_ws r2 of
                       [] \<Rightarrow> None
                     | c' # r' \<Rightarrow>
                         if c' = CHR ''}'' then Some ([(k, v)], r')
                         else if c' = CHR '','' then map_option (\<lambda>(kvs, q). ((k, v) # kvs, q)) (scan_members n r')
                         else None))))"

definition parse_json :: "string \<Rightarrow> json option" where
  "parse_json s =
     (case scan_json (2 * length s + 2) s of
        None \<Rightarrow> None
      | Some (v, r) \<Rightarrow> if skip_ws r = [] then Some v else None)"

text \<open>What \<open>Unmarshal\<close> accepts for an integer of 64 bits: a literal of digits alone.\<close>

fun read_digits :: "nat \<Rightarrow> string \<Rightarrow> nat" where
  "read_digits acc [] = acc"
| "read_digits acc (c # s) = read_digits (10 * acc + (of_char c - 48)) s"

definition read_int :: "string \<Rightarrow> int option" where
  "read_int s =
     (let neg = has_prefix s ''-'';
          digits = (if neg then drop 1 s else s);
          i = int (read_digits 0 digits);
          v = (if neg then - i else i)
      in if digits = [] \<or> \<not> list_all is_digit digits \<or> v < - (2 ^ 63) \<or> 2 ^ 63 \<le> v then None else Some v)"

section \<open>Reading what was printed\<close>

lemma of_char_inj: "(of_char c :: nat) = of_char d \<Longrightarrow> c = d"
  by simp

lemma hex_value_digit: "n < 16 \<Longrightarrow> hex_value (hex_digit n) = Some n"
  by (auto simp: hex_value_def hex_digit_def Let_def)

lemma hex_value_zero: "hex_value CHR ''0'' = Some 0"
  by (simp add: hex_value_def)

lemma json_escape_cases:
  obtains (plain) "json_escape c = [c]" "c \<noteq> CHR 0x22" "c \<noteq> CHR 0x5C" "32 \<le> (of_char c :: nat)"
  | (short) e where "json_escape c = [CHR 0x5C, e]" "e \<noteq> CHR ''u''" "map_of escape_table e = Some c"
  | (long) "json_escape c = [CHR 0x5C, CHR ''u'', CHR ''0'', CHR ''0'', hex_digit (of_char c div 16), hex_digit (of_char c mod 16)]"
      "(of_char c :: nat) < 128"
proof -
  let ?n = "of_char c :: nat"
  consider "?n = 34" | "?n = 92" | "?n = 8" | "?n = 12" | "?n = 10" | "?n = 13" | "?n = 9"
    | "(?n < 32 \<or> ?n = 38 \<or> ?n = 60 \<or> ?n = 62) \<and> ?n \<notin> {34, 92, 8, 12, 10, 13, 9}"
    | "32 \<le> ?n \<and> ?n \<notin> {34, 92, 38, 60, 62}"
    by force
  then show thesis
  proof cases
    case 1
    then have "c = CHR 0x22" by (intro of_char_inj) simp
    then show thesis by (intro short [of "CHR 0x22"]) (simp_all add: json_escape_def escape_table_def)
  next
    case 2
    then have "c = CHR 0x5C" by (intro of_char_inj) simp
    then show thesis by (intro short [of "CHR 0x5C"]) (simp_all add: json_escape_def escape_table_def)
  next
    case 3
    then have "c = CHR 0x08" by (intro of_char_inj) simp
    then show thesis by (intro short [of "CHR ''b''"]) (simp_all add: json_escape_def escape_table_def)
  next
    case 4
    then have "c = CHR 0x0C" by (intro of_char_inj) simp
    then show thesis by (intro short [of "CHR ''f''"]) (simp_all add: json_escape_def escape_table_def)
  next
    case 5
    then have "c = CHR 0x0A" by (intro of_char_inj) simp
    then show thesis by (intro short [of "CHR ''n''"]) (simp_all add: json_escape_def escape_table_def)
  next
    case 6
    then have "c = CHR 0x0D" by (intro of_char_inj) simp
    then show thesis by (intro short [of "CHR ''r''"]) (simp_all add: json_escape_def escape_table_def)
  next
    case 7
    then have "c = CHR 0x09" by (intro of_char_inj) simp
    then show thesis by (intro short [of "CHR ''t''"]) (simp_all add: json_escape_def escape_table_def)
  next
    case 8 then show thesis by (intro long) (auto simp: json_escape_def Let_def)
  next
    case 9 then show thesis by (intro plain) (auto simp: json_escape_def Let_def)
  qed
qed

lemma scan_string_end [simp]: "scan_string (CHR 0x22 # r) = Some ([], r)"
  by (simp add: scan_string.simps)

lemma scan_string_escape:
  "scan_string (json_escape c @ r) = map_option (\<lambda>(u, q). (c # u, q)) (scan_string r)"
proof (cases c rule: json_escape_cases)
  case plain
  then show ?thesis by (subst scan_string.simps) (simp add: not_less)
next
  case (short e)
  then show ?thesis by (subst scan_string.simps) simp
next
  case long
  have "scan_unicode (CHR ''0'' # CHR ''0'' # hex_digit (of_char c div 16) # hex_digit (of_char c mod 16) # r) = Some ([c], r)"
    using long(2) by (simp add: scan_unicode_def scan_hex4_def hex_value_digit hex_value_zero utf8_def)
  with long(1) show ?thesis by (subst scan_string.simps) simp
qed

lemma scan_string_quote: "scan_string (concat (map json_escape s) @ CHR 0x22 # r) = Some (s, r)"
  by (induction s) (simp_all add: scan_string_escape)

text \<open>Literals of integers.\<close>

lemma show_nat_digits: "list_all is_digit (show_nat n)"
proof (induction n rule: show_nat.induct)
  case (1 n)
  have "is_digit (char_of (48 + n mod 10))" by (simp add: is_digit_def)
  with 1 show ?case by (subst show_nat.simps) auto
qed

lemma show_nat_nonempty [simp]: "show_nat n \<noteq> []"
  by (subst show_nat.simps) simp

lemma show_nat_no_zero: "0 < n \<Longrightarrow> hd (show_nat n) \<noteq> CHR ''0''"
proof (induction n rule: show_nat.induct)
  case (1 n)
  show ?case
  proof (cases "n < 10")
    case True
    have "char_of (48 + n) \<noteq> CHR ''0''"
    proof
      assume "char_of (48 + n) = CHR ''0''"
      then have "(of_char (char_of (48 + n) :: char) :: nat) = of_char CHR ''0''" by simp
      with True 1(2) show False by simp
    qed
    then show ?thesis using True by (subst show_nat.simps) simp
  next
    case False
    with 1 show ?thesis by (subst show_nat.simps) (simp add: hd_append)
  qed
qed

text \<open>What may follow a printed value inside another.\<close>

definition stops :: "string \<Rightarrow> bool" where
  "stops r \<longleftrightarrow> r = [] \<or> hd r \<in> {CHR '','', CHR '']'', CHR ''}''}"

lemma stops_simps [simp]: "stops []" "stops (CHR '','' # r)" "stops (CHR '']'' # r)" "stops (CHR ''}'' # r)"
  by (simp_all add: stops_def)

lemma digits_before_stop:
  assumes "stops r" and "list_all is_digit ds"
  shows "takeWhile is_digit (ds @ r) = ds" and "dropWhile is_digit (ds @ r) = r"
    and "scan_fraction r = Some ([], r)" and "scan_exponent r = Some ([], r)"
proof -
  have d: "takeWhile is_digit r = []" "dropWhile is_digit r = r"
    using assms(1) by (cases r; auto simp: stops_def is_digit_def)+
  have "\<forall>x \<in> set ds. is_digit x" using assms(2) by (simp add: list_all_iff)
  then show "takeWhile is_digit (ds @ r) = ds" "dropWhile is_digit (ds @ r) = r" using d by simp_all
  show "scan_fraction r = Some ([], r)" "scan_exponent r = Some ([], r)"
    using assms(1) by (cases r; auto simp: stops_def scan_fraction_def scan_exponent_def)+
qed

lemma digit_not_sign: "is_digit c \<Longrightarrow> c \<noteq> CHR ''-''"
  by (auto simp: is_digit_def)

lemma show_nat_hd: "is_digit (hd (show_nat n))"
  using show_nat_digits [of n] by (cases "show_nat n") (auto dest: arg_cong [of _ _ "\<lambda>x. x = []"])

lemma integer_part_show: "integer_part (show_nat n) = show_nat n"
proof -
  have "char_of (48 :: nat) = CHR ''0''" by (rule of_char_inj) simp
  then have "show_nat 0 = ''0''" by (subst show_nat.simps) simp
  then show ?thesis using show_nat_no_zero [of n] by (cases "n = 0") (simp_all add: integer_part_def)
qed

lemma scan_number_show:
  assumes "stops r"
  shows "scan_number (show_int i @ r) = Some (show_int i, r)"
proof (cases "i < 0")
  case True
  then show ?thesis
    using digits_before_stop [OF assms show_nat_digits]
    by (simp add: show_int_def scan_number_def has_prefix_def Let_def integer_part_show)
next
  case False
  obtain c s where s: "show_nat (nat i) = c # s" by (metis list.exhaust show_nat_nonempty)
  then have "c \<noteq> CHR ''-''" using show_nat_hd [of "nat i"] digit_not_sign by simp
  then have "\<not> has_prefix (show_nat (nat i) @ r) ''-''" by (simp add: s has_prefix_def)
  then show ?thesis
    using False digits_before_stop [OF assms show_nat_digits]
    by (simp add: show_int_def scan_number_def Let_def integer_part_show)
qed

lemma read_digits_snoc: "read_digits acc (s @ [c]) = 10 * read_digits acc s + (of_char c - 48)"
  by (induction s arbitrary: acc) simp_all

lemma read_show_nat: "read_digits 0 (show_nat n) = n"
proof (induction n rule: show_nat.induct)
  case (1 n)
  have "(of_char (char_of (48 + n mod 10) :: char) :: nat) = 48 + n mod 10" by simp
  with 1 show ?case by (subst show_nat.simps) (simp add: read_digits_snoc del: of_char_of)
qed

lemma read_show_int:
  assumes "- (2 ^ 63) \<le> i" and "i < 2 ^ 63"
  shows "read_int (show_int i) = Some i"
proof (cases "i < 0")
  case True
  then show ?thesis using assms show_nat_digits [of "nat (- i)"]
    by (simp add: read_int_def show_int_def has_prefix_def read_show_nat)
next
  case False
  obtain c s where s: "show_nat (nat i) = c # s" by (metis list.exhaust show_nat_nonempty)
  then have "c \<noteq> CHR ''-''" using show_nat_hd [of "nat i"] digit_not_sign by simp
  then have "\<not> has_prefix (show_nat (nat i)) ''-''" by (simp add: s has_prefix_def)
  then show ?thesis using False assms show_nat_digits [of "nat i"]
    by (simp add: read_int_def show_int_def read_show_nat)
qed

text \<open>Values whose numbers are integers, as all that the sources write are.\<close>

fun json_ok :: "json \<Rightarrow> bool" where
  "json_ok (JNum n) = (\<exists>i. n = show_int i)"
| "json_ok (JArr vs) = (\<forall>v \<in> set vs. json_ok v)"
| "json_ok (JObj kvs) = (\<forall>kv \<in> set kvs. json_ok (snd kv))"
| "json_ok _ = True"

text \<open>How much fuel a printed value takes.\<close>

fun json_need :: "json \<Rightarrow> nat" where
  "json_need (JArr vs) = Suc (\<Sum>v \<leftarrow> vs. Suc (json_need v))"
| "json_need (JObj kvs) = Suc (\<Sum>kv \<leftarrow> kvs. Suc (json_need (snd kv)))"
| "json_need _ = 1"

lemma show_int_nonempty [simp]: "show_int i \<noteq> []"
  by (simp add: show_int_def)

lemma print_json_nonempty: "json_ok j \<Longrightarrow> 1 \<le> length (print_json j)"
  by (cases j) (auto simp: json_quote_def Suc_le_eq)

lemma join_comma_Cons: "join_comma (s # ss) = s @ (if ss = [] then [] else CHR '','' # join_comma ss)"
  by (cases ss) simp_all

lemma need_join:
  assumes "\<forall>x \<in> set xs. f x + 1 \<le> 2 * length (g x)"
  shows "(\<Sum>x \<leftarrow> xs. Suc (f x)) \<le> 2 * length (join_comma (map g xs))"
  using assms
proof (induction xs)
  case (Cons x xs)
  then have "f x + 1 \<le> 2 * length (g x)" "(\<Sum>x \<leftarrow> xs. Suc (f x)) \<le> 2 * length (join_comma (map g xs))"
    by simp_all
  then show ?case by (simp add: join_comma_Cons)
qed simp

lemma json_need_bound: "json_ok j \<Longrightarrow> json_need j + 1 \<le> 2 * length (print_json j)"
proof (induction j rule: print_json.induct)
  case (5 vs)
  then have "(\<Sum>v \<leftarrow> vs. Suc (json_need v)) \<le> 2 * length (join_comma (map print_json vs))"
    by (intro need_join) auto
  then show ?case by simp
next
  case (6 kvs)
  have "(\<Sum>kv \<leftarrow> kvs. Suc (json_need (snd kv)))
      \<le> 2 * length (join_comma (map (\<lambda>(k, v). json_quote k @ CHR '':'' # print_json v) kvs))"
  proof (intro need_join ballI)
    fix kv assume "kv \<in> set kvs"
    moreover from this have "json_ok (snd kv)" using 6(2) by simp
    ultimately have "json_need (snd kv) + 1 \<le> 2 * length (print_json (snd kv))"
      by (intro 6(1) [of kv "fst kv"]) simp_all
    then show "json_need (snd kv) + 1 \<le> 2 * length (case kv of (k, v) \<Rightarrow> json_quote k @ CHR '':'' # print_json v)"
      by (cases kv) auto
  qed
  then show ?case by simp
next
  case (3 n)
  then have "Suc 0 \<le> length n" by (auto simp: Suc_le_eq)
  then show ?case by simp
qed (auto simp: json_quote_def)

lemma skip_ws_simps:
  "skip_ws (CHR 0x22 # r) = CHR 0x22 # r" "skip_ws (CHR ''['' # r) = CHR ''['' # r" "skip_ws (CHR ''{'' # r) = CHR ''{'' # r"
  "skip_ws (CHR '']'' # r) = CHR '']'' # r" "skip_ws (CHR ''}'' # r) = CHR ''}'' # r"
  "skip_ws (CHR '','' # r) = CHR '','' # r" "skip_ws (CHR '':'' # r) = CHR '':'' # r" "skip_ws [] = []"
  by (simp_all add: skip_ws_def json_space_def)

text \<open>A printed value begins with none of the characters that would be read as something else.\<close>

lemma show_int_first: "\<exists>c s. show_int i = c # s \<and> (c = CHR ''-'' \<or> is_digit c)"
  using show_nat_hd [of "nat i"] by (cases "show_nat (nat i)") (auto simp: show_int_def)

lemma print_json_first:
  assumes "json_ok j"
  shows "\<exists>c s. print_json j = c # s \<and> \<not> json_space c \<and> c \<noteq> CHR '']''"
proof (cases j)
  case (JNum n)
  with assms obtain i where "n = show_int i" by auto
  with JNum show ?thesis using show_int_first [of i] by (auto simp: json_space_def is_digit_def)
qed (auto simp: json_quote_def json_space_def)

lemma scan_number_value:
  assumes "stops r"
  shows "scan_json (Suc n) (show_int i @ r) = Some (JNum (show_int i), r)"
proof -
  obtain c s where c: "show_int i = c # s" "c = CHR ''-'' \<or> is_digit c"
    using show_int_first by blast
  then have "\<not> json_space c" "c \<notin> {CHR 0x22, CHR ''['', CHR ''{'', CHR ''n'', CHR ''t'', CHR ''f''}"
    by (auto simp: json_space_def is_digit_def)
  then show ?thesis
    using scan_number_show [OF assms, of i] by (simp add: c(1) skip_ws_def has_prefix_def)
qed

lemma scan_elements_print:
  assumes "\<And>v n r. v \<in> set vs \<Longrightarrow> json_need v \<le> n \<Longrightarrow> stops r \<Longrightarrow> scan_json n (print_json v @ r) = Some (v, r)"
    and "vs \<noteq> []" and "(\<Sum>v \<leftarrow> vs. Suc (json_need v)) \<le> n"
  shows "scan_elements n (join_comma (map print_json vs) @ CHR '']'' # r) = Some (vs, r)"
  using assms
proof (induction vs arbitrary: n)
  case (Cons v vs)
  then obtain m where n: "n = Suc m" "json_need v \<le> m" "(\<Sum>v \<leftarrow> vs. Suc (json_need v)) \<le> m"
    by (cases n) auto
  show ?case
  proof (cases "vs = []")
    case True
    then show ?thesis using Cons.prems(1) [of v m "CHR '']'' # r"] n by (simp add: skip_ws_simps)
  next
    case False
    then show ?thesis
      using Cons.prems(1) [of v m "CHR '','' # join_comma (map print_json vs) @ CHR '']'' # r"] n
        Cons.IH [of m] Cons.prems(1) by (simp add: join_comma_Cons skip_ws_simps)
  qed
qed simp

abbreviation print_member :: "string \<times> json \<Rightarrow> string" where
  "print_member \<equiv> \<lambda>(k, v). json_quote k @ CHR '':'' # print_json v"

lemma scan_members_print:
  assumes "\<And>kv n r. kv \<in> set kvs \<Longrightarrow> json_need (snd kv) \<le> n \<Longrightarrow> stops r
      \<Longrightarrow> scan_json n (print_json (snd kv) @ r) = Some (snd kv, r)"
    and "kvs \<noteq> []" and "(\<Sum>kv \<leftarrow> kvs. Suc (json_need (snd kv))) \<le> n"
  shows "scan_members n (join_comma (map print_member kvs) @ CHR ''}'' # r) = Some (kvs, r)"
  using assms
proof (induction kvs arbitrary: n)
  case (Cons kv kvs)
  obtain k v where kv: "kv = (k, v)" by (cases kv)
  from Cons obtain m where n: "n = Suc m" "json_need v \<le> m" "(\<Sum>kv \<leftarrow> kvs. Suc (json_need (snd kv))) \<le> m"
    by (cases n) (auto simp: kv)
  have v: "scan_json m (print_json v @ q) = Some (v, q)" if "stops q" for q
    using Cons.prems(1) [of kv m q] n that by (simp add: kv)
  have head: "scan_members (Suc m) (print_member kv @ q) =
      (case skip_ws q of [] \<Rightarrow> None
       | c # q' \<Rightarrow> if c = CHR ''}'' then Some ([(k, v)], q')
           else if c = CHR '','' then map_option (\<lambda>(ms, p). ((k, v) # ms, p)) (scan_members m q') else None)"
    if "stops q" for q
    using v [OF that] by (simp add: kv json_quote_def skip_ws_simps scan_string_quote has_prefix_def)
  show ?case
  proof (cases "kvs = []")
    case True
    then show ?thesis using head [of "CHR ''}'' # r"] by (simp add: n kv skip_ws_simps)
  next
    case False
    then show ?thesis
      using head [of "CHR '','' # join_comma (map print_member kvs) @ CHR ''}'' # r"] n
        Cons.IH [of m] Cons.prems(1) by (simp add: kv join_comma_Cons skip_ws_simps)
  qed
qed simp

lemma scan_json_print:
  assumes "json_ok j" and "json_need j \<le> n" and "stops r"
  shows "scan_json n (print_json j @ r) = Some (j, r)"
  using assms
proof (induction j arbitrary: n r rule: print_json.induct)
  case (3 k)
  then show ?case by (cases n) (auto simp: scan_number_value simp del: scan_json.simps)
next
  case (4 s)
  then show ?case by (cases n) (auto simp: json_quote_def skip_ws_simps scan_string_quote)
next
  case (5 vs)
  then obtain m where m: "n = Suc m" "(\<Sum>v \<leftarrow> vs. Suc (json_need v)) \<le> m" by (cases n) auto
  show ?case
  proof (cases "vs = []")
    case True
    then show ?thesis by (simp add: m skip_ws_simps has_prefix_def)
  next
    case False
    then obtain v vs' where vs: "vs = v # vs'" by (cases vs) auto
    have "json_ok v" using 5(2) vs by simp
    then obtain c s where c: "print_json v = c # s" "c \<noteq> CHR '']''" "\<not> json_space c"
      using print_json_first by blast
    have "scan_elements m (join_comma (map print_json vs) @ CHR '']'' # r) = Some (vs, r)"
      using 5 False m by (intro scan_elements_print) auto
    moreover have "\<not> has_prefix (skip_ws (join_comma (map print_json vs) @ CHR '']'' # r)) '']''"
      using c by (simp add: vs join_comma_Cons has_prefix_def skip_ws_def)
    ultimately show ?thesis by (simp add: m skip_ws_simps)
  qed
next
  case (6 kvs)
  then obtain m where m: "n = Suc m" "(\<Sum>kv \<leftarrow> kvs. Suc (json_need (snd kv))) \<le> m" by (cases n) auto
  show ?case
  proof (cases "kvs = []")
    case True
    then show ?thesis by (simp add: m skip_ws_simps has_prefix_def)
  next
    case False
    then obtain kv kvs' where kvs: "kvs = kv # kvs'" by (cases kvs) auto
    have "scan_members m (join_comma (map print_member kvs) @ CHR ''}'' # r) = Some (kvs, r)"
      using 6 False m by (intro scan_members_print) (auto simp: case_prod_beta)
    moreover have "\<not> has_prefix (skip_ws (join_comma (map print_member kvs) @ CHR ''}'' # r)) ''}''"
      by (cases kv) (simp add: kvs join_comma_Cons has_prefix_def json_quote_def skip_ws_simps)
    ultimately show ?thesis by (simp add: m skip_ws_simps)
  qed
qed (auto simp: skip_ws_def json_space_def has_prefix_def split: if_splits elim!: Suc_le_D [elim_format])

lemma parse_print: "json_ok j \<Longrightarrow> parse_json (print_json j) = Some j"
  using scan_json_print [of j "2 * length (print_json j) + 2" "[]"] json_need_bound [of j]
  by (simp add: parse_json_def skip_ws_def)

section \<open>The fuel of the reader is enough\<close>

lemma skip_ws_length: "length (skip_ws s) \<le> length s"
  by (simp add: skip_ws_def length_dropWhile_le)

lemma skip_ws_Cons: "skip_ws s = c # r \<Longrightarrow> length r < length s"
  using skip_ws_length [of s] by simp

lemma scan_string_shorter: "scan_string s = Some (t, r) \<Longrightarrow> length r < length s"
proof (induction "length s" arbitrary: s t r rule: less_induct)
  case less
  have IH: "length r < length q" if "scan_string q = Some (t, r)" "length q < length s" for q t r
    using less(1) that by blast
  show ?case using less(2)
    apply (subst (asm) scan_string.simps)
    apply (auto split: list.splits if_splits option.splits dest!: IH scan_unicode_shorter)
    done
qed

lemma scan_fraction_shorter: "scan_fraction s = Some (t, r) \<Longrightarrow> length r \<le> length s"
  by (auto simp: scan_fraction_def split: list.splits if_splits)
    (metis le_SucI length_dropWhile_le)

lemma scan_exponent_shorter: "scan_exponent s = Some (t, r) \<Longrightarrow> length r \<le> length s"
  by (auto simp: scan_exponent_def Let_def split: list.splits if_splits)
    (meson le_SucI length_dropWhile_le order_trans)+

lemma drop_shorter: "a \<noteq> [] \<Longrightarrow> b \<noteq> [] \<Longrightarrow> length (drop (length a) b) < length b"
  by (simp add: Suc_le_eq diff_less)

lemma scan_number_shorter:
  assumes "scan_number s = Some (t, r)"
  shows "length r < length s"
proof -
  let ?s = "drop (length (if has_prefix s ''-'' then ''-'' else [])) s"
  let ?d = "takeWhile is_digit ?s"
  from assms have d: "?d \<noteq> []" by (auto simp: scan_number_def Let_def split: if_splits)
  then have s: "?s \<noteq> []" by auto
  have "integer_part ?d \<noteq> []" using d by (simp add: integer_part_def)
  then have "length (drop (length (integer_part ?d)) ?s) < length ?s" using s by (rule drop_shorter)
  moreover have "length r \<le> length (drop (length (integer_part ?d)) ?s)"
    using assms d unfolding scan_number_def Let_def
    by (auto split: bind_splits dest!: scan_fraction_shorter scan_exponent_shorter)
  ultimately show ?thesis by (smt (verit) length_drop diff_le_self le_less_trans less_le_trans)
qed

lemma scan_json_cases:
  assumes "scan_json (Suc n) s = Some (j, r)"
  obtains c q where "skip_ws s = c # q" and "length r \<le> length q"
  | c q vs where "skip_ws s = c # q" and "scan_elements n q = Some (vs, r)"
  | c q kvs where "skip_ws s = c # q" and "scan_members n q = Some (kvs, r)"
proof -
  obtain c q where c: "skip_ws s = c # q" using assms by (cases "skip_ws s") auto
  have tl: "length (tl (skip_ws q)) \<le> length q" using skip_ws_length [of q] by simp
  consider vs where "scan_elements n q = Some (vs, r)" | kvs where "scan_members n q = Some (kvs, r)"
    | t where "scan_string q = Some (t, r)" | t where "scan_number (c # q) = Some (t, r)"
    | "r = tl (skip_ws q)" | "r = drop 3 q" | "r = drop 4 q"
    using assms c by (auto split: if_splits)
  then show thesis
  proof cases
    case 3 then show thesis using that(1) [OF c] scan_string_shorter by (simp add: less_imp_le)
  next
    case 4 then show thesis using that(1) [OF c] scan_number_shorter by fastforce
  qed (use c tl that in simp_all)
qed

lemma scan_elements_cases:
  assumes "scan_elements (Suc n) s = Some (vs, r)"
  obtains v q c where "scan_json n s = Some (v, q)" and "skip_ws q = c # r"
  | v q c q' vs' where "scan_json n s = Some (v, q)" and "skip_ws q = c # q'" and "scan_elements n q' = Some (vs', r)"
  using assms by (auto split: option.splits list.splits if_splits)

lemma scan_members_cases:
  assumes "scan_members (Suc n) s = Some (kvs, r)"
  obtains c q1 k q2 c' q3 v q4 c'' where "skip_ws s = c # q1" and "scan_string q1 = Some (k, q2)" and "skip_ws q2 = c' # q3"
      and "scan_json n q3 = Some (v, q4)" and "skip_ws q4 = c'' # r"
  | c q1 k q2 c' q3 v q4 c'' q5 kvs' where "skip_ws s = c # q1" and "scan_string q1 = Some (k, q2)" and "skip_ws q2 = c' # q3"
      and "scan_json n q3 = Some (v, q4)" and "skip_ws q4 = c'' # q5" and "scan_members n q5 = Some (kvs', r)"
proof -
  obtain c q1 k q2 where 1: "skip_ws s = c # q1" "c = CHR 0x22" "scan_string q1 = Some (k, q2)"
    using assms by (auto split: list.splits if_splits option.splits)
  then have p: "has_prefix (skip_ws q2) '':''" using assms by (auto split: if_splits)
  then obtain c' q3 where 2: "skip_ws q2 = c' # q3" by (cases "skip_ws q2") (auto simp: has_prefix_def)
  obtain v q4 c'' q5 where 3: "scan_json n q3 = Some (v, q4)" "skip_ws q4 = c'' # q5"
    using assms 1 2 p by (auto split: option.splits list.splits)
  then have "r = q5 \<or> (\<exists>kvs'. scan_members n q5 = Some (kvs', r))"
    using assms 1 2 p by (auto split: if_splits)
  then show thesis using that(1) [OF 1(1,3) 2 3(1)] that(2) [OF 1(1,3) 2 3] 3(2) by blast
qed

lemma scan_shorter:
  "scan_json n s = Some (j, r) \<Longrightarrow> length r < length s"
  "scan_elements n s = Some (vs, r) \<Longrightarrow> length r < length s"
  "scan_members n s = Some (kvs, r) \<Longrightarrow> length r < length s"
proof (induction n arbitrary: s j vs kvs r)
  case (Suc n)
  { case 1 then show ?case
      by (cases rule: scan_json_cases) (fastforce dest!: skip_ws_Cons Suc.IH(2,3))+
  next
    case 2 then show ?case
      by (cases rule: scan_elements_cases) (fastforce dest!: skip_ws_Cons Suc.IH(1,2))+
  next
    case 3 then show ?case
      by (cases rule: scan_members_cases) (fastforce dest!: skip_ws_Cons scan_string_shorter Suc.IH(1,3))+
  }
qed simp_all

lemma scan_fuel:
  "2 * length s + 1 \<le> n \<Longrightarrow> n \<le> m \<Longrightarrow> scan_json m s = scan_json n s"
  "2 * length s + 2 \<le> n \<Longrightarrow> n \<le> m \<Longrightarrow> scan_elements m s = scan_elements n s"
  "2 * length s + 2 \<le> n \<Longrightarrow> n \<le> m \<Longrightarrow> scan_members m s = scan_members n s"
proof (induction n arbitrary: s m)
  case (Suc n)
  { case 1
    then obtain k where m: "m = Suc k" "n \<le> k" by (cases m) auto
    have "scan_elements k q = scan_elements n q" "scan_members k q = scan_members n q" if "skip_ws s = c # q" for c q
      using Suc.IH(2,3) [of q k] m(2) 1(1) skip_ws_Cons [OF that] by simp_all
    then show ?case unfolding m(1) scan_json.simps by (auto split: list.splits)
  next
    case 2
    then obtain k where m: "m = Suc k" "n \<le> k" by (cases m) auto
    have v: "scan_json k s = scan_json n s" using Suc.IH(1) [of s k] 2 m by simp
    have "scan_elements k q' = scan_elements n q'" if "scan_json n s = Some (v, q)" "skip_ws q = c # q'" for v q c q'
      using Suc.IH(2) [of q' k] m(2) 2(1) skip_ws_Cons [OF that(2)] scan_shorter(1) [OF that(1)] by simp
    then show ?case unfolding m(1) scan_elements.simps v by (auto split: list.splits option.splits)
  next
    case 3
    then obtain k where m: "m = Suc k" "n \<le> k" by (cases m) auto
    show ?case
    proof (cases "\<exists>c q t p. skip_ws s = c # q \<and> c = CHR 0x22 \<and> scan_string q = Some (t, p) \<and> has_prefix (skip_ws p) '':''")
      case False
      then show ?thesis unfolding m(1) scan_members.simps by (auto split: list.splits option.splits)
    next
      case True
      then obtain q t p where q: "skip_ws s = CHR 0x22 # q" "scan_string q = Some (t, p)" "has_prefix (skip_ws p) '':''"
        by blast
      then obtain x where x: "skip_ws p = CHR '':'' # x"
        by (cases "skip_ws p") (auto simp: has_prefix_def)
      have len: "length x < length s"
        using skip_ws_Cons [OF q(1)] scan_string_shorter [OF q(2)] skip_ws_Cons [OF x] by simp
      have v: "scan_json k x = scan_json n x" using Suc.IH(1) [of x k] 3(1) m(2) len by simp
      have "scan_members k p' = scan_members n p'" if "scan_json n x = Some (v, p)" "skip_ws p = c # p'" for v p c p'
        using Suc.IH(3) [of p' k] m(2) 3(1) len skip_ws_Cons [OF that(2)] scan_shorter(1) [OF that(1)] by simp
      then show ?thesis unfolding m(1) scan_members.simps by (auto simp: q x v split: list.splits option.splits)
    qed
  }
qed simp_all

text \<open>So more fuel never changes what is read.\<close>

lemma parse_json_fuel:
  assumes "2 * length s + 2 \<le> n"
  shows "parse_json s = (case scan_json n s of None \<Rightarrow> None | Some (j, r) \<Rightarrow> if skip_ws r = [] then Some j else None)"
  using scan_fuel(1) [of s "2 * length s + 2" n] assms by (simp add: parse_json_def)

end
