(* ===== verification/Restriction_Journal.thy ===== *)
theory Restriction_Journal
  imports Json_Text Go_Time Sha256 "HOL-Library.List_Lexorder" "HOL-Library.Char_ord"
begin

text \<open>
  The restriction journal of the daemon (\<open>daemon/smart_access_restriction_store.go\<close>): a small document on
  disk that remembers, across crashes of the process, which profiles had a worker running and which
  restrictions were imposed on them. Also the identity of a lease as it is stored there
  (\<open>daemon/smart_access_runtime_renewal.go\<close>) and the two strict readers the daemon uses
  (\<open>daemon/smart_access_runtime_control.go\<close>). The mutex makes each operation one step. The file system is the
  content of the journal's file and, for every operation, whether reading and writing succeed; a write
  goes to a temporary file that replaces the journal only when all of it succeeded.
\<close>

section \<open>Strict objects, times and sorted maps\<close>

text \<open>
  \<open>smartAccessControlObject\<close> on the value that the text denotes: an object with exactly the given keys, each
  once.
\<close>

definition smartAccessControlObject :: "string list \<Rightarrow> json \<Rightarrow> (string \<times> json) list option" where
  "smartAccessControlObject names raw =
     (case raw of
        JObj kvs \<Rightarrow>
          if distinct (map fst kvs) \<and> length kvs = length names \<and> list_all (\<lambda>k. k \<in> set (map fst kvs)) names
          then Some kvs else None
      | _ \<Rightarrow> None)"

definition smartAccessControlTime :: "string \<Rightarrow> gotime option" where
  "smartAccessControlTime value =
     (case scan_time value of
        None \<Rightarrow> None
      | Some parsed \<Rightarrow> if format_time parsed = value then Some parsed else None)"

text \<open>The result of the parser where the caller ignores whether it succeeded.\<close>

definition control_time :: "string \<Rightarrow> gotime" where
  "control_time value = (case smartAccessControlTime value of None \<Rightarrow> zero_time | Some t \<Rightarrow> t)"

text \<open>A Go map with string keys, kept in the order of the keys in which \<open>json.Marshal\<close> writes it.\<close>

fun put :: "string \<Rightarrow> 'v \<Rightarrow> (string \<times> 'v) list \<Rightarrow> (string \<times> 'v) list" where
  "put k v [] = [(k, v)]"
| "put k v ((k', v') # m) =
     (if k = k' then (k, v) # m else if k < k' then (k, v) # (k', v') # m else (k', v') # put k v m)"

definition entry :: "(string \<times> string) list \<Rightarrow> string \<Rightarrow> string" where
  "entry m k = (case map_of m k of None \<Rightarrow> [] | Some v \<Rightarrow> v)"

definition sorted_map :: "(string \<times> 'v) list \<Rightarrow> bool" where
  "sorted_map m \<longleftrightarrow> sorted_wrt (<) (map fst m)"

text \<open>What \<open>json.Unmarshal\<close> stores in a field: \<open>null\<close> leaves the zero value.\<close>

definition as_string :: "json \<Rightarrow> string option" where
  "as_string j = (case j of JStr s \<Rightarrow> Some s | JNull \<Rightarrow> Some [] | _ \<Rightarrow> None)"

definition as_int :: "json \<Rightarrow> int option" where
  "as_int j = (case j of JNum n \<Rightarrow> read_int n | JNull \<Rightarrow> Some 0 | _ \<Rightarrow> None)"

definition as_bool :: "json \<Rightarrow> bool option" where
  "as_bool j = (case j of JBool b \<Rightarrow> Some b | JNull \<Rightarrow> Some False | _ \<Rightarrow> None)"

definition field_string :: "(string \<times> json) list \<Rightarrow> string \<Rightarrow> string" where
  "field_string kvs k = (case Option.bind (map_of kvs k) as_string of None \<Rightarrow> [] | Some s \<Rightarrow> s)"

definition field_int :: "(string \<times> json) list \<Rightarrow> string \<Rightarrow> int" where
  "field_int kvs k = (case Option.bind (map_of kvs k) as_int of None \<Rightarrow> 0 | Some i \<Rightarrow> i)"

definition field_bool :: "(string \<times> json) list \<Rightarrow> string \<Rightarrow> bool" where
  "field_bool kvs k = (case Option.bind (map_of kvs k) as_bool of None \<Rightarrow> False | Some b \<Rightarrow> b)"

definition smartAccessRuntimeDigest :: "string \<Rightarrow> bool" where
  "smartAccessRuntimeDigest s \<longleftrightarrow> length s = 64 \<and> list_all is_lower_hex s"

definition smartAccessLeaseID :: "string \<Rightarrow> bool" where
  "smartAccessLeaseID s \<longleftrightarrow> length s = 32 \<and> list_all is_lower_hex s"

definition routingCatalogServiceID :: "string \<Rightarrow> bool" where
  "routingCatalogServiceID s =
     (case s of
        [] \<Rightarrow> False
      | c # r \<Rightarrow> (is_lower_letter c \<or> is_digit c) \<and> length r \<le> 63
          \<and> list_all (\<lambda>x. is_lower_letter x \<or> is_digit x \<or> x \<in> {CHR ''.'', CHR ''_'', CHR ''-''}) r)"

section \<open>Lease identities\<close>

record lease_identity =
  li_LeaseID :: string
  li_Platform :: string
  li_Audience :: string
  li_ServiceID :: string
  li_ProviderID :: string
  li_PermissionID :: string
  li_CapabilityID :: string
  li_ProviderPolicyRevision :: int
  li_ProviderSecurityRevision :: int
  li_ProviderPolicySHA256 :: string
  li_IssuedAt :: string
  li_NewFlowsUntil :: string
  li_ActiveFlowsUntil :: string
  li_ProfileSHA256 :: string
  li_RouteMode :: string
  li_RuntimeScopeSHA256 :: string
  li_Origin :: string
  li_Family :: string
  li_Feature :: string
  li_ProviderRevision :: int
  li_PermissionRevision :: int
  li_CatalogRevision :: int
  li_CatalogSecurityRevision :: int

definition identity_fields :: "lease_identity \<Rightarrow> (string \<times> json) list" where
  "identity_fields l =
     [(''lease_id'', JStr (li_LeaseID l)), (''platform'', JStr (li_Platform l)), (''audience'', JStr (li_Audience l)),
      (''service_id'', JStr (li_ServiceID l)), (''provider_id'', JStr (li_ProviderID l)),
      (''permission_id'', JStr (li_PermissionID l)), (''capability_id'', JStr (li_CapabilityID l)),
      (''provider_policy_revision'', JNum (show_int (li_ProviderPolicyRevision l))),
      (''provider_security_revision'', JNum (show_int (li_ProviderSecurityRevision l))),
      (''provider_policy_sha256'', JStr (li_ProviderPolicySHA256 l)), (''issued_at'', JStr (li_IssuedAt l)),
      (''new_flows_until'', JStr (li_NewFlowsUntil l)), (''active_flows_until'', JStr (li_ActiveFlowsUntil l)),
      (''profile_sha256'', JStr (li_ProfileSHA256 l)), (''route_mode'', JStr (li_RouteMode l)),
      (''runtime_scope_sha256'', JStr (li_RuntimeScopeSHA256 l)), (''origin'', JStr (li_Origin l)),
      (''family'', JStr (li_Family l)), (''feature'', JStr (li_Feature l)),
      (''provider_revision'', JNum (show_int (li_ProviderRevision l))),
      (''permission_revision'', JNum (show_int (li_PermissionRevision l))),
      (''catalog_revision'', JNum (show_int (li_CatalogRevision l))),
      (''catalog_security_revision'', JNum (show_int (li_CatalogSecurityRevision l)))]"

definition identity_keys :: "string list" where
  "identity_keys = [''lease_id'', ''platform'', ''audience'', ''service_id'', ''provider_id'', ''permission_id'',
     ''capability_id'', ''provider_policy_revision'', ''provider_security_revision'', ''provider_policy_sha256'',
     ''issued_at'', ''new_flows_until'', ''active_flows_until'', ''profile_sha256'', ''route_mode'', ''runtime_scope_sha256'',
     ''origin'', ''family'', ''feature'', ''provider_revision'', ''permission_revision'', ''catalog_revision'',
     ''catalog_security_revision'']"

text \<open>The fields of type \<open>string\<close> and of type \<open>int64\<close>.\<close>

definition identity_strings :: "string list" where
  "identity_strings = [''lease_id'', ''platform'', ''audience'', ''service_id'', ''provider_id'', ''permission_id'',
     ''capability_id'', ''provider_policy_sha256'', ''issued_at'', ''new_flows_until'', ''active_flows_until'',
     ''profile_sha256'', ''route_mode'', ''runtime_scope_sha256'', ''origin'', ''family'', ''feature'']"

definition identity_numbers :: "string list" where
  "identity_numbers = [''provider_policy_revision'', ''provider_security_revision'', ''provider_revision'',
     ''permission_revision'', ''catalog_revision'', ''catalog_security_revision'']"

definition identity_of :: "(string \<times> json) list \<Rightarrow> lease_identity" where
  "identity_of f =
     \<lparr>li_LeaseID = field_string f ''lease_id'', li_Platform = field_string f ''platform'',
      li_Audience = field_string f ''audience'', li_ServiceID = field_string f ''service_id'',
      li_ProviderID = field_string f ''provider_id'', li_PermissionID = field_string f ''permission_id'',
      li_CapabilityID = field_string f ''capability_id'',
      li_ProviderPolicyRevision = field_int f ''provider_policy_revision'',
      li_ProviderSecurityRevision = field_int f ''provider_security_revision'',
      li_ProviderPolicySHA256 = field_string f ''provider_policy_sha256'', li_IssuedAt = field_string f ''issued_at'',
      li_NewFlowsUntil = field_string f ''new_flows_until'', li_ActiveFlowsUntil = field_string f ''active_flows_until'',
      li_ProfileSHA256 = field_string f ''profile_sha256'', li_RouteMode = field_string f ''route_mode'',
      li_RuntimeScopeSHA256 = field_string f ''runtime_scope_sha256'', li_Origin = field_string f ''origin'',
      li_Family = field_string f ''family'', li_Feature = field_string f ''feature'',
      li_ProviderRevision = field_int f ''provider_revision'', li_PermissionRevision = field_int f ''permission_revision'',
      li_CatalogRevision = field_int f ''catalog_revision'',
      li_CatalogSecurityRevision = field_int f ''catalog_security_revision''\<rparr>"

definition identity_times_ok :: "lease_identity \<Rightarrow> bool" where
  "identity_times_ok l =
     (case (smartAccessControlTime (li_IssuedAt l), smartAccessControlTime (li_NewFlowsUntil l),
            smartAccessControlTime (li_ActiveFlowsUntil l)) of
        (Some leaseIssued, Some newUntil, Some activeUntil) \<Rightarrow>
          time_year leaseIssued \<ge> 1 \<and> time_before leaseIssued newUntil \<and> \<not> time_before activeUntil newUntil
          \<and> time_sub newUntil leaseIssued \<le> 10 * minute \<and> time_sub activeUntil leaseIssued \<le> hour
      | _ \<Rightarrow> False)"

definition identity_ok :: "lease_identity \<Rightarrow> bool" where
  "identity_ok l \<longleftrightarrow>
     smartAccessLeaseID (li_LeaseID l)
     \<and> li_RouteMode l \<in> set [''selective'', ''smart_safe'']
     \<and> li_Platform l \<in> set [''android'', ''windows'']
     \<and> li_Audience l \<in> set [''lab'', ''production'']
     \<and> li_Family l \<in> set [''ipv4'', ''ipv6'']
     \<and> li_Origin l \<in> set [''current-origin'', ''brain-origin'', ''RU-origin'', ''synthetic'']
     \<and> li_Feature l \<in> set [''web_request'', ''login'', ''streaming'', ''websocket'', ''store'', ''gameplay'', ''cloud_gaming'']
     \<and> list_all routingCatalogServiceID [li_ServiceID l, li_ProviderID l, li_PermissionID l, li_CapabilityID l]
     \<and> list_all smartAccessRuntimeDigest [li_ProviderPolicySHA256 l, li_ProfileSHA256 l, li_RuntimeScopeSHA256 l]
     \<and> list_all (\<lambda>revision. \<not> (revision < 1 \<or> revision > 9007199254740991))
         [li_ProviderPolicyRevision l, li_ProviderSecurityRevision l, li_ProviderRevision l,
          li_PermissionRevision l, li_CatalogRevision l, li_CatalogSecurityRevision l]
     \<and> identity_times_ok l"

definition parseSmartAccessRuntimeLeaseIdentity :: "json \<Rightarrow> lease_identity option" where
  "parseSmartAccessRuntimeLeaseIdentity raw =
     (case smartAccessControlObject identity_keys raw of
        None \<Rightarrow> None
      | Some f \<Rightarrow>
          if \<not> list_all (\<lambda>k. Option.bind (map_of f k) as_string \<noteq> None) identity_strings
             \<or> \<not> list_all (\<lambda>k. Option.bind (map_of f k) as_int \<noteq> None) identity_numbers
             \<or> \<not> identity_ok (identity_of f)
          then None else Some (identity_of f))"

definition follows :: "lease_identity \<Rightarrow> lease_identity \<Rightarrow> bool" where
  "follows lease previous \<longleftrightarrow>
     li_Platform lease = li_Platform previous \<and> li_Audience lease = li_Audience previous
     \<and> li_ServiceID lease = li_ServiceID previous \<and> li_ProviderID lease = li_ProviderID previous
     \<and> li_PermissionID lease = li_PermissionID previous \<and> li_CapabilityID lease = li_CapabilityID previous
     \<and> li_ProfileSHA256 lease = li_ProfileSHA256 previous \<and> li_RouteMode lease = li_RouteMode previous
     \<and> li_RuntimeScopeSHA256 lease = li_RuntimeScopeSHA256 previous \<and> li_Origin lease = li_Origin previous
     \<and> li_Family lease = li_Family previous \<and> li_Feature lease = li_Feature previous
     \<and> li_ProviderRevision lease \<ge> li_ProviderRevision previous
     \<and> li_PermissionRevision lease \<ge> li_PermissionRevision previous
     \<and> li_ProviderPolicyRevision lease \<ge> li_ProviderPolicyRevision previous
     \<and> li_ProviderSecurityRevision lease \<ge> li_ProviderSecurityRevision previous
     \<and> li_CatalogRevision lease \<ge> li_CatalogRevision previous
     \<and> li_CatalogSecurityRevision lease \<ge> li_CatalogSecurityRevision previous"

definition canonicalObject :: "lease_identity \<Rightarrow> json" where
  "canonicalObject lease = JObj (fold (\<lambda>(k, v). put k v) (identity_fields lease) [])"

section \<open>The document\<close>

record restriction =
  rr_ProfileDigest :: string
  rr_CatalogSHA256 :: string
  rr_Generation :: string
  rr_Pending :: bool
  rr_PolicyAction :: string
  rr_CatalogWithdrawn :: bool
  rr_ExpiresAt :: string
  rr_Leases :: "lease_identity list"
  rr_ScopeActions :: "(string \<times> string) list"

definition smartAccessRestrictionSnapshotLimit :: nat where
  "smartAccessRestrictionSnapshotLimit = 1024 * 1024"

definition smartAccessRestrictionDocumentLimit :: nat where
  "smartAccessRestrictionDocumentLimit = smartAccessRestrictionSnapshotLimit - 1024"

definition record_json :: "restriction \<Rightarrow> json" where
  "record_json r =
     JObj [(''profile_digest'', JStr (rr_ProfileDigest r)), (''catalog_sha256'', JStr (rr_CatalogSHA256 r)),
       (''generation'', JStr (rr_Generation r)), (''pending'', JBool (rr_Pending r)),
       (''policy_action'', JStr (rr_PolicyAction r)), (''catalog_withdrawn'', JBool (rr_CatalogWithdrawn r)),
       (''expires_at'', JStr (rr_ExpiresAt r)), (''leases'', JArr (map (\<lambda>l. JObj (identity_fields l)) (rr_Leases r))),
       (''scope_actions'', JObj (map (\<lambda>(k, v). (k, JStr v)) (rr_ScopeActions r)))]"

definition document_json :: "restriction list \<Rightarrow> json" where
  "document_json records = JObj [(''version'', JNum (show_int 1)), (''records'', JArr (map record_json records))]"

definition record_keys :: "string list" where
  "record_keys = [''profile_digest'', ''catalog_sha256'', ''generation'', ''pending'', ''policy_action'',
     ''catalog_withdrawn'', ''expires_at'', ''leases'', ''scope_actions'']"

text \<open>The leases of a stored record: at most 256, different, none outliving the record.\<close>

fun load_leases :: "string \<Rightarrow> string list \<Rightarrow> json list \<Rightarrow> lease_identity list option" where
  "load_leases expiresAt leaseIDs [] = Some []"
| "load_leases expiresAt leaseIDs (rawLease # raws) =
     (case parseSmartAccessRuntimeLeaseIdentity rawLease of
        None \<Rightarrow> None
      | Some lease \<Rightarrow>
          if li_LeaseID lease \<in> set leaseIDs then None
          else (case smartAccessControlTime expiresAt of
             None \<Rightarrow> None
           | Some expires \<Rightarrow>
               if time_after (control_time (li_ActiveFlowsUntil lease)) expires then None
               else map_option (\<lambda>ls. lease # ls) (load_leases expiresAt (li_LeaseID lease # leaseIDs) raws)))"

text \<open>The map of scope actions; a key that occurs twice is refused by the strict reader.\<close>

definition load_scopes :: "json \<Rightarrow> (string \<times> string) list option" where
  "load_scopes raw =
     (case raw of
        JObj kvs \<Rightarrow>
          if \<not> list_all (\<lambda>kv. as_string (snd kv) \<noteq> None) kvs then None
          else let m = fold (\<lambda>(k, v). put k (the (as_string v))) kvs [] in
            if length m > 256
               \<or> \<not> list_all (\<lambda>(scope, action). smartAccessRuntimeDigest scope \<and> (action = ''drain'' \<or> action = ''terminate'')) m
               \<or> smartAccessControlObject (map fst m) raw = None
            then None else Some m
      | _ \<Rightarrow> None)"

definition record_head_ok :: "string list \<Rightarrow> string \<Rightarrow> string \<Rightarrow> string \<Rightarrow> string \<Rightarrow> bool \<Rightarrow> string \<Rightarrow> bool" where
  "record_head_ok seen digest catalog generation action withdrawn expiresAt \<longleftrightarrow>
     \<not> (\<not> smartAccessRuntimeDigest digest \<or> (catalog \<noteq> [] \<and> \<not> smartAccessRuntimeDigest catalog)
        \<or> \<not> smartAccessLeaseID generation \<or> digest \<in> set seen
        \<or> (action \<noteq> ''none'' \<and> action \<noteq> ''drain'' \<and> action \<noteq> ''terminate'')
        \<or> (withdrawn \<and> action \<noteq> ''terminate''))
     \<and> \<not> (expiresAt \<noteq> [] \<and> smartAccessControlTime expiresAt = None)"

definition load_record :: "string list \<Rightarrow> json \<Rightarrow> restriction option" where
  "load_record seen raw =
     (case smartAccessControlObject record_keys raw of
        None \<Rightarrow> None
      | Some f \<Rightarrow>
          if list_ex (\<lambda>kv. snd kv = JNull) f then None
          else if \<not> list_all (\<lambda>k. Option.bind (map_of f k) as_string \<noteq> None)
                   [''profile_digest'', ''catalog_sha256'', ''generation'', ''policy_action'', ''expires_at'']
             \<or> \<not> list_all (\<lambda>k. Option.bind (map_of f k) as_bool \<noteq> None) [''pending'', ''catalog_withdrawn''] then None
          else let digest = field_string f ''profile_digest''; catalog = field_string f ''catalog_sha256'';
                   generation = field_string f ''generation''; action = field_string f ''policy_action'';
                   withdrawn = field_bool f ''catalog_withdrawn''; expiresAt = field_string f ''expires_at'' in
          if \<not> record_head_ok seen digest catalog generation action withdrawn expiresAt then None
          else (case map_of f ''leases'' of
             Some (JArr raws) \<Rightarrow>
               if length raws > 256 then None
               else (case load_leases expiresAt [] raws of
                  None \<Rightarrow> None
                | Some leases \<Rightarrow>
                    (case Option.bind (map_of f ''scope_actions'') load_scopes of
                       None \<Rightarrow> None
                     | Some scopes \<Rightarrow>
                         Some \<lparr>rr_ProfileDigest = digest, rr_CatalogSHA256 = catalog, rr_Generation = generation,
                           rr_Pending = field_bool f ''pending'', rr_PolicyAction = action, rr_CatalogWithdrawn = withdrawn,
                           rr_ExpiresAt = expiresAt, rr_Leases = leases, rr_ScopeActions = scopes\<rparr>))
           | _ \<Rightarrow> None))"

fun load_records :: "string list \<Rightarrow> json list \<Rightarrow> restriction list option" where
  "load_records seen [] = Some []"
| "load_records seen (raw # raws) =
     (case load_record seen raw of
        None \<Rightarrow> None
      | Some r \<Rightarrow> map_option (\<lambda>rs. r # rs) (load_records (rr_ProfileDigest r # seen) raws))"

definition load_document :: "string \<Rightarrow> restriction list option" where
  "load_document data =
     (if length data > smartAccessRestrictionDocumentLimit then None
      else case Option.bind (parse_json data) (smartAccessControlObject [''version'', ''records'']) of
        None \<Rightarrow> None
      | Some object \<Rightarrow>
          if Option.bind (map_of object ''version'') as_int \<noteq> Some 1 then None
          else (case map_of object ''records'' of
             Some (JArr raws) \<Rightarrow> if length raws > 3 then None else load_records [] raws
           | _ \<Rightarrow> None))"

section \<open>Operations\<close>

datatype journal_error =
  StorageUnavailable | StorageInvalid | RecoveryRequired | BindingInvalid | RenewalRecoveryRequired | AckInvalid

text \<open>The journal of one path and the content of its file.\<close>

record journal =
  jn_loaded :: bool
  jn_records :: "restriction list"
  jn_live :: "string \<Rightarrow> string option"
  jn_unsettled :: "string set"
  jn_file :: "string option"

definition new_journal :: "string option \<Rightarrow> journal" where
  "new_journal file = \<lparr>jn_loaded = False, jn_records = [], jn_live = (\<lambda>_. None), jn_unsettled = {}, jn_file = file\<rparr>"

text \<open>
  The journals of the process by path. \<open>path_of\<close> is the absolute path of the document in a directory,
  if it can be found, and \<open>files\<close> the file system.
\<close>

definition smartAccessRestrictionStore ::
    "(string \<Rightarrow> string option) \<Rightarrow> (string \<Rightarrow> string option) \<Rightarrow> string \<Rightarrow> (string \<Rightarrow> journal option)
      \<Rightarrow> (journal_error + string) \<times> (string \<Rightarrow> journal option)" where
  "smartAccessRestrictionStore path_of files directory byPath =
     (if directory = [] then (Inl StorageUnavailable, byPath)
      else case path_of directory of
        None \<Rightarrow> (Inl StorageUnavailable, byPath)
      | Some path \<Rightarrow>
          (Inr path, if byPath path = None then byPath(path \<mapsto> new_journal (files path)) else byPath))"

text \<open>\<open>readable\<close> says whether an existing file can be opened and read.\<close>

definition loadLocked :: "bool \<Rightarrow> journal \<Rightarrow> journal_error option \<times> journal" where
  "loadLocked readable s =
     (if jn_loaded s then (None, s)
      else case jn_file s of
        None \<Rightarrow> (None, s\<lparr>jn_records := [], jn_loaded := True\<rparr>)
      | Some data \<Rightarrow>
          if \<not> readable then (Some StorageInvalid, s)
          else (case load_document data of
             None \<Rightarrow> (Some StorageInvalid, s)
           | Some rs \<Rightarrow> (None, s\<lparr>jn_records := rs, jn_loaded := True\<rparr>)))"

text \<open>
  \<open>writable\<close> says whether the temporary file can be created, written, synchronised, closed and renamed.
  The result says whether the write succeeded.
\<close>

definition writeLocked :: "bool \<Rightarrow> journal \<Rightarrow> bool \<times> journal" where
  "writeLocked writable s =
     (let data = print_json (document_json (jn_records s)) in
      if length data > smartAccessRestrictionDocumentLimit \<or> \<not> writable then (False, s)
      else (True, s\<lparr>jn_file := Some data\<rparr>))"

text \<open>The index of the first record that satisfies a condition.\<close>

fun position :: "('a \<Rightarrow> bool) \<Rightarrow> 'a list \<Rightarrow> nat option" where
  "position P [] = None"
| "position P (x # xs) = (if P x then Some 0 else map_option Suc (position P xs))"

definition record_index :: "string \<Rightarrow> string \<Rightarrow> journal \<Rightarrow> nat option" where
  "record_index profileDigest generation s =
     position (\<lambda>r. rr_ProfileDigest r = profileDigest \<and> rr_Generation r = generation) (jn_records s)"

text \<open>The conditions under which \<open>begin\<close> refuses a worker, on a loaded journal.\<close>

definition begin_refusal :: "string \<Rightarrow> string \<Rightarrow> journal \<Rightarrow> journal_error option" where
  "begin_refusal profileDigest catalogSHA256 s =
     (if profileDigest \<in> jn_unsettled s then Some RecoveryRequired
      else case position (\<lambda>r. rr_ProfileDigest r = profileDigest) (jn_records s) of
        None \<Rightarrow> if length (jn_records s) \<ge> 3 then Some RecoveryRequired else None
      | Some i \<Rightarrow>
          let r = jn_records s ! i in
          if rr_Pending r \<and> jn_live s profileDigest = None then Some RecoveryRequired
          else if (rr_PolicyAction r \<noteq> ''none'' \<or> rr_CatalogWithdrawn r \<or> length (rr_ScopeActions r) \<noteq> 0)
             \<and> jn_live s profileDigest = None then Some RecoveryRequired
          else if rr_CatalogSHA256 r \<noteq> [] \<and> rr_CatalogSHA256 r \<noteq> catalogSHA256 then Some BindingInvalid
          else None)"

definition new_record :: "string \<Rightarrow> string \<Rightarrow> restriction" where
  "new_record profileDigest catalogSHA256 =
     \<lparr>rr_ProfileDigest = profileDigest, rr_CatalogSHA256 = catalogSHA256, rr_Generation = [], rr_Pending = False,
      rr_PolicyAction = ''none'', rr_CatalogWithdrawn = False, rr_ExpiresAt = [], rr_Leases = [], rr_ScopeActions = []\<rparr>"

definition begun_record :: "string \<Rightarrow> string \<Rightarrow> gotime \<Rightarrow> restriction \<Rightarrow> restriction" where
  "begun_record generation catalogSHA256 expires r =
     (let r1 = r\<lparr>rr_Generation := generation, rr_Pending := True\<rparr>;
          r2 = (if rr_CatalogSHA256 r1 = [] then r1\<lparr>rr_CatalogSHA256 := catalogSHA256\<rparr> else r1)
      in if \<not> is_zero expires \<and> time_after expires (control_time (rr_ExpiresAt r2))
         then r2\<lparr>rr_ExpiresAt := format_time expires\<rparr> else r2)"

text \<open>\<open>begin\<close>: \<open>random\<close> is the new generation, if the random source works.\<close>

definition begin_worker ::
    "bool \<Rightarrow> string option \<Rightarrow> bool \<Rightarrow> string \<Rightarrow> string \<Rightarrow> gotime \<Rightarrow> journal \<Rightarrow> (journal_error + string) \<times> journal" where
  "begin_worker readable random writable profileDigest catalogSHA256 expires s =
     (case loadLocked readable s of
        (Some e, s1) \<Rightarrow> (Inl e, s1)
      | (None, s1) \<Rightarrow>
          (case begin_refusal profileDigest catalogSHA256 s1 of
             Some e \<Rightarrow> (Inl e, s1)
           | None \<Rightarrow>
               (case random of
                  None \<Rightarrow> (Inl StorageUnavailable, s1)
                | Some generation \<Rightarrow>
                    let previous = jn_records s1;
                        index = position (\<lambda>r. rr_ProfileDigest r = profileDigest) previous;
                        rs = (if index = None then previous @ [new_record profileDigest catalogSHA256] else previous);
                        i = (case index of None \<Rightarrow> length previous | Some k \<Rightarrow> k);
                        s2 = s1\<lparr>jn_records := rs[i := begun_record generation catalogSHA256 expires (rs ! i)]\<rparr>
                    in (case writeLocked writable s2 of
                          (False, s3) \<Rightarrow> (Inl StorageUnavailable, s3\<lparr>jn_records := previous\<rparr>)
                        | (True, s3) \<Rightarrow> (Inr generation, s3\<lparr>jn_live := (jn_live s3)(profileDigest \<mapsto> generation)\<rparr>)))))"

definition extendExpiry :: "bool \<Rightarrow> string \<Rightarrow> string \<Rightarrow> gotime \<Rightarrow> journal \<Rightarrow> journal_error option \<times> journal" where
  "extendExpiry writable profileDigest generation expires s =
     (if jn_live s profileDigest \<noteq> Some generation then (None, s)
      else case record_index profileDigest generation s of
        None \<Rightarrow> (Some RecoveryRequired, s)
      | Some i \<Rightarrow>
          let r = jn_records s ! i in
          if \<not> time_after expires (control_time (rr_ExpiresAt r)) then (None, s)
          else let s1 = s\<lparr>jn_records := (jn_records s)[i := r\<lparr>rr_ExpiresAt := format_time expires\<rparr>]\<rparr> in
            (case writeLocked writable s1 of
               (False, s2) \<Rightarrow> (Some StorageUnavailable, s2\<lparr>jn_records := jn_records s\<rparr>)
             | (True, s2) \<Rightarrow> (None, s2)))"

text \<open>The leases that a renewal keeps: still active, current, or one of the two generations.\<close>

definition retained_leases ::
    "gotime \<Rightarrow> lease_identity \<Rightarrow> lease_identity \<Rightarrow> string set \<Rightarrow> lease_identity list \<Rightarrow> (string \<times> lease_identity) list" where
  "retained_leases now previous next currentIDs leases =
     fold (\<lambda>lease m. if time_before now (control_time (li_ActiveFlowsUntil lease)) \<or> li_LeaseID lease \<in> currentIDs
                         \<or> li_LeaseID lease = li_LeaseID previous \<or> li_LeaseID lease = li_LeaseID next
                     then put (li_LeaseID lease) lease m else m) leases []"

definition add_lease :: "lease_identity \<Rightarrow> (string \<times> lease_identity) list \<Rightarrow> (string \<times> lease_identity) list option" where
  "add_lease lease m =
     (case map_of m (li_LeaseID lease) of
        Some retained \<Rightarrow> if retained \<noteq> lease then None else Some (put (li_LeaseID lease) lease m)
      | None \<Rightarrow> Some (put (li_LeaseID lease) lease m))"

definition latest_expiry :: "string \<Rightarrow> lease_identity list \<Rightarrow> gotime" where
  "latest_expiry expiresAt leases =
     fold (\<lambda>lease expires. let activeUntil = control_time (li_ActiveFlowsUntil lease) in
             if time_after activeUntil expires then activeUntil else expires) leases (control_time expiresAt)"

definition retainRenewal ::
    "bool \<Rightarrow> gotime \<Rightarrow> string \<Rightarrow> string \<Rightarrow> lease_identity \<Rightarrow> lease_identity \<Rightarrow> string set \<Rightarrow> journal
      \<Rightarrow> journal_error option \<times> journal" where
  "retainRenewal writable now profileDigest generation previous next currentIDs s =
     (if jn_live s profileDigest \<noteq> Some generation \<or> li_LeaseID previous = li_LeaseID next \<or> \<not> follows next previous
      then (Some RenewalRecoveryRequired, s)
      else case record_index profileDigest generation s of
        None \<Rightarrow> (Some RenewalRecoveryRequired, s)
      | Some i \<Rightarrow>
          let r = jn_records s ! i in
          if \<not> rr_Pending r \<or> rr_PolicyAction r \<noteq> ''none'' \<or> rr_CatalogWithdrawn r
             \<or> entry (rr_ScopeActions r) (li_RuntimeScopeSHA256 next) \<noteq> []
          then (Some RenewalRecoveryRequired, s)
          else (case Option.bind (add_lease previous (retained_leases now previous next currentIDs (rr_Leases r))) (add_lease next) of
             None \<Rightarrow> (Some RenewalRecoveryRequired, s)
           | Some leases \<Rightarrow>
               if length leases > 256 then (Some RenewalRecoveryRequired, s)
               else let r1 = r\<lparr>rr_Leases := map snd leases,
                           rr_ExpiresAt := format_time (latest_expiry (rr_ExpiresAt r) (map snd leases))\<rparr>;
                        s1 = s\<lparr>jn_records := (jn_records s)[i := r1]\<rparr>
                 in (case writeLocked writable s1 of
                       (False, s2) \<Rightarrow> (Some StorageUnavailable, s2\<lparr>jn_records := jn_records s\<rparr>)
                     | (True, s2) \<Rightarrow> (None, s2))))"

definition restricted_record :: "string \<Rightarrow> restriction \<Rightarrow> restriction" where
  "restricted_record reason r =
     (let r1 = (if reason = ''catalog_disabled'' then r\<lparr>rr_CatalogWithdrawn := True\<rparr> else r) in
      if reason \<noteq> ''issuance_disabled'' then r1\<lparr>rr_PolicyAction := ''terminate''\<rparr>
      else if rr_PolicyAction r1 = ''none'' then r1\<lparr>rr_PolicyAction := ''drain''\<rparr> else r1)"

definition restrict :: "bool \<Rightarrow> string \<Rightarrow> string \<Rightarrow> string \<Rightarrow> journal \<Rightarrow> journal" where
  "restrict writable profileDigest generation reason s =
     (case record_index profileDigest generation s of
        None \<Rightarrow> s
      | Some i \<Rightarrow>
          snd (writeLocked writable
            (s\<lparr>jn_records := (jn_records s)[i := restricted_record reason (jn_records s ! i)]\<rparr>)))"

definition restrictScope :: "bool \<Rightarrow> string \<Rightarrow> string \<Rightarrow> string \<Rightarrow> string \<Rightarrow> journal \<Rightarrow> journal" where
  "restrictScope writable profileDigest generation scope action s =
     (case record_index profileDigest generation s of
        None \<Rightarrow> s
      | Some i \<Rightarrow>
          let r = jn_records s ! i in
          if entry (rr_ScopeActions r) scope = [] \<and> length (rr_ScopeActions r) \<ge> 256
          then s\<lparr>jn_unsettled := insert profileDigest (jn_unsettled s)\<rparr>
          else let r1 = (if entry (rr_ScopeActions r) scope \<noteq> ''terminate''
                         then r\<lparr>rr_ScopeActions := put scope action (rr_ScopeActions r)\<rparr> else r)
            in snd (writeLocked writable (s\<lparr>jn_records := (jn_records s)[i := r1]\<rparr>)))"

definition finish :: "bool \<Rightarrow> string \<Rightarrow> string \<Rightarrow> journal \<Rightarrow> journal" where
  "finish writable profileDigest generation s =
     (if jn_live s profileDigest \<noteq> Some generation then s
      else let s1 = s\<lparr>jn_live := (jn_live s)(profileDigest := None)\<rparr> in
        (case position (\<lambda>r. rr_ProfileDigest r = profileDigest) (jn_records s1) of
           None \<Rightarrow> s1
         | Some i \<Rightarrow>
             snd (writeLocked writable (s1\<lparr>jn_records := (jn_records s1)
               [i := (jn_records s1 ! i)\<lparr>rr_Pending := profileDigest \<in> jn_unsettled s1\<rparr>]\<rparr>))))"

section \<open>Snapshots\<close>

definition live_record :: "journal \<Rightarrow> restriction \<Rightarrow> bool" where
  "live_record s r \<longleftrightarrow> jn_live s (rr_ProfileDigest r) = Some (rr_Generation r)"

text \<open>An exported record, its keys in order.\<close>

definition entry_json :: "journal \<Rightarrow> restriction \<Rightarrow> json" where
  "entry_json s r =
     JObj [(''catalog_sha256'', JStr (rr_CatalogSHA256 r)), (''catalog_withdrawn'', JBool (rr_CatalogWithdrawn r)),
       (''expires_at'', JStr (rr_ExpiresAt r)), (''generation'', JStr (rr_Generation r)),
       (''leases'', JArr (map canonicalObject (rr_Leases r))), (''live'', JBool (live_record s r)),
       (''pending'', JBool (rr_Pending r)), (''policy_action'', JStr (rr_PolicyAction r)),
       (''profile_digest'', JStr (rr_ProfileDigest r)),
       (''scope_actions'', JObj (map (\<lambda>(k, v). (k, JStr v)) (rr_ScopeActions r)))]"

definition entries_json :: "journal \<Rightarrow> json" where
  "entries_json s = JArr (map (entry_json s) (sort_key rr_ProfileDigest (jn_records s)))"

definition hex_encode :: "bytes \<Rightarrow> string" where
  "hex_encode bs = concat (map (\<lambda>b. [hex_digit (unat b div 16), hex_digit (unat b mod 16)]) bs)"

definition string_bytes :: "string \<Rightarrow> bytes" where
  "string_bytes s = map (\<lambda>c. word_of_nat (of_char c)) s"

definition snapshot_digest :: "journal \<Rightarrow> string" where
  "snapshot_digest s = hex_encode (sha256 (string_bytes (print_json (entries_json s))))"

definition snapshot_json :: "journal \<Rightarrow> json" where
  "snapshot_json s =
     JObj [(''entries'', entries_json s), (''schema'', JNum (show_int 1)), (''snapshot_sha256'', JStr (snapshot_digest s))]"

definition snapshotLocked :: "bool \<Rightarrow> bool \<Rightarrow> journal \<Rightarrow> (journal_error + string \<times> string) \<times> journal" where
  "snapshotLocked readable writable s =
     (case loadLocked readable s of
        (Some e, s1) \<Rightarrow> (Inl e, s1)
      | (None, s1) \<Rightarrow>
          (case writeLocked writable s1 of
             (False, s2) \<Rightarrow> (Inl StorageUnavailable, s2)
           | (True, s2) \<Rightarrow>
               let encoded = print_json (snapshot_json s2) in
               if length encoded > smartAccessRestrictionSnapshotLimit then (Inl StorageInvalid, s2)
               else (Inr (encoded, snapshot_digest s2), s2)))"

definition ReadSmartAccessRestrictions :: "bool \<Rightarrow> bool \<Rightarrow> journal \<Rightarrow> (journal_error + string) \<times> journal" where
  "ReadSmartAccessRestrictions readable writable s =
     (case snapshotLocked readable writable s of
        (Inl e, s1) \<Rightarrow> (Inl e, s1)
      | (Inr (encoded, _), s1) \<Rightarrow> (Inr encoded, s1))"

text \<open>The two writes may fail separately.\<close>

definition AcknowledgeSmartAccessRestrictions ::
    "bool \<Rightarrow> bool \<Rightarrow> bool \<Rightarrow> string \<Rightarrow> journal \<Rightarrow> (journal_error + bool) \<times> journal" where
  "AcknowledgeSmartAccessRestrictions readable writable writable' snapshotSHA256 s =
     (if \<not> smartAccessRuntimeDigest snapshotSHA256 then (Inl AckInvalid, s)
      else case snapshotLocked readable writable s of
        (Inl e, s1) \<Rightarrow> (Inl e, s1)
      | (Inr (_, digest), s1) \<Rightarrow>
          if digest \<noteq> snapshotSHA256 then (Inr False, s1)
          else let previous = jn_records s1 in
            (case writeLocked writable' (s1\<lparr>jn_records := filter (live_record s1) previous\<rparr>) of
               (False, s2) \<Rightarrow> (Inl StorageUnavailable, s2\<lparr>jn_records := previous\<rparr>)
             | (True, s2) \<Rightarrow>
                 (Inr True, s2\<lparr>jn_unsettled := jn_unsettled s2
                    - set (map rr_ProfileDigest (filter (\<lambda>r. \<not> live_record s2 r) previous))\<rparr>)))"

section \<open>A written document is read back\<close>

lemma map_of_put [simp]: "map_of (put k v m) x = (if x = k then Some v else map_of m x)"
  by (induction k v m rule: put.induct) auto

lemma keys_put: "set (map fst (put k v m)) = insert k (set (map fst m))"
  by (induction k v m rule: put.induct) auto

lemma sorted_map_put [simp]: "sorted_map m \<Longrightarrow> sorted_map (put k v m)"
proof (induction k v m rule: put.induct)
  case (2 k v k' v' m)
  then show ?case using keys_put [of k v m] by (auto simp: sorted_map_def)
qed (simp add: sorted_map_def)

lemma put_last:
  assumes "\<forall>x \<in> set (map fst m). x < k"
  shows "put k v m = m @ [(k, v)]"
  using assms by (induction m) auto

lemma put_sorted: "sorted_map (m @ ps) \<Longrightarrow> fold (\<lambda>(k, v). put k v) ps m = m @ ps"
proof (induction ps arbitrary: m)
  case (Cons p ps)
  obtain k v where p: "p = (k, v)" by (cases p)
  have "\<forall>x \<in> set (map fst m). x < k" using Cons.prems by (auto simp: sorted_map_def sorted_wrt_append p)
  then have "put k v m = m @ [p]" using put_last by (simp add: p)
  then show ?case using Cons by (simp add: p)
qed simp

lemma sorted_map_distinct: "sorted_map m \<Longrightarrow> distinct (map fst m)"
  by (simp add: sorted_map_def strict_sorted_iff)

lemma length_put: "length (put k v m) \<le> Suc (length m)"
  by (induction k v m rule: put.induct) auto

lemma length_put_old: "sorted_map m \<Longrightarrow> map_of m k \<noteq> None \<Longrightarrow> length (put k v m) = length m"
proof (induction k v m rule: put.induct)
  case (2 k v k' v' m)
  have "k' < k" if "k \<noteq> k'"
  proof -
    have "k \<in> set (map fst m)" using 2(3) that by (auto simp: map_of_eq_None_iff split: if_splits)
    then show ?thesis using 2(2) by (auto simp: sorted_map_def)
  qed
  then show ?case using 2 by (cases "k = k'") (auto simp: sorted_map_def)
qed simp

lemma set_put: "set (put k v m) \<subseteq> insert (k, v) (set m)"
  by (induction k v m rule: put.induct) auto

lemma control_object_subset:
  assumes "distinct (map fst kvs)" and "set (map fst kvs) = set ks" and "distinct ks"
  shows "smartAccessControlObject ks (JObj kvs) = Some kvs"
proof -
  have "length kvs = length ks" using assms by (metis distinct_card length_map)
  with assms show ?thesis by (simp add: smartAccessControlObject_def list_all_iff)
qed

lemma control_object_exact:
  "distinct ks \<Longrightarrow> map fst kvs = ks \<Longrightarrow> smartAccessControlObject ks (JObj kvs) = Some kvs"
  by (rule control_object_subset) simp_all

lemma map_fst_identity: "map fst (identity_fields l) = identity_keys"
  by (simp add: identity_fields_def identity_keys_def)

lemma distinct_identity_keys: "distinct identity_keys"
  by (simp add: identity_keys_def)

lemma identity_keys_parts: "set identity_strings \<union> set identity_numbers = set identity_keys"
  by (auto simp: identity_strings_def identity_numbers_def identity_keys_def)

lemma identity_strings_read:
  "field_string (identity_fields l) ''lease_id'' = li_LeaseID l"
  "field_string (identity_fields l) ''platform'' = li_Platform l"
  "field_string (identity_fields l) ''audience'' = li_Audience l"
  "field_string (identity_fields l) ''service_id'' = li_ServiceID l"
  "field_string (identity_fields l) ''provider_id'' = li_ProviderID l"
  "field_string (identity_fields l) ''permission_id'' = li_PermissionID l"
  "field_string (identity_fields l) ''capability_id'' = li_CapabilityID l"
  "field_string (identity_fields l) ''provider_policy_sha256'' = li_ProviderPolicySHA256 l"
  "field_string (identity_fields l) ''issued_at'' = li_IssuedAt l"
  "field_string (identity_fields l) ''new_flows_until'' = li_NewFlowsUntil l"
  "field_string (identity_fields l) ''active_flows_until'' = li_ActiveFlowsUntil l"
  "field_string (identity_fields l) ''profile_sha256'' = li_ProfileSHA256 l"
  "field_string (identity_fields l) ''route_mode'' = li_RouteMode l"
  "field_string (identity_fields l) ''runtime_scope_sha256'' = li_RuntimeScopeSHA256 l"
  "field_string (identity_fields l) ''origin'' = li_Origin l"
  "field_string (identity_fields l) ''family'' = li_Family l"
  "field_string (identity_fields l) ''feature'' = li_Feature l"
  by (simp_all add: identity_fields_def field_string_def as_string_def)

lemma identity_numbers_read:
  assumes "identity_ok l"
  shows "field_int (identity_fields l) ''provider_policy_revision'' = li_ProviderPolicyRevision l"
    "field_int (identity_fields l) ''provider_security_revision'' = li_ProviderSecurityRevision l"
    "field_int (identity_fields l) ''provider_revision'' = li_ProviderRevision l"
    "field_int (identity_fields l) ''permission_revision'' = li_PermissionRevision l"
    "field_int (identity_fields l) ''catalog_revision'' = li_CatalogRevision l"
    "field_int (identity_fields l) ''catalog_security_revision'' = li_CatalogSecurityRevision l"
  using assms by (simp_all add: identity_fields_def field_int_def as_int_def identity_ok_def read_show_int)

lemma identity_typed:
  assumes "identity_ok l"
  shows "list_all (\<lambda>k. Option.bind (map_of (identity_fields l) k) as_string \<noteq> None) identity_strings"
    and "list_all (\<lambda>k. Option.bind (map_of (identity_fields l) k) as_int \<noteq> None) identity_numbers"
  using assms
  by (simp_all add: identity_strings_def identity_numbers_def identity_fields_def as_string_def as_int_def
      identity_ok_def read_show_int)

lemma identity_of_fields: "identity_ok l \<Longrightarrow> identity_of (identity_fields l) = l"
  by (simp add: identity_of_def identity_strings_read identity_numbers_read)

lemma identity_parse:
  assumes "identity_ok l"
  shows "parseSmartAccessRuntimeLeaseIdentity (JObj (identity_fields l)) = Some l"
proof -
  have "smartAccessControlObject identity_keys (JObj (identity_fields l)) = Some (identity_fields l)"
    using distinct_identity_keys map_fst_identity by (rule control_object_exact)
  then show ?thesis using identity_typed [OF assms] assms
    by (simp add: parseSmartAccessRuntimeLeaseIdentity_def identity_of_fields)
qed

definition lease_within :: "string \<Rightarrow> lease_identity \<Rightarrow> bool" where
  "lease_within expiresAt l \<longleftrightarrow> identity_ok l \<and> smartAccessControlTime expiresAt \<noteq> None
     \<and> \<not> time_after (control_time (li_ActiveFlowsUntil l)) (control_time expiresAt)"

definition scope_ok :: "string \<times> string \<Rightarrow> bool" where
  "scope_ok = (\<lambda>(scope, action). smartAccessRuntimeDigest scope \<and> (action = ''drain'' \<or> action = ''terminate''))"

definition record_ok :: "restriction \<Rightarrow> bool" where
  "record_ok r \<longleftrightarrow>
     smartAccessRuntimeDigest (rr_ProfileDigest r)
     \<and> (rr_CatalogSHA256 r = [] \<or> smartAccessRuntimeDigest (rr_CatalogSHA256 r))
     \<and> smartAccessLeaseID (rr_Generation r)
     \<and> (rr_PolicyAction r = ''none'' \<or> rr_PolicyAction r = ''drain'' \<or> rr_PolicyAction r = ''terminate'')
     \<and> (rr_CatalogWithdrawn r \<longrightarrow> rr_PolicyAction r = ''terminate'')
     \<and> (rr_ExpiresAt r = [] \<or> smartAccessControlTime (rr_ExpiresAt r) \<noteq> None)
     \<and> length (rr_Leases r) \<le> 256 \<and> distinct (map li_LeaseID (rr_Leases r))
     \<and> list_all (lease_within (rr_ExpiresAt r)) (rr_Leases r)
     \<and> sorted_map (rr_ScopeActions r) \<and> length (rr_ScopeActions r) \<le> 256 \<and> list_all scope_ok (rr_ScopeActions r)"

definition document_ok :: "restriction list \<Rightarrow> bool" where
  "document_ok rs \<longleftrightarrow> length rs \<le> 3 \<and> distinct (map rr_ProfileDigest rs) \<and> list_all record_ok rs"

lemma load_leases_iff:
  "load_leases e ids raws = Some ls \<longleftrightarrow>
     map parseSmartAccessRuntimeLeaseIdentity raws = map Some ls \<and> distinct (map li_LeaseID ls)
     \<and> set (map li_LeaseID ls) \<inter> set ids = {} \<and> (raws \<noteq> [] \<longrightarrow> smartAccessControlTime e \<noteq> None)
     \<and> list_all (\<lambda>l. \<not> time_after (control_time (li_ActiveFlowsUntil l)) (control_time e)) ls"
proof (induction raws arbitrary: ids ls)
  case (Cons raw raws)
  show ?case
  proof (cases ls)
    case Nil
    then show ?thesis by (auto split: option.splits)
  next
    case (Cons l ls')
    then show ?thesis
      by (cases "parseSmartAccessRuntimeLeaseIdentity raw"; cases "smartAccessControlTime e")
        (auto simp: Cons.IH control_time_def)
  qed
qed auto

lemma parse_identity_ok: "parseSmartAccessRuntimeLeaseIdentity raw = Some l \<Longrightarrow> identity_ok l"
  by (auto simp: parseSmartAccessRuntimeLeaseIdentity_def split: option.splits if_splits)

lemma load_leases_back:
  assumes "distinct (map li_LeaseID ls)" and "list_all (lease_within e) ls"
  shows "load_leases e [] (map (\<lambda>l. JObj (identity_fields l)) ls) = Some ls"
proof -
  have "ls \<noteq> [] \<longrightarrow> smartAccessControlTime e \<noteq> None"
    using assms(2) by (cases ls) (auto simp: lease_within_def)
  with assms show ?thesis by (auto simp: load_leases_iff list_all_iff lease_within_def identity_parse)
qed

lemma load_scopes_back:
  assumes "sorted_map m" and "length m \<le> 256" and "list_all scope_ok m"
  shows "load_scopes (JObj (map (\<lambda>(k, v). (k, JStr v)) m)) = Some m"
proof -
  let ?kvs = "map (\<lambda>(k, v). (k, JStr v)) m"
  have "fold (\<lambda>(k, v). put k (the (as_string v))) ?kvs [] = fold (\<lambda>(k, v). put k v) m []"
    by (simp add: fold_map comp_def as_string_def split_def)
  then have m: "fold (\<lambda>(k, v). put k (the (as_string v))) ?kvs [] = m"
    using put_sorted [of "[]" m] assms(1) by simp
  have keys: "map fst ?kvs = map fst m" by auto
  have "smartAccessControlObject (map fst m) (JObj ?kvs) = Some ?kvs"
    using sorted_map_distinct [OF assms(1)] keys by (rule control_object_exact)
  moreover have "list_all (\<lambda>kv. as_string (snd kv) \<noteq> None) ?kvs"
    by (auto simp: list_all_iff as_string_def)
  ultimately show ?thesis using assms(2,3) m by (simp add: load_scopes_def scope_ok_def)
qed

lemma record_fields_read:
  assumes "record_json r = JObj f"
  shows "field_string f ''profile_digest'' = rr_ProfileDigest r" "field_string f ''catalog_sha256'' = rr_CatalogSHA256 r"
    "field_string f ''generation'' = rr_Generation r" "field_string f ''policy_action'' = rr_PolicyAction r"
    "field_string f ''expires_at'' = rr_ExpiresAt r" "field_bool f ''pending'' = rr_Pending r"
    "field_bool f ''catalog_withdrawn'' = rr_CatalogWithdrawn r"
    "map_of f ''leases'' = Some (JArr (map (\<lambda>l. JObj (identity_fields l)) (rr_Leases r)))"
    "map_of f ''scope_actions'' = Some (JObj (map (\<lambda>(k, v). (k, JStr v)) (rr_ScopeActions r)))"
  using assms by (auto simp: record_json_def field_string_def field_bool_def as_string_def as_bool_def)

lemma record_typed:
  assumes "record_json r = JObj f"
  shows "smartAccessControlObject record_keys (JObj f) = Some f" and "\<not> list_ex (\<lambda>kv. snd kv = JNull) f"
    and "list_all (\<lambda>k. Option.bind (map_of f k) as_string \<noteq> None)
           [''profile_digest'', ''catalog_sha256'', ''generation'', ''policy_action'', ''expires_at'']"
    and "list_all (\<lambda>k. Option.bind (map_of f k) as_bool \<noteq> None) [''pending'', ''catalog_withdrawn'']"
proof -
  show "smartAccessControlObject record_keys (JObj f) = Some f"
    by (rule control_object_exact) (use assms in \<open>auto simp: record_json_def record_keys_def\<close>)
qed (use assms in \<open>auto simp: record_json_def as_string_def as_bool_def\<close>)

lemma load_record_back:
  assumes "record_ok r" and "rr_ProfileDigest r \<notin> set seen"
  shows "load_record seen (record_json r) = Some r"
proof -
  obtain f where f: "record_json r = JObj f" by (simp add: record_json_def)
  have leases: "load_leases (rr_ExpiresAt r) [] (map (\<lambda>l. JObj (identity_fields l)) (rr_Leases r)) = Some (rr_Leases r)"
    using assms(1) by (intro load_leases_back) (simp_all add: record_ok_def)
  have scopes: "load_scopes (JObj (map (\<lambda>(k, v). (k, JStr v)) (rr_ScopeActions r))) = Some (rr_ScopeActions r)"
    using assms(1) by (intro load_scopes_back) (simp_all add: record_ok_def)
  show ?thesis
    unfolding f load_record_def record_typed(1) [OF f] option.case
    using assms record_typed(2-4) [OF f]
    by (auto simp: Let_def record_fields_read [OF f] leases scopes record_ok_def record_head_ok_def)
qed

lemma load_records_back:
  assumes "list_all record_ok rs" and "distinct (map rr_ProfileDigest rs)"
    and "set (map rr_ProfileDigest rs) \<inter> set seen = {}"
  shows "load_records seen (map record_json rs) = Some rs"
  using assms by (induction rs arbitrary: seen) (auto simp: load_record_back)

lemma document_json_ok: "json_ok (document_json rs)"
  by (auto simp: document_json_def record_json_def identity_fields_def)

lemma load_document_back:
  assumes "document_ok rs" and "length (print_json (document_json rs)) \<le> smartAccessRestrictionDocumentLimit"
  shows "load_document (print_json (document_json rs)) = Some rs"
proof -
  have "smartAccessControlObject [''version'', ''records''] (document_json rs)
      = Some [(''version'', JNum (show_int 1)), (''records'', JArr (map record_json rs))]"
    unfolding document_json_def by (rule control_object_exact) simp_all
  moreover have "read_int (show_int 1) = Some 1" by (simp add: read_show_int)
  moreover have "load_records [] (map record_json rs) = Some rs"
    using assms(1) by (intro load_records_back) (simp_all add: document_ok_def)
  ultimately show ?thesis
    using assms by (simp add: load_document_def parse_print [OF document_json_ok] as_int_def document_ok_def)
qed

text \<open>Whatever is read is a document that the journal could have written.\<close>

lemma load_scopes_ok:
  assumes "load_scopes raw = Some m"
  shows "sorted_map m \<and> length m \<le> 256 \<and> list_all scope_ok m"
proof -
  have "sorted_map (fold (\<lambda>(k, v). put k (the (as_string v))) kvs m)" if "sorted_map m" for kvs m
    using that by (induction kvs arbitrary: m) auto
  from this [of "[]"] assms show ?thesis
    by (auto simp: load_scopes_def Let_def scope_ok_def sorted_map_def split: json.splits if_splits)
qed

lemma load_leases_ok:
  assumes "load_leases e [] raws = Some ls" and "length raws \<le> 256"
  shows "length ls \<le> 256 \<and> distinct (map li_LeaseID ls) \<and> list_all (lease_within e) ls"
proof -
  have raws: "map parseSmartAccessRuntimeLeaseIdentity raws = map Some ls" "distinct (map li_LeaseID ls)"
    "raws \<noteq> [] \<longrightarrow> smartAccessControlTime e \<noteq> None"
    "list_all (\<lambda>l. \<not> time_after (control_time (li_ActiveFlowsUntil l)) (control_time e)) ls"
    using assms(1) by (simp_all add: load_leases_iff)
  have len: "length ls = length raws" using raws(1) by (metis length_map)
  have "identity_ok l" if "l \<in> set ls" for l
  proof -
    have "Some l \<in> set (map parseSmartAccessRuntimeLeaseIdentity raws)" using that raws(1) by simp
    then show ?thesis using parse_identity_ok by auto
  qed
  then show ?thesis using raws len assms(2) by (cases "raws = []") (auto simp: lease_within_def list_all_iff)
qed

lemma load_record_ok:
  assumes "load_record seen raw = Some r"
  shows "record_ok r \<and> rr_ProfileDigest r \<notin> set seen"
proof -
  obtain f where f: "smartAccessControlObject record_keys raw = Some f"
    using assms by (cases "smartAccessControlObject record_keys raw") (simp_all add: load_record_def)
  obtain raws where raws: "map_of f ''leases'' = Some (JArr raws)" "length raws \<le> 256"
    using assms f by (auto simp: load_record_def Let_def split: if_splits option.splits json.splits)
  obtain leases where leases: "load_leases (field_string f ''expires_at'') [] raws = Some leases"
    using assms f raws by (auto simp: load_record_def Let_def split: if_splits option.splits)
  obtain scopes where scopes: "Option.bind (map_of f ''scope_actions'') load_scopes = Some scopes"
    using assms f raws leases by (auto simp: load_record_def Let_def split: if_splits option.splits)
  have r: "record_head_ok seen (rr_ProfileDigest r) (rr_CatalogSHA256 r) (rr_Generation r) (rr_PolicyAction r)
      (rr_CatalogWithdrawn r) (rr_ExpiresAt r)" "rr_Leases r = leases" "rr_ScopeActions r = scopes"
    "rr_ExpiresAt r = field_string f ''expires_at''"
    using assms f raws leases scopes by (auto simp: load_record_def Let_def split: if_splits)
  have "sorted_map scopes \<and> length scopes \<le> 256 \<and> list_all scope_ok scopes"
    using scopes load_scopes_ok by (cases "map_of f ''scope_actions''") auto
  with r load_leases_ok [OF leases raws(2)] show ?thesis
    by (simp add: record_ok_def record_head_ok_def)
qed

lemma load_records_ok:
  "load_records seen raws = Some rs \<Longrightarrow>
     length rs = length raws \<and> list_all record_ok rs \<and> distinct (map rr_ProfileDigest rs)
     \<and> set (map rr_ProfileDigest rs) \<inter> set seen = {}"
  by (induction raws arbitrary: seen rs) (fastforce split: option.splits dest!: load_record_ok)+

lemma load_document_ok: "load_document data = Some rs \<Longrightarrow> document_ok rs"
  by (auto simp: load_document_def document_ok_def dest!: load_records_ok split: if_splits option.splits json.splits)

end
