(* ===== verification/Journal_Crashes.thy ===== *)
theory Journal_Crashes
  imports Restriction_Journal
begin

text \<open>
  The restriction journal over any history: workers that begin and finish, restrictions, renewals,
  snapshots and acknowledgements, with reads and writes that may fail and crashes that leave only the
  file. What is owed to the client is never lost, the document always fits its limits, and an
  acknowledgement removes only what was handed over.
\<close>

section \<open>Restrictions across crashes\<close>

text \<open>What a restriction asks a record to show, and when a record shows at least that.\<close>

datatype claim = PolicyClaim string | ScopeClaim string string

fun shows_claim :: "restriction \<Rightarrow> claim \<Rightarrow> bool" where
  "shows_claim r (PolicyClaim reason) \<longleftrightarrow>
     (if reason = ''issuance_disabled'' then rr_PolicyAction r \<noteq> ''none''
      else rr_PolicyAction r = ''terminate'' \<and> (reason = ''catalog_disabled'' \<longrightarrow> rr_CatalogWithdrawn r))"
| "shows_claim r (ScopeClaim scope action) \<longleftrightarrow>
     entry (rr_ScopeActions r) scope = ''terminate'' \<or> (action = ''drain'' \<and> entry (rr_ScopeActions r) scope = ''drain'')"

definition lookup_record :: "restriction list \<Rightarrow> string \<Rightarrow> restriction option" where
  "lookup_record rs p = find (\<lambda>r. rr_ProfileDigest r = p) rs"

definition on_disk :: "journal \<Rightarrow> restriction list" where
  "on_disk s = (case Option.bind (jn_file s) load_document of None \<Rightarrow> [] | Some rs \<Rightarrow> rs)"

definition view :: "journal \<Rightarrow> restriction list" where
  "view s = (if jn_loaded s then jn_records s else on_disk s)"

text \<open>
  The journal as its users drive it. A worker restricts its profile between its own \<open>begin\<close> and
  \<open>finish\<close> and only while it is the current one, that is, while its generation is the live one. A crash
  loses everything but the file. \<open>jy_owed\<close> collects the restrictions imposed and not yet handed over by
  an acknowledged snapshot, \<open>jy_known\<close> those among them that were imposed since the last crash.
\<close>

record journal_system =
  jy_journal :: journal
  jy_owed :: "(string \<times> claim) set"
  jy_known :: "(string \<times> claim) set"

definition expiry_ok :: "gotime \<Rightarrow> bool" where
  "expiry_ok t \<longleftrightarrow> t = zero_time \<or> (\<exists>v. smartAccessControlTime v = Some t)"

definition journal_init :: "journal_system \<Rightarrow> bool" where
  "journal_init x \<longleftrightarrow> (\<exists>file. x = \<lparr>jy_journal = new_journal file, jy_owed = {}, jy_known = {}\<rparr>
     \<and> (file = None \<or> Option.bind file load_document \<noteq> None))"

inductive journal_step :: "journal_system \<Rightarrow> journal_system \<Rightarrow> bool" where
  begin_step: "smartAccessRuntimeDigest p \<Longrightarrow> catalog = [] \<or> smartAccessRuntimeDigest catalog \<Longrightarrow>
    list_all smartAccessLeaseID (case random of None \<Rightarrow> [] | Some g \<Rightarrow> [g]) \<Longrightarrow> expiry_ok expires \<Longrightarrow>
    begin_worker readable random writable p catalog expires (jy_journal x) = (res, s) \<Longrightarrow>
    journal_step x (x\<lparr>jy_journal := s\<rparr>)"
| extend_step: "expiry_ok expires \<Longrightarrow> extendExpiry writable p g expires (jy_journal x) = (res, s) \<Longrightarrow>
    journal_step x (x\<lparr>jy_journal := s\<rparr>)"
| retain_step: "identity_ok previous \<Longrightarrow> identity_ok next \<Longrightarrow>
    retainRenewal writable now p g previous next currentIDs (jy_journal x) = (res, s) \<Longrightarrow>
    journal_step x (x\<lparr>jy_journal := s\<rparr>)"
| restrict_step: "jn_live (jy_journal x) p = Some g \<Longrightarrow>
    journal_step x \<lparr>jy_journal = restrict writable p g reason (jy_journal x),
      jy_owed = insert (p, PolicyClaim reason) (jy_owed x), jy_known = insert (p, PolicyClaim reason) (jy_known x)\<rparr>"
| scope_step: "jn_live (jy_journal x) p = Some g \<Longrightarrow> smartAccessRuntimeDigest scope \<Longrightarrow>
    action = ''drain'' \<or> action = ''terminate'' \<Longrightarrow>
    journal_step x \<lparr>jy_journal = restrictScope writable p g scope action (jy_journal x),
      jy_owed = insert (p, ScopeClaim scope action) (jy_owed x), jy_known = insert (p, ScopeClaim scope action) (jy_known x)\<rparr>"
| finish_step: "journal_step x (x\<lparr>jy_journal := finish writable p g (jy_journal x)\<rparr>)"
| read_step: "ReadSmartAccessRestrictions readable writable (jy_journal x) = (res, s) \<Longrightarrow>
    journal_step x (x\<lparr>jy_journal := s\<rparr>)"
| ack_step: "AcknowledgeSmartAccessRestrictions readable writable writable' digest (jy_journal x) = (res, s) \<Longrightarrow>
    res \<noteq> Inr True \<Longrightarrow> journal_step x (x\<lparr>jy_journal := s\<rparr>)"
| acked_step: "AcknowledgeSmartAccessRestrictions readable writable writable' digest (jy_journal x) = (Inr True, s) \<Longrightarrow>
    journal_step x \<lparr>jy_journal = s, jy_owed = {pc \<in> jy_owed x. jn_live (jy_journal x) (fst pc) \<noteq> None},
      jy_known = {pc \<in> jy_known x. jn_live (jy_journal x) (fst pc) \<noteq> None}\<rparr>"
| crash_step: "journal_step x (x\<lparr>jy_journal := new_journal (jn_file (jy_journal x)), jy_known := {}\<rparr>)"

subsection \<open>What the two copies have in common\<close>

text \<open>
  The records in memory and those in the file, as maps from profiles: a live worker is pending in both,
  and what is owed is shown or pending in both.
\<close>

definition journal_core ::
    "bool \<Rightarrow> (string \<Rightarrow> restriction option) \<Rightarrow> (string \<Rightarrow> string option) \<Rightarrow> string set
      \<Rightarrow> (string \<Rightarrow> restriction option) \<Rightarrow> (string \<times> claim) set \<Rightarrow> (string \<times> claim) set \<Rightarrow> bool" where
  "journal_core loaded mem live unsettled disk owed known \<longleftrightarrow>
     (\<not> loaded \<longrightarrow> (\<forall>p. live p = None) \<and> unsettled = {} \<and> known = {})
     \<and> (\<forall>p g. live p = Some g \<longrightarrow>
          (\<exists>r. mem p = Some r \<and> rr_Generation r = g \<and> rr_Pending r) \<and> (\<exists>r. disk p = Some r \<and> rr_Pending r))
     \<and> (\<forall>p \<in> unsettled. (\<exists>r. mem p = Some r \<and> rr_Pending r) \<and> (\<exists>r. disk p = Some r \<and> rr_Pending r))
     \<and> (\<forall>(p, c) \<in> owed. (\<exists>r. disk p = Some r \<and> (shows_claim r c \<or> rr_Pending r))
          \<and> (loaded \<longrightarrow> (\<exists>r. mem p = Some r \<and> (shows_claim r c \<or> rr_Pending r))))
     \<and> (\<forall>(p, c) \<in> known. (p, c) \<in> owed \<and> (p \<in> unsettled \<or> (\<exists>r. mem p = Some r \<and> shows_claim r c)))
     \<and> (\<forall>(p, c) \<in> owed. live p \<noteq> None \<longrightarrow> (p, c) \<in> known)"


lemma core_I:
  assumes "\<not> loaded \<Longrightarrow> (\<forall>p. live p = None) \<and> uns = {} \<and> known = {}"
    and "\<And>p g. live p = Some g \<Longrightarrow> \<exists>r. mem p = Some r \<and> rr_Generation r = g \<and> rr_Pending r"
    and "\<And>p g. live p = Some g \<Longrightarrow> \<exists>r. disk p = Some r \<and> rr_Pending r"
    and "\<And>p. p \<in> uns \<Longrightarrow> \<exists>r. mem p = Some r \<and> rr_Pending r"
    and "\<And>p. p \<in> uns \<Longrightarrow> \<exists>r. disk p = Some r \<and> rr_Pending r"
    and "\<And>p c. (p, c) \<in> owed \<Longrightarrow> \<exists>r. disk p = Some r \<and> (shows_claim r c \<or> rr_Pending r)"
    and "\<And>p c. (p, c) \<in> owed \<Longrightarrow> loaded \<Longrightarrow> \<exists>r. mem p = Some r \<and> (shows_claim r c \<or> rr_Pending r)"
    and "\<And>p c. (p, c) \<in> known \<Longrightarrow> (p, c) \<in> owed"
    and "\<And>p c. (p, c) \<in> known \<Longrightarrow> p \<in> uns \<or> (\<exists>r. mem p = Some r \<and> shows_claim r c)"
    and "\<And>p c. (p, c) \<in> owed \<Longrightarrow> live p \<noteq> None \<Longrightarrow> (p, c) \<in> known"
  shows "journal_core loaded mem live uns disk owed known"
  using assms unfolding journal_core_def by blast

lemma core_D:
  assumes "journal_core loaded mem live uns disk owed known"
  shows "\<not> loaded \<Longrightarrow> (\<forall>p. live p = None) \<and> uns = {} \<and> known = {}"
    and "live p = Some g \<Longrightarrow> \<exists>r. mem p = Some r \<and> rr_Generation r = g \<and> rr_Pending r"
    and "live p = Some g \<Longrightarrow> \<exists>r. disk p = Some r \<and> rr_Pending r"
    and "p \<in> uns \<Longrightarrow> \<exists>r. mem p = Some r \<and> rr_Pending r"
    and "p \<in> uns \<Longrightarrow> \<exists>r. disk p = Some r \<and> rr_Pending r"
    and "(p, c) \<in> owed \<Longrightarrow> \<exists>r. disk p = Some r \<and> (shows_claim r c \<or> rr_Pending r)"
    and "(p, c) \<in> owed \<Longrightarrow> loaded \<Longrightarrow> \<exists>r. mem p = Some r \<and> (shows_claim r c \<or> rr_Pending r)"
    and "(p, c) \<in> known \<Longrightarrow> (p, c) \<in> owed"
    and "(p, c) \<in> known \<Longrightarrow> p \<in> uns \<or> (\<exists>r. mem p = Some r \<and> shows_claim r c)"
    and "(p, c) \<in> owed \<Longrightarrow> live p \<noteq> None \<Longrightarrow> (p, c) \<in> known"
  using assms unfolding journal_core_def by blast+

lemma core_load:
  assumes "journal_core False mem live uns disk owed known"
  shows "journal_core True disk live uns disk owed known"
  using core_D [OF assms] by (intro core_I) auto

lemma core_write:
  assumes "journal_core True mem live uns disk owed known"
  shows "journal_core True mem live uns mem owed known"
proof (rule core_I)
  fix p g assume "live p = Some g"
  from core_D(2) [OF assms this] show "\<exists>r. mem p = Some r \<and> rr_Pending r" by blast
qed (use core_D [OF assms] in simp_all)

lemma core_update:
  assumes core: "journal_core True mem live uns disk owed known" and r: "mem p = Some r"
    and same: "rr_Generation r' = rr_Generation r" "rr_Pending r' = rr_Pending r"
    and grows: "\<And>c. shows_claim r c \<Longrightarrow> shows_claim r' c"
  shows "journal_core True (mem(p \<mapsto> r')) live uns disk owed known"
proof (rule core_I)
  fix q g assume "live q = Some g"
  from core_D(2) [OF core this] show "\<exists>x. (mem(p \<mapsto> r')) q = Some x \<and> rr_Generation x = g \<and> rr_Pending x"
    using r same by auto
next
  fix q assume "q \<in> uns"
  from core_D(4) [OF core this] show "\<exists>x. (mem(p \<mapsto> r')) q = Some x \<and> rr_Pending x" using r same by auto
next
  fix q c assume "(q, c) \<in> owed"
  from core_D(7) [OF core this] show "\<exists>x. (mem(p \<mapsto> r')) q = Some x \<and> (shows_claim x c \<or> rr_Pending x)"
    using r same grows by auto
next
  fix q c assume "(q, c) \<in> known"
  from core_D(9) [OF core this] show "q \<in> uns \<or> (\<exists>x. (mem(p \<mapsto> r')) q = Some x \<and> shows_claim x c)"
    using r grows by auto
qed (use core_D [OF core] in simp_all)

lemma core_claim:
  assumes core: "journal_core True mem live uns disk owed known" and live: "live p = Some g"
    and shown: "p \<in> uns \<or> (\<exists>r. mem p = Some r \<and> shows_claim r c)"
  shows "journal_core True mem live uns disk (insert (p, c) owed) (insert (p, c) known)"
proof (rule core_I)
  fix q d assume "(q, d) \<in> insert (p, c) owed"
  then show "\<exists>x. disk q = Some x \<and> (shows_claim x d \<or> rr_Pending x)"
    "\<exists>x. mem q = Some x \<and> (shows_claim x d \<or> rr_Pending x)"
    using core_D(6,7) [OF core, of q d] core_D(2,3) [OF core live] by auto
next
  fix q d assume "(q, d) \<in> insert (p, c) known"
  then show "q \<in> uns \<or> (\<exists>x. mem q = Some x \<and> shows_claim x d)"
    using core_D(9) [OF core, of q d] shown by auto
  show "(q, d) \<in> insert (p, c) owed" using \<open>(q, d) \<in> insert (p, c) known\<close> core_D(8) [OF core, of q d] by auto
next
  fix q d assume "(q, d) \<in> insert (p, c) owed" "live q \<noteq> None"
  then show "(q, d) \<in> insert (p, c) known" using core_D(10) [OF core, of q d] by auto
qed (use core_D(1-5) [OF core] in simp_all)

lemma core_unsettled:
  assumes core: "journal_core True mem live uns disk owed known" and live: "live p = Some g"
  shows "journal_core True mem live (insert p uns) disk owed known"
proof (rule core_I)
  fix q assume "q \<in> insert p uns"
  then show "\<exists>x. mem q = Some x \<and> rr_Pending x" "\<exists>x. disk q = Some x \<and> rr_Pending x"
    using core_D(4,5) [OF core, of q] core_D(2,3) [OF core live] by auto
next
  fix q c assume "(q, c) \<in> known"
  from core_D(9) [OF core this] show "q \<in> insert p uns \<or> (\<exists>x. mem q = Some x \<and> shows_claim x c)" by auto
qed (use core_D [OF core] in simp_all)

lemma core_begin:
  assumes core: "journal_core True mem live uns disk owed known" and p: "p \<notin> uns"
    and r': "rr_Generation r' = g" "rr_Pending r'"
    and idle: "\<And>r c. mem p = Some r \<Longrightarrow> live p = None \<Longrightarrow> \<not> rr_Pending r \<and> \<not> shows_claim r c"
    and grows: "\<And>r c. mem p = Some r \<Longrightarrow> shows_claim r c \<Longrightarrow> shows_claim r' c"
  shows "journal_core True (mem(p \<mapsto> r')) (live(p \<mapsto> g)) uns (mem(p \<mapsto> r')) owed known"
proof (rule core_I)
  fix q h assume "(live(p \<mapsto> g)) q = Some h"
  then show "\<exists>x. (mem(p \<mapsto> r')) q = Some x \<and> rr_Generation x = h \<and> rr_Pending x"
    "\<exists>x. (mem(p \<mapsto> r')) q = Some x \<and> rr_Pending x"
    using core_D(2) [OF core, of q h] r' by (auto split: if_splits)
next
  fix q assume "q \<in> uns"
  from core_D(4) [OF core this] show "\<exists>x. (mem(p \<mapsto> r')) q = Some x \<and> rr_Pending x"
    "\<exists>x. (mem(p \<mapsto> r')) q = Some x \<and> rr_Pending x" using r' by auto
next
  fix q c assume "(q, c) \<in> owed"
  from core_D(7) [OF core this] show "\<exists>x. (mem(p \<mapsto> r')) q = Some x \<and> (shows_claim x c \<or> rr_Pending x)"
    "\<exists>x. (mem(p \<mapsto> r')) q = Some x \<and> (shows_claim x c \<or> rr_Pending x)" using r' by auto
next
  fix q c assume "(q, c) \<in> known"
  from core_D(9) [OF core this] show "q \<in> uns \<or> (\<exists>x. (mem(p \<mapsto> r')) q = Some x \<and> shows_claim x c)"
    using grows by auto
next
  fix q c assume o: "(q, c) \<in> owed" and l: "(live(p \<mapsto> g)) q \<noteq> None"
  from core_D(7) [OF core o] idle [of _ c] have "q = p \<Longrightarrow> live q \<noteq> None" by auto
  with l have "live q \<noteq> None" by (auto split: if_splits)
  with core_D(10) [OF core o] show "(q, c) \<in> known" by blast
qed (use core_D(8) [OF core] in simp_all)

lemma core_finish:
  assumes core: "journal_core True mem live uns disk owed known" and live: "live p = Some g" and r: "mem p = Some r"
    and r': "r' = r\<lparr>rr_Pending := p \<in> uns\<rparr>"
  shows "journal_core True (mem(p \<mapsto> r')) (live(p := None)) uns disk owed known"
proof (rule core_I)
  have same: "shows_claim r' c = shows_claim r c" for c by (cases c) (simp_all add: r')
  {
    fix q h assume "(live(p := None)) q = Some h"
    then have "q \<noteq> p" "live q = Some h" by (auto split: if_splits)
    then show "\<exists>x. (mem(p \<mapsto> r')) q = Some x \<and> rr_Generation x = h \<and> rr_Pending x"
      "\<exists>x. disk q = Some x \<and> rr_Pending x"
      using core_D(2,3) [OF core] by simp_all
  next
    fix q assume "q \<in> uns"
    from core_D(4) [OF core this] show "\<exists>x. (mem(p \<mapsto> r')) q = Some x \<and> rr_Pending x"
      using \<open>q \<in> uns\<close> by (auto simp: r')
  next
    fix q c assume o: "(q, c) \<in> owed"
    have "p \<in> uns \<or> shows_claim r c" if "q = p"
      using core_D(9) [OF core core_D(10) [OF core o]] live r that by auto
    with core_D(7) [OF core o] show "\<exists>x. (mem(p \<mapsto> r')) q = Some x \<and> (shows_claim x c \<or> rr_Pending x)"
      by (auto simp: same) (auto simp: r')
  next
    fix q c assume "(q, c) \<in> known"
    from core_D(9) [OF core this] show "q \<in> uns \<or> (\<exists>x. (mem(p \<mapsto> r')) q = Some x \<and> shows_claim x c)"
      using r by (auto simp: same)
  next
    fix q c assume "(q, c) \<in> owed" "(live(p := None)) q \<noteq> None"
    then show "(q, c) \<in> known" using core_D(10) [OF core] by (auto split: if_splits)
  }
qed (use core_D [OF core] in simp_all)

lemma core_ack:
  assumes core: "journal_core True mem live uns disk owed known"
    and mem': "mem' = (\<lambda>p. case mem p of None \<Rightarrow> None | Some r \<Rightarrow> if live p = Some (rr_Generation r) then Some r else None)"
    and uns': "uns' = uns - {p. \<exists>r. mem p = Some r \<and> live p \<noteq> Some (rr_Generation r)}"
  shows "journal_core True mem' live uns' mem' {pc \<in> owed. live (fst pc) \<noteq> None} {pc \<in> known. live (fst pc) \<noteq> None}"
proof (rule core_I)
  have kept: "mem' q = mem q" if l: "live q = Some h" for q h
  proof -
    obtain x where "mem q = Some x" "rr_Generation x = h" using core_D(2) [OF core l] by blast
    then show ?thesis by (simp add: mem' l)
  qed
  {
    fix q h assume l: "live q = Some h"
    show "\<exists>x. mem' q = Some x \<and> rr_Generation x = h \<and> rr_Pending x" using core_D(2) [OF core l] kept [OF l] by simp
    then show "\<exists>x. mem' q = Some x \<and> rr_Pending x" by blast
  next
    fix q assume "q \<in> uns'"
    then have "q \<in> uns" "\<And>r. mem q = Some r \<Longrightarrow> live q = Some (rr_Generation r)" by (auto simp: uns')
    then obtain h where "live q = Some h" using core_D(4) [OF core] by blast
    then show "\<exists>x. mem' q = Some x \<and> rr_Pending x" "\<exists>x. mem' q = Some x \<and> rr_Pending x"
      using core_D(4) [OF core \<open>q \<in> uns\<close>] kept by simp_all
  next
    fix q c assume "(q, c) \<in> {pc \<in> owed. live (fst pc) \<noteq> None}"
    then obtain h where "(q, c) \<in> owed" "live q = Some h" by auto
    then show "\<exists>x. mem' q = Some x \<and> (shows_claim x c \<or> rr_Pending x)"
      "\<exists>x. mem' q = Some x \<and> (shows_claim x c \<or> rr_Pending x)" using core_D(7) [OF core] kept by simp_all
  next
    fix q c assume "(q, c) \<in> {pc \<in> known. live (fst pc) \<noteq> None}"
    then obtain h where "(q, c) \<in> known" "live q = Some h" by auto
    moreover from this have "q \<in> uns \<Longrightarrow> q \<in> uns'" using core_D(2) [OF core] by (fastforce simp: uns')
    ultimately show "q \<in> uns' \<or> (\<exists>x. mem' q = Some x \<and> shows_claim x c)"
      using core_D(9) [OF core] kept by fastforce
  }
qed (use core_D(8,10) [OF core] in auto)

subsection \<open>Operations on valid documents\<close>

lemma position_Some:
  "position P xs = Some i \<Longrightarrow> i < length xs \<and> P (xs ! i) \<and> find P xs = Some (xs ! i)"
  by (induction xs arbitrary: i) (auto split: if_splits)

lemma position_None: "position P xs = None \<longleftrightarrow> (\<forall>x \<in> set xs. \<not> P x)"
  by (induction xs) auto

lemma lookup_profile: "lookup_record rs p = Some r \<Longrightarrow> r \<in> set rs \<and> rr_ProfileDigest r = p"
  by (auto simp: lookup_record_def find_Some_iff)

lemma lookup_member: "distinct (map rr_ProfileDigest rs) \<Longrightarrow> r \<in> set rs \<Longrightarrow> lookup_record rs (rr_ProfileDigest r) = Some r"
  by (induction rs) (auto simp: lookup_record_def)

lemma lookup_update:
  assumes "distinct (map rr_ProfileDigest rs)" and "i < length rs" and "rr_ProfileDigest r' = rr_ProfileDigest (rs ! i)"
  shows "lookup_record (rs[i := r']) = (lookup_record rs)(rr_ProfileDigest r' \<mapsto> r')"
proof
  fix p
  show "lookup_record (rs[i := r']) p = ((lookup_record rs)(rr_ProfileDigest r' \<mapsto> r')) p"
    using assms
  proof (induction rs arbitrary: i)
    case (Cons r rs)
    then show ?case by (cases i) (auto simp: lookup_record_def)
  qed simp
qed

lemma lookup_snoc:
  assumes "lookup_record rs (rr_ProfileDigest r) = None"
  shows "lookup_record (rs @ [r]) = (lookup_record rs)(rr_ProfileDigest r \<mapsto> r)"
proof
  fix p
  show "lookup_record (rs @ [r]) p = ((lookup_record rs)(rr_ProfileDigest r \<mapsto> r)) p"
    using assms by (induction rs) (auto simp: lookup_record_def split: if_splits)
qed

lemma record_index_live:
  assumes "lookup_record (jn_records s) p = Some r" and "rr_Generation r = g"
  obtains i where "record_index p g s = Some i"
proof -
  have "r \<in> set (jn_records s)" "rr_ProfileDigest r = p" using lookup_profile [OF assms(1)] by auto
  then have "record_index p g s \<noteq> None" using assms(2) by (auto simp: record_index_def position_None)
  then show thesis using that by blast
qed

lemma record_index_lookup:
  assumes "record_index p g s = Some i" and "distinct (map rr_ProfileDigest (jn_records s))"
  shows "i < length (jn_records s)" and "lookup_record (jn_records s) p = Some (jn_records s ! i)"
    and "rr_ProfileDigest (jn_records s ! i) = p" and "rr_Generation (jn_records s ! i) = g"
proof -
  show i: "i < length (jn_records s)" "rr_ProfileDigest (jn_records s ! i) = p" "rr_Generation (jn_records s ! i) = g"
    using position_Some [OF assms(1) [unfolded record_index_def]] by auto
  show "lookup_record (jn_records s) p = Some (jn_records s ! i)"
    using lookup_member [OF assms(2), of "jn_records s ! i"] i by simp
qed

text \<open>Times that the readers accept are wall clock instants, and so is the zero time.\<close>

lemma smartAccessControlTime_format: "smartAccessControlTime v = Some t \<Longrightarrow> format_time t = v"
  by (auto simp: smartAccessControlTime_def split: option.splits if_splits)

lemma control_time_wall [simp]: "mono_ns (control_time v) = None"
  by (auto simp: control_time_def smartAccessControlTime_def zero_time_def dest: scan_time_wall split: option.splits if_splits)

lemma zero_time_reads: "smartAccessControlTime (format_time zero_time) = Some zero_time"
  by code_simp

lemma expiry_ok_wall: "expiry_ok t \<Longrightarrow> mono_ns t = None"
  by (auto simp: expiry_ok_def zero_time_def smartAccessControlTime_def dest: scan_time_wall split: option.splits if_splits)

lemma expiry_ok_reads:
  assumes "expiry_ok t"
  shows "smartAccessControlTime (format_time t) = Some t" and "control_time (format_time t) = t"
proof -
  show "smartAccessControlTime (format_time t) = Some t"
    using assms zero_time_reads by (auto simp: expiry_ok_def dest: smartAccessControlTime_format)
  then show "control_time (format_time t) = t" by (simp add: control_time_def)
qed

lemma control_time_expiry_ok: "expiry_ok (control_time v)"
  by (auto simp: expiry_ok_def control_time_def split: option.splits)

lemma after_trans:
  "mono_ns t = None \<Longrightarrow> mono_ns u = None \<Longrightarrow> mono_ns v = None \<Longrightarrow> \<not> time_after t u \<Longrightarrow> \<not> time_after u v \<Longrightarrow> \<not> time_after t v"
  by (simp add: time_after_def time_before_def)

lemma after_antisym: "mono_ns t = None \<Longrightarrow> mono_ns u = None \<Longrightarrow> time_after t u \<Longrightarrow> \<not> time_after u t"
  by (simp add: time_after_def time_before_def)

text \<open>A record may only get a later expiry.\<close>

lemma record_ok_later:
  assumes "record_ok r" and "expiry_ok t" and "\<not> time_after (control_time (rr_ExpiresAt r)) t"
  shows "record_ok (r\<lparr>rr_ExpiresAt := format_time t\<rparr>)"
proof -
  have "lease_within (format_time t) l" if "lease_within (rr_ExpiresAt r) l" for l
    using that assms(3) expiry_ok_reads [OF assms(2)] expiry_ok_wall [OF assms(2)]
      after_trans [of "control_time (li_ActiveFlowsUntil l)" "control_time (rr_ExpiresAt r)" t]
    by (simp add: lease_within_def)
  then show ?thesis using assms(1) expiry_ok_reads [OF assms(2)] by (auto simp: record_ok_def list_all_iff)
qed

lemma begun_record_ok:
  assumes "record_ok (r\<lparr>rr_Generation := g\<rparr>)" and "smartAccessLeaseID g" and "expiry_ok t"
    and "catalog = [] \<or> smartAccessRuntimeDigest catalog"
  shows "record_ok (begun_record g catalog t r)"
proof -
  let ?r = "r\<lparr>rr_Generation := g, rr_Pending := True, rr_CatalogSHA256 :=
    (if rr_CatalogSHA256 r = [] then catalog else rr_CatalogSHA256 r)\<rparr>"
  have ok: "record_ok ?r" using assms by (auto simp: record_ok_def)
  have "begun_record g catalog t r =
      (if \<not> is_zero t \<and> time_after t (control_time (rr_ExpiresAt ?r)) then ?r\<lparr>rr_ExpiresAt := format_time t\<rparr> else ?r)"
    by (simp add: begun_record_def Let_def)
  moreover have "record_ok (?r\<lparr>rr_ExpiresAt := format_time t\<rparr>)" if "time_after t (control_time (rr_ExpiresAt ?r))"
    using after_antisym [OF expiry_ok_wall [OF assms(3)] control_time_wall that] by (intro record_ok_later ok assms(3))
  ultimately show ?thesis using ok by presburger
qed

lemma begun_record_simps [simp]:
  "rr_Generation (begun_record g catalog t r) = g" "rr_Pending (begun_record g catalog t r)"
  "rr_ProfileDigest (begun_record g catalog t r) = rr_ProfileDigest r"
  "shows_claim (begun_record g catalog t r) c = shows_claim r c"
  by (simp_all add: begun_record_def Let_def) (cases c; simp)

lemma restricted_record_ok: "record_ok r \<Longrightarrow> record_ok (restricted_record reason r)"
  unfolding restricted_record_def record_ok_def
  by (cases "reason = ''catalog_disabled''"; cases "reason = ''issuance_disabled''"; cases "rr_PolicyAction r = ''none''") simp_all

lemma restricted_record_shows:
  "shows_claim (restricted_record reason r) (PolicyClaim reason)"
  "shows_claim r c \<Longrightarrow> shows_claim (restricted_record reason r) c"
  by (simp add: restricted_record_def Let_def) (cases c; auto simp: restricted_record_def Let_def)

lemma restricted_record_simps [simp]:
  "rr_Generation (restricted_record reason r) = rr_Generation r" "rr_Pending (restricted_record reason r) = rr_Pending r"
  "rr_ProfileDigest (restricted_record reason r) = rr_ProfileDigest r"
  by (simp_all add: restricted_record_def Let_def)

lemma entry_put [simp]: "entry (put k v m) x = (if x = k then v else entry m x)"
  by (simp add: entry_def)

lemma scope_record_ok:
  assumes "record_ok r" and "smartAccessRuntimeDigest scope" and "action = ''drain'' \<or> action = ''terminate''"
    and "entry (rr_ScopeActions r) scope \<noteq> [] \<or> length (rr_ScopeActions r) < 256"
  shows "record_ok (r\<lparr>rr_ScopeActions := put scope action (rr_ScopeActions r)\<rparr>)"
proof -
  let ?m = "rr_ScopeActions r"
  have "length (put scope action ?m) \<le> 256"
  proof (cases "map_of ?m scope = None")
    case True
    then show ?thesis using assms(4) length_put [of scope action ?m] by (simp add: entry_def)
  next
    case False
    then show ?thesis using length_put_old [of ?m scope action] assms(1) by (simp add: record_ok_def)
  qed
  moreover have "list_all scope_ok (put scope action ?m)"
    using assms(1-3) set_put [of scope action ?m] by (auto simp: record_ok_def list_all_iff scope_ok_def)
  ultimately show ?thesis using assms(1) by (simp add: record_ok_def)
qed

text \<open>The leases of a renewal, by identifier.\<close>

definition lease_map :: "(string \<times> lease_identity) list \<Rightarrow> bool" where
  "lease_map m \<longleftrightarrow> sorted_map m \<and> (\<forall>x \<in> set m. fst x = li_LeaseID (snd x) \<and> identity_ok (snd x))"

lemma lease_map_put:
  assumes "lease_map m" and "identity_ok l"
  shows "lease_map (put (li_LeaseID l) l m)"
proof -
  have "fst x = li_LeaseID (snd x) \<and> identity_ok (snd x)" if "x \<in> set (put (li_LeaseID l) l m)" for x
    using subsetD [OF set_put that] assms unfolding lease_map_def by (elim insertE) simp_all
  then show ?thesis using assms(1) unfolding lease_map_def by simp
qed

lemma lease_map_retained:
  assumes "list_all identity_ok leases"
  shows "lease_map (retained_leases now previous next currentIDs leases)"
proof -
  have kept: "lease_map (fold (\<lambda>l m. if P l then put (li_LeaseID l) l m else m) ls m)"
    if "lease_map m" "list_all identity_ok ls" for P ls m
    using that by (induction ls arbitrary: m) (auto simp: lease_map_put)
  show ?thesis unfolding retained_leases_def
    by (rule kept [OF _ assms]) (simp add: lease_map_def sorted_map_def)
qed

lemma lease_map_add: "add_lease l m = Some m' \<Longrightarrow> lease_map m \<Longrightarrow> identity_ok l \<Longrightarrow> lease_map m'"
  by (auto simp: add_lease_def lease_map_put split: option.splits if_splits)

lemma lease_map_leases:
  assumes "lease_map m"
  shows "distinct (map li_LeaseID (map snd m))" and "list_all identity_ok (map snd m)"
proof -
  have "map li_LeaseID (map snd m) = map fst m" using assms by (simp add: lease_map_def)
  moreover have "distinct (map fst m)" using assms by (intro sorted_map_distinct) (simp add: lease_map_def)
  ultimately show "distinct (map li_LeaseID (map snd m))" by metis
  show "list_all identity_ok (map snd m)" using assms by (simp add: lease_map_def list_all_iff)
qed

lemma latest_expiry_bounds:
  "expiry_ok (latest_expiry e leases) \<and> \<not> time_after (control_time e) (latest_expiry e leases)
     \<and> (\<forall>l \<in> set leases. \<not> time_after (control_time (li_ActiveFlowsUntil l)) (latest_expiry e leases))"
proof -
  let ?f = "\<lambda>l t. let a = control_time (li_ActiveFlowsUntil l) in if time_after a t then a else t"
  have "expiry_ok (fold ?f ls t) \<and> \<not> time_after t (fold ?f ls t)
      \<and> (\<forall>l \<in> set ls. \<not> time_after (control_time (li_ActiveFlowsUntil l)) (fold ?f ls t))" if "expiry_ok t" for ls t
    using that
  proof (induction ls arbitrary: t)
    case Nil
    then show ?case by (simp add: time_after_def)
  next
    case (Cons l ls)
    let ?a = "control_time (li_ActiveFlowsUntil l)"
    have t': "expiry_ok (?f l t)" "\<not> time_after t (?f l t)" "\<not> time_after ?a (?f l t)"
      using Cons.prems after_antisym [of ?a t] control_time_expiry_ok expiry_ok_wall [of t] by (auto simp: Let_def time_after_def)
    let ?u = "fold ?f ls (?f l t)"
    have u: "expiry_ok ?u" "\<not> time_after (?f l t) ?u" using Cons.IH [OF t'(1)] by auto
    have "\<not> time_after x ?u" if "mono_ns x = None" "\<not> time_after x (?f l t)" for x
      using that after_trans [of x "?f l t" ?u] u expiry_ok_wall [OF t'(1)] expiry_ok_wall [OF u(1)] by blast
    then show ?case using Cons.IH [OF t'(1)] t' expiry_ok_wall [OF Cons.prems] by simp
  qed
  then show ?thesis unfolding latest_expiry_def using control_time_expiry_ok by blast
qed

lemma renewed_record_ok:
  assumes r: "record_ok r" and m: "lease_map m" and len: "length m \<le> 256"
  shows "record_ok (r\<lparr>rr_Leases := map snd m, rr_ExpiresAt := format_time (latest_expiry (rr_ExpiresAt r) (map snd m))\<rparr>)"
proof -
  let ?t = "latest_expiry (rr_ExpiresAt r) (map snd m)"
  have t: "expiry_ok ?t" "\<And>l. l \<in> set (map snd m) \<Longrightarrow> \<not> time_after (control_time (li_ActiveFlowsUntil l)) ?t"
    using latest_expiry_bounds by blast+
  have "list_all (lease_within (format_time ?t)) (map snd m)"
    using lease_map_leases(2) [OF m] t(2) expiry_ok_reads [OF t(1)] by (auto simp: list_all_iff lease_within_def)
  then show ?thesis using r len lease_map_leases(1) [OF m] expiry_ok_reads [OF t(1)] by (simp add: record_ok_def)
qed

subsection \<open>The invariant\<close>

definition journal_inv :: "journal \<Rightarrow> (string \<times> claim) set \<Rightarrow> (string \<times> claim) set \<Rightarrow> bool" where
  "journal_inv s owed known \<longleftrightarrow>
     document_ok (jn_records s) \<and> (jn_file s = None \<or> Option.bind (jn_file s) load_document \<noteq> None)
     \<and> journal_core (jn_loaded s) (lookup_record (jn_records s)) (jn_live s) (jn_unsettled s)
         (lookup_record (on_disk s)) owed known"

lemma on_disk_frame [simp]:
  "on_disk (s\<lparr>jn_records := rs\<rparr>) = on_disk s" "on_disk (s\<lparr>jn_loaded := b\<rparr>) = on_disk s"
  "on_disk (s\<lparr>jn_live := l\<rparr>) = on_disk s" "on_disk (s\<lparr>jn_unsettled := u\<rparr>) = on_disk s"
  by (simp_all add: on_disk_def)

lemma on_disk_ok: "document_ok (on_disk s)"
  by (auto simp: on_disk_def document_ok_def dest: load_document_ok split: option.splits bind_splits)

lemma load_cases:
  assumes "loadLocked readable s = (e, s1)"
  obtains "s1 = s" "e \<noteq> None" "\<not> jn_loaded s" | "s1 = s" "e = None" "jn_loaded s"
  | "\<not> jn_loaded s" "e = None" "s1 = s\<lparr>jn_records := on_disk s, jn_loaded := True\<rparr>"
  using assms by (auto simp: loadLocked_def on_disk_def split: if_splits option.splits)

lemma inv_load:
  assumes "journal_inv s owed known" and "loadLocked readable s = (e, s1)"
  shows "journal_inv s1 owed known" and "e = None \<Longrightarrow> jn_loaded s1" and "jn_live s1 = jn_live s"
proof -
  show "jn_live s1 = jn_live s" "e = None \<Longrightarrow> jn_loaded s1" using assms(2) by (auto elim: load_cases)
  show "journal_inv s1 owed known"
    using assms(2)
  proof (cases rule: load_cases)
    case 3
    then show ?thesis
      using assms(1) on_disk_ok core_load [of "lookup_record (jn_records s)"] by (simp add: journal_inv_def)
  qed (use assms(1) in simp_all)
qed

lemma write_cases:
  assumes "writeLocked writable s = (ok, s1)"
  obtains "\<not> ok" "s1 = s"
  | "ok" "s1 = s\<lparr>jn_file := Some (print_json (document_json (jn_records s)))\<rparr>"
    "length (print_json (document_json (jn_records s))) \<le> smartAccessRestrictionDocumentLimit"
  using assms by (auto simp: writeLocked_def Let_def split: if_splits)

lemma written_on_disk:
  assumes "document_ok (jn_records s)" and "writeLocked writable s = (True, s1)"
  shows "on_disk s1 = jn_records s" and "Option.bind (jn_file s1) load_document \<noteq> None"
  using assms(2) by (cases rule: write_cases; auto simp: on_disk_def load_document_back [OF assms(1)])+

lemma inv_write:
  assumes "journal_inv s owed known" and "jn_loaded s" and "writeLocked writable s = (ok, s1)"
  shows "journal_inv s1 owed known" and "s1\<lparr>jn_file := jn_file s\<rparr> = s" and "\<not> ok \<Longrightarrow> s1 = s"
proof -
  show "s1\<lparr>jn_file := jn_file s\<rparr> = s" "\<not> ok \<Longrightarrow> s1 = s" using assms(3) by (auto elim: write_cases)
  show "journal_inv s1 owed known"
  proof (cases ok)
    case True
    have doc: "document_ok (jn_records s)" using assms(1) by (simp add: journal_inv_def)
    have w: "writeLocked writable s = (True, s1)" using assms(3) True by simp
    have f: "jn_records s1 = jn_records s" "jn_loaded s1" "jn_live s1 = jn_live s" "jn_unsettled s1 = jn_unsettled s"
      using w assms(2) by (auto elim: write_cases)
    have "journal_core True (lookup_record (jn_records s)) (jn_live s) (jn_unsettled s) (lookup_record (jn_records s)) owed known"
      by (rule core_write [where disk = "lookup_record (on_disk s)"]) (use assms(1,2) in \<open>simp add: journal_inv_def\<close>)
    then show ?thesis
      using written_on_disk [OF doc w] doc by (simp add: journal_inv_def f)
  next
    case False
    then show ?thesis using assms(1,3) by (auto elim: write_cases)
  qed
qed

lemma inv_snd_write: "journal_inv s owed known \<Longrightarrow> jn_loaded s \<Longrightarrow> journal_inv (snd (writeLocked writable s)) owed known"
  using inv_write(1) [of s owed known writable "fst (writeLocked writable s)" "snd (writeLocked writable s)"] by simp

text \<open>Replacing one record.\<close>

lemma document_ok_update:
  assumes "document_ok rs" and "i < length rs" and "rr_ProfileDigest r' = rr_ProfileDigest (rs ! i)" and "record_ok r'"
  shows "document_ok (rs[i := r'])"
proof -
  have "map rr_ProfileDigest (rs[i := r']) = map rr_ProfileDigest rs"
    using assms(2,3) by (simp add: map_update list_update_same_conv)
  moreover have "list_all record_ok (rs[i := r'])"
    using assms(1,4) set_update_subset_insert [of rs i r'] by (auto simp: document_ok_def list_all_iff)
  ultimately show ?thesis using assms(1) by (simp add: document_ok_def)
qed

lemma inv_replace:
  assumes "document_ok (jn_records s)" and "jn_file s = None \<or> Option.bind (jn_file s) load_document \<noteq> None"
    and "i < length (jn_records s)" and "rr_ProfileDigest (jn_records s ! i) = p" and "rr_ProfileDigest r' = p"
    and "record_ok r'"
    and "journal_core (jn_loaded s) ((lookup_record (jn_records s))(p \<mapsto> r')) (jn_live s) (jn_unsettled s)
         (lookup_record (on_disk s)) owed known"
  shows "journal_inv (s\<lparr>jn_records := (jn_records s)[i := r']\<rparr>) owed known"
proof -
  let ?rs = "jn_records s"
  have d: "distinct (map rr_ProfileDigest ?rs)" using assms(1) by (simp add: document_ok_def)
  have "document_ok (?rs[i := r'])" using assms(1,3-6) by (intro document_ok_update) simp_all
  moreover have "lookup_record (?rs[i := r']) = (lookup_record ?rs)(p \<mapsto> r')"
    using lookup_update [OF d assms(3), of r'] assms(4,5) by simp
  ultimately show ?thesis using assms(2,7) by (simp add: journal_inv_def)
qed

lemma inv_parts:
  assumes "journal_inv s owed known"
  shows "document_ok (jn_records s)" and "distinct (map rr_ProfileDigest (jn_records s))"
    and "jn_file s = None \<or> Option.bind (jn_file s) load_document \<noteq> None"
    and "journal_core (jn_loaded s) (lookup_record (jn_records s)) (jn_live s) (jn_unsettled s)
         (lookup_record (on_disk s)) owed known"
    and "r \<in> set (jn_records s) \<Longrightarrow> record_ok r"
  using assms by (auto simp: journal_inv_def document_ok_def list_all_iff)

lemma inv_core:
  assumes "journal_inv s owed known" and "jn_loaded s"
  shows "journal_core True (lookup_record (jn_records s)) (jn_live s) (jn_unsettled s) (lookup_record (on_disk s)) owed known"
  using inv_parts(4) [OF assms(1)] assms(2) by simp

lemma inv_live_loaded:
  assumes "journal_inv s owed known" and "jn_live s p = Some g"
  shows "jn_loaded s" and "\<exists>r. lookup_record (jn_records s) p = Some r \<and> rr_Generation r = g \<and> rr_Pending r"
proof -
  note core = inv_parts(4) [OF assms(1)]
  show "jn_loaded s"
  proof (rule ccontr)
    assume "\<not> jn_loaded s"
    then show False using core_D(1) [OF core] assms(2) by simp
  qed
  show "\<exists>r. lookup_record (jn_records s) p = Some r \<and> rr_Generation r = g \<and> rr_Pending r"
    using core_D(2) [OF core assms(2)] .
qed

text \<open>Replacing a record by one that shows as much, then trying to write.\<close>

lemma inv_update:
  assumes inv: "journal_inv s owed known" and loaded: "jn_loaded s"
    and i: "i < length (jn_records s)" "rr_ProfileDigest (jn_records s ! i) = p"
    and r': "rr_ProfileDigest r' = p" "record_ok r'"
    and same: "rr_Generation r' = rr_Generation (jn_records s ! i)" "rr_Pending r' = rr_Pending (jn_records s ! i)"
    and grows: "\<And>c. shows_claim (jn_records s ! i) c \<Longrightarrow> shows_claim r' c"
  shows "journal_inv (s\<lparr>jn_records := (jn_records s)[i := r']\<rparr>) owed known"
proof (rule inv_replace)
  have "lookup_record (jn_records s) p = Some (jn_records s ! i)"
    using lookup_member [OF inv_parts(2) [OF inv], of "jn_records s ! i"] i by simp
  then show "journal_core (jn_loaded s) ((lookup_record (jn_records s))(p \<mapsto> r')) (jn_live s) (jn_unsettled s)
      (lookup_record (on_disk s)) owed known"
    using core_update [OF inv_core [OF inv loaded], of p _ r'] same grows loaded by simp
qed (use inv_parts(1,3) [OF inv] i r' in simp_all)

lemma inv_write_or_restore:
  assumes inv: "journal_inv s owed known" and loaded: "jn_loaded s"
    and inv': "journal_inv (s\<lparr>jn_records := rs\<rparr>) owed known"
    and w: "writeLocked writable (s\<lparr>jn_records := rs\<rparr>) = (ok, s2)"
    and res: "s' = (if ok then s2 else s2\<lparr>jn_records := jn_records s\<rparr>)"
  shows "journal_inv s' owed known"
proof (cases ok)
  case True
  then show ?thesis using inv_write(1) [OF inv' _ w] loaded res by simp
next
  case False
  then show ?thesis using inv_write(3) [OF inv' _ w] loaded res inv by simp
qed

lemma inv_extend:
  assumes inv: "journal_inv s owed known" and t: "expiry_ok expires"
    and step: "extendExpiry writable p g expires s = (res, s')"
  shows "journal_inv s' owed known"
proof (cases "jn_live s p = Some g")
  case False
  then show ?thesis using step inv by (simp add: extendExpiry_def)
next
  case True
  have loaded: "jn_loaded s" using inv_live_loaded(1) [OF inv True] .
  obtain i where i: "record_index p g s = Some i" using inv_live_loaded(2) [OF inv True] record_index_live by blast
  note r = record_index_lookup [OF i inv_parts(2) [OF inv]]
  let ?r = "jn_records s ! i" and ?s = "s\<lparr>jn_records := (jn_records s)[i := (jn_records s ! i)\<lparr>rr_ExpiresAt := format_time expires\<rparr>]\<rparr>"
  show ?thesis
  proof (cases "time_after expires (control_time (rr_ExpiresAt ?r))")
    case False
    then show ?thesis using step inv True i by (simp add: extendExpiry_def)
  next
    case later: True
    have "record_ok ?r" using inv_parts(5) [OF inv, of ?r] r(1) by simp
    then have "record_ok (?r\<lparr>rr_ExpiresAt := format_time expires\<rparr>)"
      using after_antisym [OF expiry_ok_wall [OF t] control_time_wall later] by (intro record_ok_later t)
    moreover have "shows_claim (?r\<lparr>rr_ExpiresAt := format_time expires\<rparr>) c = shows_claim ?r c" for c by (cases c) simp_all
    ultimately have inv': "journal_inv ?s owed known" using r by (intro inv_update [OF inv loaded]) simp_all
    obtain ok s2 where w: "writeLocked writable ?s = (ok, s2)" by (cases "writeLocked writable ?s")
    have "s' = (if ok then s2 else s2\<lparr>jn_records := jn_records s\<rparr>)"
      using step True i later w by (cases ok) (simp_all add: extendExpiry_def)
    then show ?thesis by (rule inv_write_or_restore [OF inv loaded inv' w])
  qed
qed

lemma inv_retain:
  assumes inv: "journal_inv s owed known" and ids: "identity_ok previous" "identity_ok next"
    and step: "retainRenewal writable now p g previous next currentIDs s = (res, s')"
  shows "journal_inv s' owed known"
proof (cases "s' = s")
  case False
  from False step have live: "jn_live s p = Some g" by (auto simp: retainRenewal_def split: if_splits)
  have loaded: "jn_loaded s" using inv_live_loaded(1) [OF inv live] .
  obtain i where i: "record_index p g s = Some i" using inv_live_loaded(2) [OF inv live] record_index_live by blast
  note r = record_index_lookup [OF i inv_parts(2) [OF inv]]
  let ?r = "jn_records s ! i"
  let ?kept = "retained_leases now previous next currentIDs (rr_Leases ?r)"
  obtain m where m: "Option.bind (add_lease previous ?kept) (add_lease next) = Some m" "length m \<le> 256"
    using False step i by (auto simp: retainRenewal_def Let_def split: if_splits option.splits)
  let ?r' = "?r\<lparr>rr_Leases := map snd m, rr_ExpiresAt := format_time (latest_expiry (rr_ExpiresAt ?r) (map snd m))\<rparr>"
  let ?s = "s\<lparr>jn_records := (jn_records s)[i := ?r']\<rparr>"
  have ok: "record_ok ?r" using inv_parts(5) [OF inv, of ?r] r(1) by simp
  then have "lease_map ?kept" by (intro lease_map_retained) (auto simp: record_ok_def list_all_iff lease_within_def)
  then have "lease_map m" using m(1) ids lease_map_add by (auto simp: bind_eq_Some_conv)
  then have "record_ok ?r'" using ok m(2) by (intro renewed_record_ok)
  moreover have "shows_claim ?r' c = shows_claim ?r c" for c by (cases c) simp_all
  ultimately have inv': "journal_inv ?s owed known" using r by (intro inv_update [OF inv loaded]) simp_all
  obtain ok s2 where w: "writeLocked writable ?s = (ok, s2)" by (cases "writeLocked writable ?s")
  have "s' = (if ok then s2 else s2\<lparr>jn_records := jn_records s\<rparr>)"
    using False step i m w by (cases ok) (auto simp: retainRenewal_def Let_def split: if_splits)
  then show ?thesis by (rule inv_write_or_restore [OF inv loaded inv' w])
qed (use inv in simp)

lemma inv_claim:
  assumes inv: "journal_inv s owed known" and live: "jn_live s p = Some g"
    and "p \<in> jn_unsettled s \<or> (\<exists>r. lookup_record (jn_records s) p = Some r \<and> shows_claim r c)"
  shows "journal_inv s (insert (p, c) owed) (insert (p, c) known)"
  using core_claim [OF inv_core [OF inv inv_live_loaded(1) [OF inv live]] live assms(3)]
    inv inv_live_loaded(1) [OF inv live] by (simp add: journal_inv_def)

lemma inv_restrict:
  assumes inv: "journal_inv s owed known" and live: "jn_live s p = Some g"
  shows "journal_inv (restrict writable p g reason s) (insert (p, PolicyClaim reason) owed) (insert (p, PolicyClaim reason) known)"
proof -
  have loaded: "jn_loaded s" using inv_live_loaded(1) [OF inv live] .
  obtain i where i: "record_index p g s = Some i" using inv_live_loaded(2) [OF inv live] record_index_live by blast
  note r = record_index_lookup [OF i inv_parts(2) [OF inv]]
  let ?r' = "restricted_record reason (jn_records s ! i)" and ?s = "s\<lparr>jn_records := (jn_records s)[i := restricted_record reason (jn_records s ! i)]\<rparr>"
  have inv': "journal_inv ?s owed known"
    using r inv_parts(5) [OF inv, of "jn_records s ! i"] restricted_record_shows(2)
    by (intro inv_update [OF inv loaded]) (simp_all add: restricted_record_ok)
  have "lookup_record (jn_records ?s) p = Some ?r'"
    using lookup_update [OF inv_parts(2) [OF inv] r(1), of ?r'] r(3) by simp
  then have "journal_inv ?s (insert (p, PolicyClaim reason) owed) (insert (p, PolicyClaim reason) known)"
    using restricted_record_shows(1) live by (intro inv_claim [OF inv', where g = g]) auto
  then show ?thesis using i loaded inv_snd_write by (simp add: restrict_def)
qed

lemma inv_scope:
  assumes inv: "journal_inv s owed known" and live: "jn_live s p = Some g"
    and scope: "smartAccessRuntimeDigest scope" and action: "action = ''drain'' \<or> action = ''terminate''"
  shows "journal_inv (restrictScope writable p g scope action s)
    (insert (p, ScopeClaim scope action) owed) (insert (p, ScopeClaim scope action) known)"
proof -
  have loaded: "jn_loaded s" using inv_live_loaded(1) [OF inv live] .
  obtain i where i: "record_index p g s = Some i" using inv_live_loaded(2) [OF inv live] record_index_live by blast
  note r = record_index_lookup [OF i inv_parts(2) [OF inv]]
  let ?r = "jn_records s ! i" and ?c = "ScopeClaim scope action"
  let ?r' = "if entry (rr_ScopeActions ?r) scope \<noteq> ''terminate'' then ?r\<lparr>rr_ScopeActions := put scope action (rr_ScopeActions ?r)\<rparr> else ?r"
  show ?thesis
  proof (cases "entry (rr_ScopeActions ?r) scope = [] \<and> length (rr_ScopeActions ?r) \<ge> 256")
    case True
    have "journal_inv (s\<lparr>jn_unsettled := insert p (jn_unsettled s)\<rparr>) owed known"
      using core_unsettled [OF inv_core [OF inv loaded] live] inv loaded by (simp add: journal_inv_def)
    then show ?thesis using True i live inv_claim [where g = g] by (simp add: restrictScope_def)
  next
    case False
    let ?s = "s\<lparr>jn_records := (jn_records s)[i := ?r']\<rparr>"
    have ok: "record_ok ?r'"
      using scope_record_ok [OF _ scope action, of ?r] inv_parts(5) [OF inv, of ?r] r(1) False by (auto simp: not_le)
    have "shows_claim ?r' d" if "shows_claim ?r d" for d using that action by (cases d) auto
    then have inv': "journal_inv ?s owed known" using r ok by (intro inv_update [OF inv loaded]) simp_all
    have "lookup_record (jn_records ?s) p = Some ?r'"
      using lookup_update [OF inv_parts(2) [OF inv] r(1), of ?r'] r(3) by simp
    moreover have "shows_claim ?r' ?c" using action by auto
    ultimately have "journal_inv ?s (insert (p, ?c) owed) (insert (p, ?c) known)"
      using live by (intro inv_claim [OF inv', where g = g]) auto
    moreover have "restrictScope writable p g scope action s = snd (writeLocked writable ?s)"
      by (simp only: restrictScope_def i option.case Let_def False if_False)
    ultimately show ?thesis using inv_snd_write [of ?s] loaded by simp
  qed
qed

lemma inv_finish:
  assumes inv: "journal_inv s owed known"
  shows "journal_inv (finish writable p g s) owed known"
proof (cases "jn_live s p = Some g")
  case False
  then show ?thesis using inv by (simp add: finish_def)
next
  case live: True
  have loaded: "jn_loaded s" using inv_live_loaded(1) [OF inv live] .
  obtain r where r: "lookup_record (jn_records s) p = Some r" using inv_live_loaded(2) [OF inv live] by blast
  then obtain i where i: "position (\<lambda>r. rr_ProfileDigest r = p) (jn_records s) = Some i"
    using position_None [of "\<lambda>r. rr_ProfileDigest r = p"] lookup_profile by fastforce
  note pos = position_Some [OF i]
  have ri: "r = jn_records s ! i" using pos r by (simp add: lookup_record_def)
  let ?r' = "(jn_records s ! i)\<lparr>rr_Pending := p \<in> jn_unsettled s\<rparr>"
  define s0 where "s0 = s\<lparr>jn_live := (jn_live s)(p := None)\<rparr>"
  have f: "jn_records s0 = jn_records s" "jn_loaded s0" "jn_live s0 = (jn_live s)(p := None)"
    "jn_unsettled s0 = jn_unsettled s" "jn_file s0 = jn_file s" "on_disk s0 = on_disk s"
    using loaded by (simp_all add: s0_def)
  let ?s = "s0\<lparr>jn_records := (jn_records s0)[i := ?r']\<rparr>"
  have "record_ok (jn_records s ! i)" using inv_parts(5) [OF inv, of "jn_records s ! i"] pos by simp
  then have ok: "record_ok ?r'" by (simp add: record_ok_def)
  have "journal_core True ((lookup_record (jn_records s))(p \<mapsto> ?r')) ((jn_live s)(p := None)) (jn_unsettled s)
      (lookup_record (on_disk s)) owed known"
    using core_finish [OF inv_core [OF inv loaded] live r, of ?r'] ri by simp
  then have "journal_inv ?s owed known"
    using inv_parts(1,3) [OF inv] pos ok f(2) by (intro inv_replace [where p = p]) (simp_all add: f)
  moreover have "finish writable p g s = snd (writeLocked writable ?s)"
    using live i by (simp add: finish_def s0_def)
  ultimately show ?thesis using inv_snd_write [of ?s] f(2) by simp
qed

text \<open>What a record without restrictions cannot show.\<close>

lemma idle_shows:
  assumes "\<not> (rr_PolicyAction r \<noteq> ''none'' \<or> rr_CatalogWithdrawn r \<or> length (rr_ScopeActions r) \<noteq> 0)"
  shows "\<not> shows_claim r c"
  using assms by (cases c) (auto simp: entry_def)

lemma inv_begun:
  assumes inv: "journal_inv s owed known" and loaded: "jn_loaded s"
    and doc: "document_ok rs" and rs: "lookup_record rs = (lookup_record (jn_records s))(p \<mapsto> b)"
    and p: "p \<notin> jn_unsettled s" and b: "rr_Generation b = g" "rr_Pending b"
    and idle: "\<And>r c. lookup_record (jn_records s) p = Some r \<Longrightarrow> jn_live s p = None \<Longrightarrow> \<not> rr_Pending r \<and> \<not> shows_claim r c"
    and grows: "\<And>r c. lookup_record (jn_records s) p = Some r \<Longrightarrow> shows_claim r c \<Longrightarrow> shows_claim b c"
    and w: "writeLocked writable (s\<lparr>jn_records := rs\<rparr>) = (True, s3)"
  shows "journal_inv (s3\<lparr>jn_live := (jn_live s3)(p \<mapsto> g)\<rparr>) owed known"
proof -
  have f: "jn_records s3 = rs" "jn_loaded s3" "jn_live s3 = jn_live s" "jn_unsettled s3 = jn_unsettled s"
    using w loaded by (auto elim: write_cases)
  have disk: "on_disk s3 = rs" "Option.bind (jn_file s3) load_document \<noteq> None"
    using written_on_disk [OF _ w] doc by simp_all
  have "journal_core True (lookup_record rs) ((jn_live s)(p \<mapsto> g)) (jn_unsettled s) (lookup_record rs) owed known"
    unfolding rs by (rule core_begin [OF inv_core [OF inv loaded] p b]) (use idle grows in blast)+
  then show ?thesis using doc disk by (simp add: journal_inv_def f)
qed

lemma begun_document:
  assumes inv1: "journal_inv s owed known" and p: "smartAccessRuntimeDigest p"
    and catalog: "catalog = [] \<or> smartAccessRuntimeDigest catalog" and gid: "smartAccessLeaseID g" and t: "expiry_ok expires"
    and allowed: "begin_refusal p catalog s = None" and uns: "p \<notin> jn_unsettled s"
    and rs: "rs = (case position (\<lambda>r. rr_ProfileDigest r = p) (jn_records s) of
          None \<Rightarrow> jn_records s @ [begun_record g catalog expires (new_record p catalog)]
        | Some i \<Rightarrow> (jn_records s)[i := begun_record g catalog expires (jn_records s ! i)])"
    and b: "b = begun_record g catalog expires (case position (\<lambda>r. rr_ProfileDigest r = p) (jn_records s) of
          None \<Rightarrow> new_record p catalog | Some i \<Rightarrow> jn_records s ! i)"
  shows "document_ok rs \<and> lookup_record rs = (lookup_record (jn_records s))(p \<mapsto> b)
    \<and> (\<forall>r c. lookup_record (jn_records s) p = Some r \<longrightarrow> (jn_live s p = None \<longrightarrow> \<not> rr_Pending r \<and> \<not> shows_claim r c)
        \<and> (shows_claim r c \<longrightarrow> shows_claim b c))"
proof (cases "position (\<lambda>r. rr_ProfileDigest r = p) (jn_records s)")
  case None
  have len: "length (jn_records s) < 3" using allowed uns None by (auto simp: begin_refusal_def split: if_splits)
  have out: "lookup_record (jn_records s) p = None"
    using None position_None [of "\<lambda>r. rr_ProfileDigest r = p"] by (auto simp: lookup_record_def find_None_iff)
  have "record_ok b" unfolding b None option.case
    by (rule begun_record_ok)
      (use p catalog gid t in \<open>simp_all add: new_record_def record_ok_def sorted_map_def\<close>)
  then have "document_ok ((jn_records s) @ [b])"
    using inv_parts(1) [OF inv1] len None position_None [of "\<lambda>r. rr_ProfileDigest r = p" "jn_records s"]
    by (auto simp: document_ok_def b new_record_def)
  then show ?thesis using lookup_snoc [of "jn_records s" b] out None rs b by (simp add: new_record_def)
next
  case (Some i)
  note pos = position_Some [OF Some]
  have r: "lookup_record (jn_records s) p = Some ((jn_records s) ! i)" using pos by (simp add: lookup_record_def)
  have "record_ok ((jn_records s) ! i)" using inv_parts(5) [OF inv1] pos by simp
  then have okb: "record_ok b" unfolding b Some option.case
    by (intro begun_record_ok gid t catalog) (simp add: record_ok_def gid)
  have prof: "rr_ProfileDigest b = p" using pos b Some by simp
  have "document_ok ((jn_records s)[i := b])"
    using inv_parts(1) [OF inv1] pos prof okb by (intro document_ok_update) simp_all
  moreover have "lookup_record ((jn_records s)[i := b]) = (lookup_record (jn_records s))(p \<mapsto> b)"
    using lookup_update [OF inv_parts(2) [OF inv1], of i b] pos prof by simp
  moreover have "\<not> rr_Pending ((jn_records s) ! i) \<and> \<not> shows_claim ((jn_records s) ! i) c" if "jn_live s p = None" for c
    using allowed uns Some that idle_shows [of "(jn_records s) ! i" c] by (auto simp: begin_refusal_def Let_def split: if_splits)
  moreover have "shows_claim b c = shows_claim ((jn_records s) ! i) c" for c using b Some by simp
  ultimately show ?thesis using rs b Some r by simp
qed

lemma inv_begin:
  assumes inv: "journal_inv s owed known" and p: "smartAccessRuntimeDigest p"
    and catalog: "catalog = [] \<or> smartAccessRuntimeDigest catalog"
    and random: "list_all smartAccessLeaseID (case random of None \<Rightarrow> [] | Some g \<Rightarrow> [g])" and t: "expiry_ok expires"
    and step: "begin_worker readable random writable p catalog expires s = (res, s')"
  shows "journal_inv s' owed known"
proof -
  obtain e s1 where l: "loadLocked readable s = (e, s1)" by (cases "loadLocked readable s")
  note inv1 = inv_load(1) [OF inv l]
  show ?thesis
  proof (cases "e = None \<and> begin_refusal p catalog s1 = None \<and> random \<noteq> None")
    case False
    then have "s' = s1" using step l by (auto simp: begin_worker_def split: option.splits)
    then show ?thesis using inv1 by simp
  next
    case True
    then obtain g where g: "e = None" "begin_refusal p catalog s1 = None" "random = Some g" by blast
    have loaded: "jn_loaded s1" using inv_load(2) [OF inv l g(1)] .
    have gid: "smartAccessLeaseID g" using random g(3) by simp
    let ?rs = "jn_records s1" and ?P = "\<lambda>r. rr_ProfileDigest r = p"
    have uns: "p \<notin> jn_unsettled s1" using g(2) by (auto simp: begin_refusal_def split: if_splits)
    obtain rs b where new: "rs = (case position ?P ?rs of
          None \<Rightarrow> ?rs @ [begun_record g catalog expires (new_record p catalog)]
        | Some i \<Rightarrow> ?rs[i := begun_record g catalog expires (?rs ! i)])" "b = begun_record g catalog expires
          (case position ?P ?rs of None \<Rightarrow> new_record p catalog | Some i \<Rightarrow> ?rs ! i)" by blast
    obtain ok s3 where w: "writeLocked writable (s1\<lparr>jn_records := rs\<rparr>) = (ok, s3)"
      by (cases "writeLocked writable (s1\<lparr>jn_records := rs\<rparr>)")
    have res: "s' = (if ok then s3\<lparr>jn_live := (jn_live s3)(p \<mapsto> g)\<rparr> else s3\<lparr>jn_records := ?rs\<rparr>)"
      using step l g w new by (cases ok; cases "position ?P ?rs") (simp_all add: begin_worker_def Let_def)
    show ?thesis
    proof (cases ok)
      case False
      then have "s3 = s1\<lparr>jn_records := rs\<rparr>" using w by (auto elim: write_cases)
      then show ?thesis using res False inv1 by simp
    next
      case True
      have "document_ok rs \<and> lookup_record rs = (lookup_record ?rs)(p \<mapsto> b)
          \<and> (\<forall>r c. lookup_record ?rs p = Some r \<longrightarrow> (jn_live s1 p = None \<longrightarrow> \<not> rr_Pending r \<and> \<not> shows_claim r c)
              \<and> (shows_claim r c \<longrightarrow> shows_claim b c))"
        by (rule begun_document [OF inv1 p catalog gid t g(2) uns new])
      moreover have "rr_Generation b = g" "rr_Pending b" by (simp_all add: new(2))
      ultimately show ?thesis
        using res True w uns by (simp, intro inv_begun [OF inv1 loaded, where rs = rs and b = b]) blast+
    qed
  qed
qed

lemma snapshot_cases:
  assumes "snapshotLocked readable writable s = (res, s')"
  obtains e where "loadLocked readable s = (Some e, s')" "res = Inl e"
  | s1 where "loadLocked readable s = (None, s1)" "writeLocked writable s1 = (False, s')" "res = Inl StorageUnavailable"
  | s1 where "loadLocked readable s = (None, s1)" "writeLocked writable s1 = (True, s')"
      "res = (if length (print_json (snapshot_json s')) > smartAccessRestrictionSnapshotLimit then Inl StorageInvalid
              else Inr (print_json (snapshot_json s'), snapshot_digest s'))"
proof -
  obtain e s1 where l: "loadLocked readable s = (e, s1)" by (cases "loadLocked readable s")
  obtain ok s2 where w: "writeLocked writable s1 = (ok, s2)" by (cases "writeLocked writable s1")
  show thesis
  proof (cases e)
    case None
    then show thesis using assms l w that(2,3) [of s1] by (cases ok) (auto simp: snapshotLocked_def Let_def split: if_splits)
  next
    case (Some x)
    then show thesis using assms l that(1) by (simp add: snapshotLocked_def)
  qed
qed

lemma inv_snapshot:
  assumes inv: "journal_inv s owed known" and step: "snapshotLocked readable writable s = (res, s')"
  shows "journal_inv s' owed known" and "jn_live s' = jn_live s" and "res = Inr x \<Longrightarrow> jn_loaded s'"
proof -
  have "journal_inv s' owed known \<and> jn_live s' = jn_live s \<and> (res = Inr x \<longrightarrow> jn_loaded s')"
    using step
  proof (cases rule: snapshot_cases)
    case (1 e)
    then show ?thesis using inv_load [OF inv 1(1)] by simp
  next
    case (2 s1)
    then show ?thesis using inv_load [OF inv 2(1)] by (auto elim: write_cases)
  next
    case (3 s1)
    note l = inv_load [OF inv 3(1)]
    have "jn_live s' = jn_live s1 \<and> jn_loaded s'" using 3(2) l(2) by (auto elim: write_cases)
    then show ?thesis using inv_write(1) [OF l(1) _ 3(2)] l(2,3) by simp
  qed
  then show "journal_inv s' owed known" "jn_live s' = jn_live s" "res = Inr x \<Longrightarrow> jn_loaded s'" by auto
qed

lemma lookup_None: "lookup_record rs p = None \<longleftrightarrow> (\<forall>r \<in> set rs. rr_ProfileDigest r \<noteq> p)"
  by (simp add: lookup_record_def find_None_iff) blast

lemma lookup_filter:
  assumes d: "distinct (map rr_ProfileDigest rs)"
  shows "lookup_record (filter P rs) p = (case lookup_record rs p of None \<Rightarrow> None | Some r \<Rightarrow> if P r then Some r else None)"
proof (cases "lookup_record rs p")
  case None
  then have "lookup_record (filter P rs) p = None" by (simp add: lookup_None)
  then show ?thesis using None by simp
next
  case (Some r)
  have r: "r \<in> set rs" "rr_ProfileDigest r = p" using lookup_profile [OF Some] by auto
  show ?thesis
  proof (cases "P r")
    case True
    then show ?thesis
      using lookup_member [OF distinct_map_filter [OF d], of r P] r Some by simp
  next
    case False
    have "x = r" if "x \<in> set rs" "rr_ProfileDigest x = p" for x
      using lookup_member [OF d that(1)] that(2) Some by simp
    then have "lookup_record (filter P rs) p = None" using False by (auto simp: lookup_None)
    then show ?thesis using Some False by simp
  qed
qed

text \<open>An acknowledgement in its steps.\<close>

lemma ack_cases:
  assumes "AcknowledgeSmartAccessRestrictions readable writable writable' digest s = (res, s')"
  obtains "s' = s" "res \<noteq> Inr True"
  | r where "snapshotLocked readable writable s = (r, s')" "res \<noteq> Inr True"
  | enc s1 s2 where "snapshotLocked readable writable s = (Inr (enc, digest), s1)"
      "writeLocked writable' (s1\<lparr>jn_records := filter (live_record s1) (jn_records s1)\<rparr>) = (False, s2)"
      "s' = s2\<lparr>jn_records := jn_records s1\<rparr>" "res \<noteq> Inr True"
  | enc s1 s2 where "snapshotLocked readable writable s = (Inr (enc, digest), s1)"
      "writeLocked writable' (s1\<lparr>jn_records := filter (live_record s1) (jn_records s1)\<rparr>) = (True, s2)"
      "s' = s2\<lparr>jn_unsettled := jn_unsettled s2
         - set (map rr_ProfileDigest (filter (\<lambda>r. \<not> live_record s2 r) (jn_records s1)))\<rparr>" "res = Inr True"
proof (cases "smartAccessRuntimeDigest digest")
  case False
  then show thesis using assms that(1) by (auto simp: AcknowledgeSmartAccessRestrictions_def)
next
  case True
  obtain r s1 where snap: "snapshotLocked readable writable s = (r, s1)" by (cases "snapshotLocked readable writable s")
  show thesis
  proof (cases "\<exists>enc. r = Inr (enc, digest)")
    case False
    then show thesis using assms True snap that(2) [of r]
      by (cases r) (auto simp: AcknowledgeSmartAccessRestrictions_def)
  next
    case True
    then obtain enc where r: "r = Inr (enc, digest)" by blast
    let ?s = "s1\<lparr>jn_records := filter (live_record s1) (jn_records s1)\<rparr>"
    obtain ok s2 where w: "writeLocked writable' ?s = (ok, s2)" by (cases "writeLocked writable' ?s")
    show thesis
      using assms \<open>smartAccessRuntimeDigest digest\<close> snap r w that(3) [of enc s1 s2] that(4) [of enc s1 s2]
      by (cases ok) (auto simp: AcknowledgeSmartAccessRestrictions_def)
  qed
qed

lemma inv_ack_false:
  assumes inv: "journal_inv s owed known" and res: "res \<noteq> Inr True"
    and step: "AcknowledgeSmartAccessRestrictions readable writable writable' digest s = (res, s')"
  shows "journal_inv s' owed known"
  using step
proof (cases rule: ack_cases)
  case 1
  then show ?thesis using inv by simp
next
  case (2 r)
  then show ?thesis using inv_snapshot(1) [OF inv] by blast
next
  case (3 enc s1 s2)
  then have "s' = s1" by (auto elim!: write_cases)
  then show ?thesis using inv_snapshot(1) [OF inv 3(1)] by simp
next
  case (4 enc s1 s2)
  then show ?thesis using res by simp
qed

lemma inv_ack_true:
  assumes inv: "journal_inv s owed known"
    and step: "AcknowledgeSmartAccessRestrictions readable writable writable' digest s = (Inr True, s')"
  shows "journal_inv s' {pc \<in> owed. jn_live s (fst pc) \<noteq> None} {pc \<in> known. jn_live s (fst pc) \<noteq> None}"
  using step
proof (cases rule: ack_cases)
  case (4 enc s1 s2)
  note snap = inv_snapshot [OF inv 4(1)]
  have loaded: "jn_loaded s1" using snap(3) by simp
  let ?rs = "jn_records s1" and ?kept = "filter (live_record s1) (jn_records s1)"
  have doc: "document_ok ?kept"
    using inv_parts(1) [OF snap(1)] by (auto simp: document_ok_def list_all_iff distinct_map_filter intro: le_trans [OF length_filter_le])
  have f: "jn_records s2 = ?kept" "jn_loaded s2" "jn_live s2 = jn_live s1" "jn_unsettled s2 = jn_unsettled s1"
    using 4(2) loaded by (auto elim: write_cases)
  have disk: "on_disk s2 = ?kept" "Option.bind (jn_file s2) load_document \<noteq> None"
    using written_on_disk [OF _ 4(2)] doc by simp_all
  have d: "distinct (map rr_ProfileDigest ?rs)" using inv_parts(2) [OF snap(1)] .
  have mem: "lookup_record ?kept = (\<lambda>p. case lookup_record ?rs p of None \<Rightarrow> None
      | Some r \<Rightarrow> if jn_live s1 p = Some (rr_Generation r) then Some r else None)"
    using lookup_profile by (fastforce simp: lookup_filter [OF d] live_record_def split: option.splits)
  have uns: "jn_unsettled s' = jn_unsettled s1 - {p. \<exists>r. lookup_record ?rs p = Some r \<and> jn_live s1 p \<noteq> Some (rr_Generation r)}"
    using lookup_member [OF d] lookup_profile [of ?rs] by (fastforce simp: 4(3) f live_record_def)
  show ?thesis
    using core_ack [OF inv_core [OF snap(1) loaded] mem uns] doc disk snap(2)
    by (simp add: journal_inv_def 4(3) f)
qed simp_all

lemma inv_crash:
  assumes inv: "journal_inv s owed known"
  shows "journal_inv (new_journal (jn_file s)) owed {}"
proof -
  have "on_disk (new_journal (jn_file s)) = on_disk s" by (simp add: on_disk_def new_journal_def)
  then have "journal_core False (lookup_record []) (\<lambda>_. None) {} (lookup_record (on_disk (new_journal (jn_file s)))) owed {}"
    using core_D(6) [OF inv_parts(4) [OF inv]] by (intro core_I) simp_all
  then show ?thesis using inv_parts(3) [OF inv] by (simp add: journal_inv_def new_journal_def document_ok_def)
qed

abbreviation system_inv :: "journal_system \<Rightarrow> bool" where
  "system_inv x \<equiv> journal_inv (jy_journal x) (jy_owed x) (jy_known x)"

lemma system_inv_init:
  assumes "journal_init x"
  shows "system_inv x"
proof -
  obtain f where x: "x = \<lparr>jy_journal = new_journal f, jy_owed = {}, jy_known = {}\<rparr>"
    "f = None \<or> Option.bind f load_document \<noteq> None"
    using assms by (auto simp: journal_init_def)
  have "journal_core False (lookup_record []) (\<lambda>_. None) {} (lookup_record (on_disk (new_journal f))) {} {}"
    by (intro core_I) simp_all
  then show ?thesis using x by (simp add: journal_inv_def new_journal_def document_ok_def)
qed

lemma system_inv_step:
  assumes inv: "system_inv x" and step: "journal_step x y"
  shows "system_inv y"
  using step
proof (cases rule: journal_step.cases)
  case begin_step
  then show ?thesis using inv_begin [OF inv] by simp
next
  case extend_step
  then show ?thesis using inv_extend [OF inv] by simp
next
  case retain_step
  then show ?thesis using inv_retain [OF inv] by simp
next
  case restrict_step
  then show ?thesis using inv_restrict [OF inv] by simp
next
  case scope_step
  then show ?thesis using inv_scope [OF inv] by simp
next
  case finish_step
  then show ?thesis using inv_finish [OF inv] by simp
next
  case (read_step readable writable res s)
  then obtain r where "snapshotLocked readable writable (jy_journal x) = (r, s)"
    by (auto simp: ReadSmartAccessRestrictions_def split: prod.splits sum.splits)
  then show ?thesis using inv_snapshot(1) [OF inv] read_step(1) by simp
next
  case ack_step
  then show ?thesis using inv_ack_false [OF inv] by simp
next
  case acked_step
  then show ?thesis using inv_ack_true [OF inv] by simp
next
  case crash_step
  then show ?thesis using inv_crash [OF inv] by simp
qed

interpretation journal: invariant_system journal_init journal_step system_inv
  by unfold_locales (rule system_inv_init, assumption, rule system_inv_step)

section \<open>Sizes\<close>

text \<open>Characters that are written as they are.\<close>

definition plain :: "string \<Rightarrow> bool" where
  "plain s \<longleftrightarrow> (\<forall>c \<in> set s. length (json_escape c) = 1)"

lemma length_quote: "plain s \<Longrightarrow> length (json_quote s) = length s + 2"
  by (induction s) (simp_all add: plain_def json_quote_def)

lemma escape_one: "(of_char c :: nat) \<in> {45, 46, 58, 84, 90, 95} \<or> (48 \<le> (of_char c :: nat) \<and> of_char c \<le> (57 :: nat))
    \<or> (97 \<le> (of_char c :: nat) \<and> of_char c \<le> (122 :: nat)) \<Longrightarrow> length (json_escape c) = 1"
  by (auto simp: json_escape_def Let_def)

lemma plain_hex: "list_all is_lower_hex s \<Longrightarrow> plain s"
  unfolding plain_def list_all_iff by (intro ballI escape_one) (auto simp: is_lower_hex_def is_digit_def)

lemma plain_digest: "smartAccessRuntimeDigest s \<Longrightarrow> plain s \<and> length s = 64"
  by (simp add: smartAccessRuntimeDigest_def plain_hex)

lemma plain_lease_id: "smartAccessLeaseID s \<Longrightarrow> plain s \<and> length s = 32"
  by (simp add: smartAccessLeaseID_def plain_hex)

lemma plain_service_id:
  assumes "routingCatalogServiceID s"
  shows "plain s \<and> length s \<le> 64"
proof -
  obtain c r where s: "s = c # r" "is_lower_letter c \<or> is_digit c" "length r \<le> 63"
    "list_all (\<lambda>x. is_lower_letter x \<or> is_digit x \<or> x \<in> {CHR ''.'', CHR ''_'', CHR ''-''}) r"
    using assms by (auto simp: routingCatalogServiceID_def split: list.splits)
  have "length (json_escape x) = 1" if "x \<in> set s" for x
    using that s by (intro escape_one) (auto simp: list_all_iff is_lower_letter_def is_digit_def)
  then show ?thesis using s by (simp add: plain_def)
qed

lemma plain_Cons [simp]: "plain (c # s) \<longleftrightarrow> length (json_escape c) = 1 \<and> plain s"
  by (auto simp: plain_def)

lemma plain_Nil [simp]: "plain []"
  by (simp add: plain_def)

lemma plain_append [simp]: "plain (s @ t) \<longleftrightarrow> plain s \<and> plain t"
  by (auto simp: plain_def)

lemma plain_digits: "plain (show_digits k n)"
proof (induction k arbitrary: n)
  case (Suc k)
  have d: "nat (n mod 10) < 10" by (simp add: nat_less_iff)
  then have "(of_char (char_of (nat (n mod 10) + 48) :: char) :: nat) = nat (n mod 10) + 48" by simp
  with d have "length (json_escape (char_of (nat (n mod 10) + 48))) = 1"
    by (intro escape_one) linarith
  with Suc show ?case by simp
qed simp

lemma plain_time:
  assumes "smartAccessControlTime v = Some t"
  shows "plain v \<and> length v = 20"
proof -
  have "plain (format_time t) \<and> length (format_time t) = 20"
    by (simp add: format_time_def Let_def plain_digits json_escape_def split: prod.splits)
  then show ?thesis using smartAccessControlTime_format [OF assms] by simp
qed

lemma length_show_nat: "n < 10 ^ k \<Longrightarrow> 0 < k \<Longrightarrow> length (show_nat n) \<le> k"
proof (induction k arbitrary: n)
  case (Suc k)
  show ?case
  proof (cases "n < 10")
    case True
    then show ?thesis by (subst show_nat.simps) simp
  next
    case False
    then have "n div 10 < 10 ^ k" "0 < k" using Suc.prems by (auto intro: gr0I simp: less_mult_imp_div_less mult.commute)
    with Suc.IH False show ?thesis by (subst show_nat.simps) simp
  qed
qed simp

lemma length_revision: "\<not> (i < 1 \<or> i > 9007199254740991) \<Longrightarrow> length (show_int i) \<le> 16"
  by (auto simp: show_int_def intro!: length_show_nat)

lemma length_join: "length (join_comma ss) = sum_list (map length ss) + (length ss - 1)"
  by (induction ss rule: join_comma.induct) simp_all

abbreviation key_size :: "string \<times> json \<Rightarrow> nat" where "key_size kv \<equiv> length (json_quote (fst kv))"
abbreviation value_size :: "string \<times> json \<Rightarrow> nat" where "value_size kv \<equiv> length (print_json (snd kv))"

lemma length_object:
  "length (print_json (JObj kvs)) = 2 + sum_list (map key_size kvs) + sum_list (map value_size kvs) + length kvs + (length kvs - 1)"
proof -
  have "sum_list (map (length \<circ> (\<lambda>(k, v). json_quote k @ CHR '':'' # print_json v)) kvs)
      = sum_list (map key_size kvs) + sum_list (map value_size kvs) + length kvs"
    by (induction kvs) auto
  then show ?thesis by (simp add: length_join)
qed

lemma length_array: "length (print_json (JArr vs)) = 2 + sum_list (map (length \<circ> print_json) vs) + (length vs - 1)"
  by (simp add: length_join)

lemma sum_bounded: "(\<And>x. x \<in> set xs \<Longrightarrow> f x \<le> (b :: nat)) \<Longrightarrow> sum_list (map f xs) \<le> length xs * b"
  by (induction xs) (auto simp: add_mono)

lemma array_bound:
  assumes "\<And>v. v \<in> set vs \<Longrightarrow> length (print_json v) \<le> b" and "length vs \<le> n"
  shows "length (print_json (JArr vs)) \<le> 2 + n * (b + 1)"
proof -
  have "sum_list (map (length \<circ> print_json) vs) \<le> length vs * b" using assms(1) by (intro sum_bounded) simp
  moreover have "length vs * (b + 1) \<le> n * (b + 1)" by (rule mult_le_mono1 [OF assms(2)])
  ultimately show ?thesis by (simp add: length_join algebra_simps)
qed

text \<open>The largest identity, record and document.\<close>

lemma identity_key_sizes: "sum_list (map key_size (identity_fields l)) = 371"
proof -
  have "sum_list (map key_size (identity_fields l)) = sum_list (map (\<lambda>k. length (json_quote k)) (map fst (identity_fields l)))"
    by (simp add: comp_def)
  also have "\<dots> = sum_list (map (\<lambda>k. length (json_quote k)) identity_keys)" by (simp only: map_fst_identity)
  also have "\<dots> = 371" by code_simp
  finally show ?thesis .
qed


lemma word_size: "s \<in> set ws \<Longrightarrow> list_all (\<lambda>w. length (json_quote w) \<le> n) ws \<Longrightarrow> length (json_quote s) \<le> n"
  by (simp add: list_all_iff)

lemma identity_word_sizes:
  assumes "identity_ok l"
  shows "length (json_quote (li_Platform l)) \<le> 9" and "length (json_quote (li_Audience l)) \<le> 12"
    and "length (json_quote (li_RouteMode l)) \<le> 12" and "length (json_quote (li_Origin l)) \<le> 16"
    and "length (json_quote (li_Family l)) \<le> 6" and "length (json_quote (li_Feature l)) \<le> 14"
proof -
  have w: "li_Platform l \<in> set [''android'', ''windows'']" "li_Audience l \<in> set [''lab'', ''production'']"
    "li_RouteMode l \<in> set [''selective'', ''smart_safe'']"
    "li_Origin l \<in> set [''current-origin'', ''brain-origin'', ''RU-origin'', ''synthetic'']"
    "li_Family l \<in> set [''ipv4'', ''ipv6'']"
    "li_Feature l \<in> set [''web_request'', ''login'', ''streaming'', ''websocket'', ''store'', ''gameplay'', ''cloud_gaming'']"
    using assms unfolding identity_ok_def by blast+
  show "length (json_quote (li_Platform l)) \<le> 9" by (rule word_size [OF w(1)]) code_simp
  show "length (json_quote (li_Audience l)) \<le> 12" by (rule word_size [OF w(2)]) code_simp
  show "length (json_quote (li_RouteMode l)) \<le> 12" by (rule word_size [OF w(3)]) code_simp
  show "length (json_quote (li_Origin l)) \<le> 16" by (rule word_size [OF w(4)]) code_simp
  show "length (json_quote (li_Family l)) \<le> 6" by (rule word_size [OF w(5)]) code_simp
  show "length (json_quote (li_Feature l)) \<le> 14" by (rule word_size [OF w(6)]) code_simp
qed

lemma quoted_sizes:
  "routingCatalogServiceID s \<Longrightarrow> length (json_quote s) \<le> 66"
  "smartAccessRuntimeDigest s \<Longrightarrow> length (json_quote s) \<le> 66"
  "smartAccessLeaseID s \<Longrightarrow> length (json_quote s) \<le> 34"
  "smartAccessControlTime s \<noteq> None \<Longrightarrow> length (json_quote s) \<le> 22"
  using plain_service_id [of s] plain_digest [of s] plain_lease_id [of s] plain_time [of s]
  by (auto simp: length_quote)

lemma identity_value_sizes:
  assumes "identity_ok l"
  shows "sum_list (map value_size (identity_fields l)) \<le> 727"
proof -
  have times: "smartAccessControlTime (li_IssuedAt l) \<noteq> None" "smartAccessControlTime (li_NewFlowsUntil l) \<noteq> None"
    "smartAccessControlTime (li_ActiveFlowsUntil l) \<noteq> None"
    using assms by (auto simp: identity_ok_def identity_times_ok_def split: option.splits)
  have ids: "routingCatalogServiceID (li_ServiceID l)" "routingCatalogServiceID (li_ProviderID l)"
    "routingCatalogServiceID (li_PermissionID l)" "routingCatalogServiceID (li_CapabilityID l)"
    "smartAccessRuntimeDigest (li_ProviderPolicySHA256 l)" "smartAccessRuntimeDigest (li_ProfileSHA256 l)"
    "smartAccessRuntimeDigest (li_RuntimeScopeSHA256 l)" "smartAccessLeaseID (li_LeaseID l)"
    using assms by (simp_all add: identity_ok_def)
  have revisions: "length (show_int (li_ProviderPolicyRevision l)) \<le> 16" "length (show_int (li_ProviderSecurityRevision l)) \<le> 16"
    "length (show_int (li_ProviderRevision l)) \<le> 16" "length (show_int (li_PermissionRevision l)) \<le> 16"
    "length (show_int (li_CatalogRevision l)) \<le> 16" "length (show_int (li_CatalogSecurityRevision l)) \<le> 16"
    using assms by (simp_all add: identity_ok_def length_revision)
  have "sum_list (map value_size (identity_fields l)) =
      length (json_quote (li_LeaseID l)) + (length (json_quote (li_Platform l)) + (length (json_quote (li_Audience l))
      + (length (json_quote (li_ServiceID l)) + (length (json_quote (li_ProviderID l)) + (length (json_quote (li_PermissionID l))
      + (length (json_quote (li_CapabilityID l)) + (length (show_int (li_ProviderPolicyRevision l))
      + (length (show_int (li_ProviderSecurityRevision l)) + (length (json_quote (li_ProviderPolicySHA256 l))
      + (length (json_quote (li_IssuedAt l)) + (length (json_quote (li_NewFlowsUntil l)) + (length (json_quote (li_ActiveFlowsUntil l))
      + (length (json_quote (li_ProfileSHA256 l)) + (length (json_quote (li_RouteMode l)) + (length (json_quote (li_RuntimeScopeSHA256 l))
      + (length (json_quote (li_Origin l)) + (length (json_quote (li_Family l)) + (length (json_quote (li_Feature l))
      + (length (show_int (li_ProviderRevision l)) + (length (show_int (li_PermissionRevision l))
      + (length (show_int (li_CatalogRevision l)) + length (show_int (li_CatalogSecurityRevision l)))))))))))))))))))))))"
    by (simp add: identity_fields_def)
  then show ?thesis
    using identity_word_sizes [OF assms] quoted_sizes(4) [OF times(1)] quoted_sizes(4) [OF times(2)] quoted_sizes(4) [OF times(3)]
      quoted_sizes(1) [OF ids(1)] quoted_sizes(1) [OF ids(2)] quoted_sizes(1) [OF ids(3)] quoted_sizes(1) [OF ids(4)]
      quoted_sizes(2) [OF ids(5)] quoted_sizes(2) [OF ids(6)] quoted_sizes(2) [OF ids(7)] quoted_sizes(3) [OF ids(8)] revisions
    by linarith
qed

lemma sum_put:
  "k \<notin> set (map fst m) \<Longrightarrow> sum_list (map f (put k v m)) = f (k, v) + (sum_list (map f m) :: nat)"
  by (induction k v m rule: put.induct) auto

lemma sum_fold_put:
  "distinct (map fst kvs) \<Longrightarrow> set (map fst kvs) \<inter> set (map fst m) = {} \<Longrightarrow>
    sum_list (map f (fold (\<lambda>(k, v). put k v) kvs m)) = sum_list (map f kvs) + (sum_list (map f m) :: nat)"
proof (induction kvs arbitrary: m)
  case (Cons kv kvs)
  obtain k v where kv: "kv = (k, v)" by (cases kv)
  have "set (map fst kvs) \<inter> set (map fst (put k v m)) = {}" using Cons.prems kv keys_put [of k v m] by auto
  then show ?case using Cons kv sum_put [of k m f v] by simp
qed simp

lemma identity_size:
  assumes "identity_ok l"
  shows "length (print_json (JObj (identity_fields l))) \<le> 1145" and "length (print_json (canonicalObject l)) \<le> 1145"
proof -
  have sums: "sum_list (map key_size (identity_fields l)) = 371" "sum_list (map value_size (identity_fields l)) \<le> 727"
    using identity_key_sizes identity_value_sizes [OF assms] by auto
  have len: "length (identity_fields l) = 23" by (simp add: identity_fields_def)
  show "length (print_json (JObj (identity_fields l))) \<le> 1145" unfolding length_object using sums len by simp
  let ?m = "fold (\<lambda>(k, v). put k v) (identity_fields l) []"
  have "distinct (map fst (identity_fields l))" by (simp only: map_fst_identity distinct_identity_keys)
  then have same: "sum_list (map f ?m) = sum_list (map f (identity_fields l))" for f :: "string \<times> json \<Rightarrow> nat"
    using sum_fold_put [of "identity_fields l" "[]" f] by simp
  have "length ?m = 23" using same [of "\<lambda>_. 1"] len by (simp add: sum_list_triv)
  then show "length (print_json (canonicalObject l)) \<le> 1145"
    unfolding canonicalObject_def length_object same using sums by simp
qed

lemma scopes_size:
  assumes "list_all scope_ok m" and "length m \<le> 256"
  shows "length (print_json (JObj (map (\<lambda>(k, v). (k, JStr v)) m))) \<le> 20226"
proof -
  let ?kvs = "map (\<lambda>(k, v). (k, JStr v)) m"
  have kv: "key_size kv \<le> 66 \<and> value_size kv \<le> 11" if "kv \<in> set ?kvs" for kv
    using that assms(1) by (auto simp: list_all_iff scope_ok_def quoted_sizes json_quote_def [of "''drain''"]
        json_quote_def [of "''terminate''"] json_escape_def)
  have "sum_list (map key_size ?kvs) \<le> length ?kvs * 66" "sum_list (map value_size ?kvs) \<le> length ?kvs * 11"
    using kv by (intro sum_bounded; blast)+
  then show ?thesis unfolding length_object using assms(2) by simp
qed

lemma action_size:
  assumes "a = ''none'' \<or> a = ''drain'' \<or> a = ''terminate''"
  shows "length (json_quote a) \<le> 11"
  using assms by (intro word_size [where ws = "[''none'', ''drain'', ''terminate'']"]) (simp, code_simp)

lemma record_parts_size:
  assumes "record_ok r"
  shows "length (json_quote (rr_ProfileDigest r)) \<le> 66" and "length (json_quote (rr_CatalogSHA256 r)) \<le> 66"
    and "length (json_quote (rr_Generation r)) \<le> 34" and "length (json_quote (rr_PolicyAction r)) \<le> 11"
    and "length (json_quote (rr_ExpiresAt r)) \<le> 22"
    and "length (print_json (JArr (map (\<lambda>l. JObj (identity_fields l)) (rr_Leases r)))) \<le> 293378"
    and "length (print_json (JArr (map canonicalObject (rr_Leases r)))) \<le> 293378"
    and "length (print_json (JObj (map (\<lambda>(k, v). (k, JStr v)) (rr_ScopeActions r)))) \<le> 20226"
proof -
  have ids: "\<And>l. l \<in> set (rr_Leases r) \<Longrightarrow> identity_ok l" and len: "length (rr_Leases r) \<le> 256"
    using assms by (auto simp: record_ok_def list_all_iff lease_within_def)
  show "length (print_json (JArr (map (\<lambda>l. JObj (identity_fields l)) (rr_Leases r)))) \<le> 293378"
    by (rule order_trans [OF array_bound [where b = 1145 and n = 256]]) (use ids len identity_size(1) in auto)
  show "length (print_json (JArr (map canonicalObject (rr_Leases r)))) \<le> 293378"
    by (rule order_trans [OF array_bound [where b = 1145 and n = 256]]) (use ids len identity_size(2) in auto)
  show "length (print_json (JObj (map (\<lambda>(k, v). (k, JStr v)) (rr_ScopeActions r)))) \<le> 20226"
    using assms by (intro scopes_size) (simp_all add: record_ok_def)
  have empty_string: "length (json_quote []) = 2" by (simp add: json_quote_def)
  show "length (json_quote (rr_ProfileDigest r)) \<le> 66" "length (json_quote (rr_Generation r)) \<le> 34"
    "length (json_quote (rr_PolicyAction r)) \<le> 11"
    using assms quoted_sizes action_size by (simp_all add: record_ok_def)
  show "length (json_quote (rr_CatalogSHA256 r)) \<le> 66" "length (json_quote (rr_ExpiresAt r)) \<le> 22"
    using assms quoted_sizes(2) [of "rr_CatalogSHA256 r"] quoted_sizes(4) [of "rr_ExpiresAt r"] empty_string
    by (auto simp: record_ok_def)
qed

lemma record_key_sizes:
  "length (json_quote ''profile_digest'') = 16" "length (json_quote ''catalog_sha256'') = 16"
  "length (json_quote ''generation'') = 12" "length (json_quote ''pending'') = 9" "length (json_quote ''policy_action'') = 15"
  "length (json_quote ''catalog_withdrawn'') = 19" "length (json_quote ''expires_at'') = 12" "length (json_quote ''leases'') = 8"
  "length (json_quote ''scope_actions'') = 15" "length (json_quote ''live'') = 6"
  by code_simp+

lemma bool_size: "length (print_json (JBool b)) \<le> 5"
  by simp

lemma record_size:
  assumes "record_ok r"
  shows "length (print_json (record_json r)) \<le> 314000" and "length (print_json (entry_json s r)) \<le> 314000"
proof -
  note sizes = record_parts_size [OF assms] bool_size [of "rr_Pending r"] bool_size [of "rr_CatalogWithdrawn r"]
    bool_size [of "live_record s r"]
  show "length (print_json (record_json r)) \<le> 314000"
    unfolding record_json_def by (subst length_object) (use sizes in \<open>simp add: record_key_sizes del: print_json.simps(2,5,6)\<close>)
  show "length (print_json (entry_json s r)) \<le> 314000"
    unfolding entry_json_def by (subst length_object) (use sizes in \<open>simp add: record_key_sizes del: print_json.simps(2,5,6)\<close>)
qed

lemma length_sha256_hex: "length (hex_encode (sha256 m)) = 64"
proof -
  have "length (hex_encode bs) = 2 * length bs" for bs by (induction bs) (simp_all add: hex_encode_def)
  then show ?thesis by simp
qed

lemma plain_hex_encode: "plain (hex_encode bs)"
proof (induction bs)
  case (Cons b bs)
  have "unat b < 256" using unsigned_less [of b] by simp
  then have "unat b div 16 < 16" "unat b mod 16 < 16" by (simp_all add: less_mult_imp_div_less)
  then have "length (json_escape (hex_digit (unat b div 16))) = 1" "length (json_escape (hex_digit (unat b mod 16))) = 1"
    by (intro escape_one; auto simp: hex_digit_def)+
  with Cons show ?case by (simp add: hex_encode_def)
qed (simp add: hex_encode_def)

lemma document_fits:
  assumes "document_ok rs"
  shows "length (print_json (document_json rs)) \<le> smartAccessRestrictionDocumentLimit"
proof -
  have "length (print_json (JArr (map record_json rs))) \<le> 2 + 3 * (314000 + 1)"
    using assms record_size(1) by (intro array_bound) (auto simp: document_ok_def list_all_iff)
  moreover have "length (json_quote ''version'') = 9" "length (json_quote ''records'') = 9" "length (show_int 1) = 1"
    by code_simp+
  ultimately show ?thesis
    unfolding document_json_def smartAccessRestrictionDocumentLimit_def smartAccessRestrictionSnapshotLimit_def
    by (subst length_object) (simp del: print_json.simps(5,6))
qed

lemma snapshot_fits:
  assumes "document_ok (jn_records s)"
  shows "length (print_json (snapshot_json s)) \<le> smartAccessRestrictionSnapshotLimit"
proof -
  have "length (print_json (entries_json s)) \<le> 2 + 3 * (314000 + 1)"
    unfolding entries_json_def using assms record_size(2) by (intro array_bound) (auto simp: document_ok_def list_all_iff)
  moreover have "length (json_quote (snapshot_digest s)) = 66"
    using length_quote [OF plain_hex_encode] length_sha256_hex by (simp add: snapshot_digest_def)
  moreover have "length (json_quote ''entries'') = 9" "length (json_quote ''schema'') = 8"
    "length (json_quote ''snapshot_sha256'') = 17" "length (show_int 1) = 1"
    by code_simp+
  ultimately show ?thesis
    unfolding snapshot_json_def smartAccessRestrictionSnapshotLimit_def
    by (subst length_object) (simp del: print_json.simps(5,6))
qed

section \<open>What the journal guarantees\<close>

lemma begin_refused:
  assumes inv: "journal_inv s owed known" and pc: "(p, c) \<in> owed" and live: "jn_live s p = None"
  shows "\<exists>e. fst (begin_worker readable random writable p catalog expires s) = Inl e"
proof -
  obtain e s1 where l: "loadLocked readable s = (e, s1)" by (cases "loadLocked readable s")
  show ?thesis
  proof (cases e)
    case None
    note inv1 = inv_load(1) [OF inv l]
    have loaded: "jn_loaded s1" and live1: "jn_live s1 p = None" using inv_load(2,3) [OF inv l] None live by simp_all
    obtain r where r: "lookup_record (jn_records s1) p = Some r" "shows_claim r c \<or> rr_Pending r"
      using core_D(7) [OF inv_core [OF inv1 loaded] pc] by auto
    obtain i where i: "position (\<lambda>r. rr_ProfileDigest r = p) (jn_records s1) = Some i"
      using lookup_profile [OF r(1)] position_None [of "\<lambda>r. rr_ProfileDigest r = p" "jn_records s1"] by auto
    have "jn_records s1 ! i = r" using position_Some [OF i] r(1) by (simp add: lookup_record_def)
    then have "begin_refusal p catalog s1 \<noteq> None"
      using i live1 r(2) idle_shows [of r c] by (auto simp: begin_refusal_def Let_def)
    then show ?thesis using l None by (auto simp: begin_worker_def)
  qed (use l in \<open>simp add: begin_worker_def\<close>)
qed

lemma view_lookup:
  assumes "journal_inv s owed known" and "(p, c) \<in> owed"
  shows "\<exists>r \<in> set (view s). rr_ProfileDigest r = p \<and> (shows_claim r c \<or> rr_Pending r)"
    and "\<exists>r \<in> set (on_disk s). rr_ProfileDigest r = p \<and> (shows_claim r c \<or> rr_Pending r)"
proof -
  note core = inv_parts(4) [OF assms(1)]
  show disk: "\<exists>r \<in> set (on_disk s). rr_ProfileDigest r = p \<and> (shows_claim r c \<or> rr_Pending r)"
    using core_D(6) [OF core assms(2)] lookup_profile by blast
  show "\<exists>r \<in> set (view s). rr_ProfileDigest r = p \<and> (shows_claim r c \<or> rr_Pending r)"
  proof (cases "jn_loaded s")
    case True
    then show ?thesis using core_D(7) [OF core assms(2)] lookup_profile by (fastforce simp: view_def)
  qed (use disk in \<open>simp add: view_def\<close>)
qed

text \<open>
  C5. A restriction is never forgotten. In every history of workers, restrictions, renewals, failed reads
  and writes, snapshots and crashes, a restriction that no acknowledged snapshot has handed over is shown
  by the record of its profile or that record is marked pending, in what the daemon works with and in the
  file; since the last crash the record itself shows it, unless the profile is marked unsettled; and
  while no worker is live for the profile, none can begin.
\<close>

theorem restriction_survives:
  assumes "reachable journal_init journal_step x" and "(p, c) \<in> jy_owed x"
  shows "(\<exists>r \<in> set (view (jy_journal x)). rr_ProfileDigest r = p \<and> (shows_claim r c \<or> rr_Pending r))
    \<and> (\<exists>r \<in> set (on_disk (jy_journal x)). rr_ProfileDigest r = p \<and> (shows_claim r c \<or> rr_Pending r))
    \<and> ((p, c) \<in> jy_known x \<longrightarrow> p \<in> jn_unsettled (jy_journal x)
         \<or> (\<exists>r \<in> set (jn_records (jy_journal x)). rr_ProfileDigest r = p \<and> shows_claim r c))
    \<and> (jn_live (jy_journal x) p = None \<longrightarrow>
         (\<exists>e. fst (begin_worker readable random writable p catalog expires (jy_journal x)) = Inl e))"
proof -
  note inv = journal.inv_reachable [OF assms(1)]
  have "p \<in> jn_unsettled (jy_journal x) \<or> (\<exists>r \<in> set (jn_records (jy_journal x)). rr_ProfileDigest r = p \<and> shows_claim r c)"
    if "(p, c) \<in> jy_known x"
    using core_D(9) [OF inv_parts(4) [OF inv] that] lookup_profile by blast
  then show ?thesis using view_lookup [OF inv assms(2)] begin_refused [OF inv assms(2)] by blast
qed

text \<open>A worker begins, its restriction cannot be written, and the process dies.\<close>

definition demo_profile :: string where "demo_profile = replicate 64 CHR ''a''"
definition demo_generation :: string where "demo_generation = replicate 32 CHR ''0''"

definition demo_begun :: "(journal_error + string) \<times> journal" where
  "demo_begun = begin_worker True (Some demo_generation) True demo_profile [] zero_time (new_journal None)"

definition demo_crashed :: journal_system where
  "demo_crashed =
     \<lparr>jy_journal = new_journal (jn_file (restrict False demo_profile demo_generation ''access_denied'' (snd demo_begun))),
      jy_owed = {(demo_profile, PolicyClaim ''access_denied'')}, jy_known = {}\<rparr>"

lemma demo_begun_live: "jn_live (snd demo_begun) demo_profile = Some demo_generation"
  by code_simp

lemma demo_crashed_reachable: "reachable journal_init journal_step demo_crashed"
proof -
  let ?x0 = "\<lparr>jy_journal = new_journal None, jy_owed = {}, jy_known = {}\<rparr> :: journal_system"
  let ?x1 = "\<lparr>jy_journal = snd demo_begun, jy_owed = {}, jy_known = {}\<rparr> :: journal_system"
  let ?x2 = "\<lparr>jy_journal = restrict False demo_profile demo_generation ''access_denied'' (snd demo_begun),
    jy_owed = {(demo_profile, PolicyClaim ''access_denied'')}, jy_known = {(demo_profile, PolicyClaim ''access_denied'')}\<rparr> :: journal_system"
  have "journal_step ?x0 (?x0\<lparr>jy_journal := snd demo_begun\<rparr>)"
  proof (rule begin_step)
    show "begin_worker True (Some demo_generation) True demo_profile [] zero_time (jy_journal ?x0) = (fst demo_begun, snd demo_begun)"
      by (simp add: demo_begun_def)
    show "smartAccessRuntimeDigest demo_profile" by code_simp
    show "list_all smartAccessLeaseID (case Some demo_generation of None \<Rightarrow> [] | Some g \<Rightarrow> [g])" by code_simp
  qed (simp_all add: expiry_ok_def)
  then have begun: "journal_step ?x0 ?x1" by simp
  have restricted: "journal_step ?x1 ?x2"
    using restrict_step [of ?x1 demo_profile demo_generation False "''access_denied''"] demo_begun_live by simp
  have crashed: "journal_step ?x2 demo_crashed"
    using crash_step [of ?x2] by (simp add: demo_crashed_def)
  have "journal_init ?x0" unfolding journal_init_def by blast
  then have "reachable journal_init journal_step ?x0" by (rule reachable.start)
  then have "reachable journal_init journal_step ?x1" using begun by (rule reachable.next_step)
  then have "reachable journal_init journal_step ?x2" using restricted by (rule reachable.next_step)
  then show ?thesis using crashed by (rule reachable.next_step)
qed

theorem restriction_survives_witness:
  "(\<exists>r \<in> set (on_disk (jy_journal demo_crashed)). rr_ProfileDigest r = demo_profile
      \<and> (shows_claim r (PolicyClaim ''access_denied'') \<or> rr_Pending r))
    \<and> (\<exists>e. fst (begin_worker True (Some demo_generation) True demo_profile [] zero_time (jy_journal demo_crashed)) = Inl e)"
proof -
  have "(demo_profile, PolicyClaim ''access_denied'') \<in> jy_owed demo_crashed" by (simp add: demo_crashed_def)
  from restriction_survives [OF demo_crashed_reachable this] show ?thesis
    by (auto simp: demo_crashed_def new_journal_def)
qed

lemma write_succeeds:
  assumes "document_ok (jn_records s)"
  obtains f where "writeLocked True s = (True, s\<lparr>jn_file := f\<rparr>)"
  using document_fits [OF assms] that by (simp add: writeLocked_def Let_def)

lemma load_succeeds:
  assumes "journal_inv s owed known"
  obtains s1 where "loadLocked True s = (None, s1)"
proof (cases "jn_loaded s")
  case True
  then show thesis using that by (simp add: loadLocked_def)
next
  case False
  then show thesis using inv_parts(3) [OF assms] that by (cases "jn_file s") (auto simp: loadLocked_def)
qed

text \<open>
  C6. The journal never gets stuck. In every history the records in memory can be written within the size
  limit and are read back exactly as they were, the file that is there can be read, and a snapshot of them
  can be exported; so with a working disk reading the restrictions always succeeds.
\<close>

theorem journal_rereads:
  assumes "reachable journal_init journal_step x"
  shows "length (print_json (document_json (jn_records (jy_journal x)))) \<le> smartAccessRestrictionDocumentLimit
    \<and> load_document (print_json (document_json (jn_records (jy_journal x)))) = Some (jn_records (jy_journal x))
    \<and> (\<exists>s1. loadLocked True (jy_journal x) = (None, s1))
    \<and> (\<exists>encoded. fst (ReadSmartAccessRestrictions True True (jy_journal x)) = Inr encoded)"
proof -
  note inv = journal.inv_reachable [OF assms]
  have doc: "document_ok (jn_records (jy_journal x))" using inv_parts(1) [OF inv] .
  obtain s1 where l: "loadLocked True (jy_journal x) = (None, s1)"
    using load_succeeds [OF inv] .
  have doc1: "document_ok (jn_records s1)" using inv_parts(1) [OF inv_load(1) [OF inv l]] .
  obtain f where "writeLocked True s1 = (True, s1\<lparr>jn_file := f\<rparr>)" using write_succeeds [OF doc1] .
  then obtain s2 where w: "writeLocked True s1 = (True, s2)" "jn_records s2 = jn_records s1" by simp
  have "snapshotLocked True True (jy_journal x) = (Inr (print_json (snapshot_json s2), snapshot_digest s2), s2)"
    using l w snapshot_fits [of s2] doc1 by (simp add: snapshotLocked_def Let_def)
  then have "fst (ReadSmartAccessRestrictions True True (jy_journal x)) = Inr (print_json (snapshot_json s2))"
    by (simp add: ReadSmartAccessRestrictions_def)
  then show ?thesis using document_fits [OF doc] load_document_back [OF doc] l by blast
qed

theorem journal_rereads_witness:
  "\<exists>encoded. fst (ReadSmartAccessRestrictions True True (jy_journal demo_crashed)) = Inr encoded"
  using journal_rereads [OF demo_crashed_reachable] by blast

lemma snapshot_digest_frame: "snapshot_digest (s\<lparr>jn_file := f\<rparr>) = snapshot_digest s" "live_record (s\<lparr>jn_file := f\<rparr>) = live_record s"
proof -
  show l: "live_record (s\<lparr>jn_file := f\<rparr>) = live_record s" by (simp add: live_record_def fun_eq_iff)
  have "entry_json (s\<lparr>jn_file := f\<rparr>) = entry_json s" by (simp add: fun_eq_iff entry_json_def l)
  then show "snapshot_digest (s\<lparr>jn_file := f\<rparr>) = snapshot_digest s" by (simp add: snapshot_digest_def entries_json_def)
qed

lemma load_view:
  assumes "loadLocked readable s = (None, s1)"
  shows "s1 = s\<lparr>jn_records := view s, jn_loaded := True\<rparr>"
  using assms by (cases rule: load_cases) (simp_all add: view_def)

text \<open>A snapshot, whether it succeeds or not, changes nothing but the file and what is loaded from it.\<close>

lemma snapshot_view:
  assumes "snapshotLocked readable writable s = (res, s')"
  shows "view s' = view s \<and> jn_live s' = jn_live s \<and> jn_unsettled s' = jn_unsettled s"
    and "res = Inr (encoded, digest) \<Longrightarrow> \<exists>f. s' = s\<lparr>jn_records := view s, jn_loaded := True, jn_file := f\<rparr>
      \<and> digest = snapshot_digest (s\<lparr>jn_records := view s, jn_loaded := True\<rparr>)"
proof -
  have "(view s' = view s \<and> jn_live s' = jn_live s \<and> jn_unsettled s' = jn_unsettled s)
      \<and> (res = Inr (encoded, digest) \<longrightarrow> (\<exists>f. s' = s\<lparr>jn_records := view s, jn_loaded := True, jn_file := f\<rparr>
      \<and> digest = snapshot_digest (s\<lparr>jn_records := view s, jn_loaded := True\<rparr>)))"
    using assms
  proof (cases rule: snapshot_cases)
    case (1 e)
    then show ?thesis by (auto elim: load_cases)
  next
    case (2 s1)
    then show ?thesis using load_view [OF 2(1)] by (auto simp: view_def elim: write_cases)
  next
    case (3 s1)
    from 3(2) obtain f where "s' = s1\<lparr>jn_file := f\<rparr>" by (auto elim: write_cases)
    then show ?thesis using load_view [OF 3(1)] 3(3)
      by (auto simp: view_def snapshot_digest_frame split: if_splits)
  qed
  then show "view s' = view s \<and> jn_live s' = jn_live s \<and> jn_unsettled s' = jn_unsettled s"
    "res = Inr (encoded, digest) \<Longrightarrow> \<exists>f. s' = s\<lparr>jn_records := view s, jn_loaded := True, jn_file := f\<rparr>
      \<and> digest = snapshot_digest (s\<lparr>jn_records := view s, jn_loaded := True\<rparr>)" by blast+
qed

text \<open>The profiles whose mark an acknowledgement removes are those without a live worker.\<close>

lemma settled_profiles:
  assumes inv: "journal_inv s owed known" and loaded: "jn_loaded s"
  shows "jn_unsettled s - set (map rr_ProfileDigest (filter (\<lambda>r. \<not> live_record s r) (jn_records s)))
    = jn_unsettled s \<inter> {p. jn_live s p \<noteq> None}"
proof -
  note core = inv_core [OF inv loaded] and d = inv_parts(2) [OF inv]
  have "(\<exists>r \<in> set (jn_records s). rr_ProfileDigest r = p \<and> \<not> live_record s r) \<longleftrightarrow> jn_live s p = None"
    if p: "p \<in> jn_unsettled s" for p
  proof -
    obtain r where r: "lookup_record (jn_records s) p = Some r" using core_D(4) [OF core p] by blast
    have "live_record s r \<longleftrightarrow> jn_live s p \<noteq> None"
      using core_D(2) [OF core, of p] r lookup_profile [OF r] by (auto simp: live_record_def)
    moreover have "x = r" if "x \<in> set (jn_records s)" "rr_ProfileDigest x = p" for x
      using lookup_member [OF d that(1)] that(2) r by simp
    ultimately show ?thesis using lookup_profile [OF r] by blast
  qed
  then show ?thesis by fastforce
qed

text \<open>
  C7. An acknowledgement takes away only what was handed over. It succeeds only for the digest of the
  records and workers as they are at that moment, drops exactly the records without a live worker, in
  memory and in the file, and never touches a live one; when it does not succeed no record and no mark
  changes.
\<close>

theorem acknowledge_exact:
  assumes "reachable journal_init journal_step x"
    and "AcknowledgeSmartAccessRestrictions readable writable writable' digest (jy_journal x) = (res, s')"
    and "s = (jy_journal x)\<lparr>jn_records := view (jy_journal x), jn_loaded := True\<rparr>"
  shows "(res = Inr True \<longrightarrow> digest = snapshot_digest s \<and> jn_records s' = filter (live_record s) (jn_records s)
        \<and> on_disk s' = jn_records s' \<and> jn_live s' = jn_live s
        \<and> jn_unsettled s' = jn_unsettled s \<inter> {p. jn_live s p \<noteq> None})
    \<and> (res \<noteq> Inr True \<longrightarrow> view s' = jn_records s \<and> jn_live s' = jn_live s \<and> jn_unsettled s' = jn_unsettled s)"
  using assms(2)
proof (cases rule: ack_cases)
  case 1
  then show ?thesis using assms(3) by simp
next
  case (2 r)
  then show ?thesis using snapshot_view(1) [OF 2(1)] assms(3) by simp
next
  case (3 enc s1 s2)
  then have "s' = s1" by (auto elim!: write_cases)
  then show ?thesis using snapshot_view(1) [OF 3(1)] 3(4) assms(3) by simp
next
  case (4 enc s1 s2)
  note inv = journal.inv_reachable [OF assms(1)]
  note snap = inv_snapshot [OF inv 4(1)]
  obtain f where f: "s1 = s\<lparr>jn_file := f\<rparr>" "digest = snapshot_digest s"
    using snapshot_view(2) [OF 4(1)] assms(3) by auto
  have doc: "document_ok (filter (live_record s1) (jn_records s1))"
    using inv_parts(1) [OF snap(1)]
    by (auto simp: document_ok_def list_all_iff distinct_map_filter intro: le_trans [OF length_filter_le])
  obtain f2 where s2: "s2 = s1\<lparr>jn_records := filter (live_record s1) (jn_records s1), jn_file := f2\<rparr>"
    using 4(2) by (auto elim: write_cases)
  have l2: "live_record s2 = live_record s1" by (simp add: s2 live_record_def fun_eq_iff)
  have "on_disk s2 = filter (live_record s1) (jn_records s1)" using written_on_disk(1) [OF _ 4(2)] doc by simp
  moreover have "jn_unsettled s' = jn_unsettled s1 \<inter> {p. jn_live s1 p \<noteq> None}"
    using settled_profiles [OF snap(1)] snap(3) by (simp add: 4(3) l2) (simp add: s2)
  ultimately show ?thesis
    using 4(3,4) f s2 by (simp add: snapshot_digest_frame)
qed

lemma snapshot_digest_format: "smartAccessRuntimeDigest (snapshot_digest s)"
proof -
  have hex: "is_lower_hex (hex_digit n)" if "n < 16" for n
    using that by (auto simp: hex_digit_def is_lower_hex_def is_digit_def)
  have "list_all is_lower_hex (hex_encode bs)" for bs
  proof (induction bs)
    case (Cons b bs)
    have "unat b < 256" using unsigned_less [of b] by simp
    then have "unat b div 16 < 16" "unat b mod 16 < 16" by (simp_all add: less_mult_imp_div_less)
    with Cons hex show ?case by (simp add: hex_encode_def)
  qed (simp add: hex_encode_def)
  then show ?thesis by (simp add: smartAccessRuntimeDigest_def snapshot_digest_def length_sha256_hex)
qed

definition demo_loaded :: journal where
  "demo_loaded = (jy_journal demo_crashed)\<lparr>jn_records := view (jy_journal demo_crashed), jn_loaded := True\<rparr>"

theorem acknowledge_exact_witness:
  "\<exists>s'. AcknowledgeSmartAccessRestrictions True True True (snapshot_digest demo_loaded) (jy_journal demo_crashed) = (Inr True, s')
     \<and> jn_records s' = filter (live_record demo_loaded) (jn_records demo_loaded) \<and> jn_live s' = jn_live demo_loaded"
proof -
  let ?d = "snapshot_digest demo_loaded" and ?s = "jy_journal demo_crashed"
  note inv = journal.inv_reachable [OF demo_crashed_reachable]
  obtain s1 where l: "loadLocked True ?s = (None, s1)"
    using load_succeeds [OF inv] .
  have s1: "s1 = demo_loaded" using load_view [OF l] by (simp add: demo_loaded_def)
  have doc: "document_ok (jn_records s1)" using inv_parts(1) [OF inv_load(1) [OF inv l]] .
  obtain f where w: "writeLocked True s1 = (True, s1\<lparr>jn_file := f\<rparr>)" using write_succeeds [OF doc] .
  have snap: "snapshotLocked True True ?s = (Inr (print_json (snapshot_json (s1\<lparr>jn_file := f\<rparr>)), ?d), s1\<lparr>jn_file := f\<rparr>)"
    using l w snapshot_fits [of "s1\<lparr>jn_file := f\<rparr>"] doc by (simp add: snapshotLocked_def Let_def snapshot_digest_frame s1)
  let ?s1 = "s1\<lparr>jn_file := f\<rparr>"
  have "document_ok (filter (live_record ?s1) (jn_records ?s1))"
    using doc by (auto simp: document_ok_def list_all_iff distinct_map_filter intro: le_trans [OF length_filter_le])
  then obtain f' where "writeLocked True (?s1\<lparr>jn_records := filter (live_record ?s1) (jn_records ?s1)\<rparr>)
      = (True, ?s1\<lparr>jn_records := filter (live_record ?s1) (jn_records ?s1), jn_file := f'\<rparr>)"
    using write_succeeds [of "?s1\<lparr>jn_records := filter (live_record ?s1) (jn_records ?s1)\<rparr>"] by auto
  then obtain s' where a: "AcknowledgeSmartAccessRestrictions True True True ?d ?s = (Inr True, s')"
    using snap snapshot_digest_format by (simp add: AcknowledgeSmartAccessRestrictions_def Let_def)
  show ?thesis using acknowledge_exact [OF demo_crashed_reachable a demo_loaded_def] a by simp
qed

end
