(* ===== verification/Spec2Isabelle.thy ===== *)
theory Spec2Isabelle
  imports Observability Service_Manager Slipstream_Local ATS_Lease Client_Hello Smart_Flows Smart_Breaker Rule_Sets Catalog_Window Journal_Crashes
begin

text \<open>
  Verification of the POKROV core (\<open>v2\<close>, \<open>internal\<close> and the \<open>engine/sing-box\<close> fork under \<open>src/\<close>): the parts that
  decide who may connect where and for how long, that match traffic to rules, that carry restrictions
  over a crash, and that report what happened.

  \<^bold>\<open>The program and how its parts meet.\<close> A profile starts a box of outbounds and rules. A routing or DNS
  rule from a signed catalog matches only inside its catalog window and only while the lease it names is
  the one its service group selects. A connection it matches goes to a Smart Access outbound, which admits
  it under a lease with two quotas, reads the TLS greeting, checks the server name and reaches a relay
  through a circuit breaker. The authenticated host renews and revokes leases; a daemon worker keeps the
  restrictions it learns in a journal that survives crashes. The ATS lease outbound is a second, simpler
  gate in front of one upstream. Slipstream is a child process that speaks an authenticated protocol on
  loopback. Start failures and state changes leave the process as validated, numbered events.

  \<^bold>\<open>Theories and sources.\<close> Paths are under \<open>src/engine/sing-box\<close> unless they start with \<open>internal\<close> or \<open>v2\<close>.
  \<^item> \<open>Prelude\<close>, \<open>Go_Time\<close>, \<open>Sha256\<close>, \<open>Json_Text\<close>: what the sources use of Go and its library. Strings and
    bytes; clock readings with a wall and a monotonic part, deadlines, the one time layout; SHA-256 and
    HMAC; JSON texts with the proof that a printed value is read back and that the reader has enough fuel.
    The locales \<open>invariant_system\<close> (an invariant of a transition system) and \<open>terminal_gate\<close> (a gate that once
    shut admits nothing again) are here; each component with concurrent steps interprets them.
  \<^item> \<open>ATS_Lease\<close>: \<open>protocol/pokrov/atslease/outbound.go\<close>. \<open>NewOutbound\<close>, \<open>admits\<close>, \<open>begin_flow\<close>, \<open>finishDial\<close>,
    \<open>revoke\<close>, \<open>leased_read\<close> and \<open>leased_write\<close>, and their interleavings \<open>ats_step\<close>. Lifetime bounds, no leaked
    connection, finality of revocation, exact confirmation.
  \<^item> \<open>Net_Addr\<close>, \<open>Client_Hello\<close>: \<open>smartaccess/address.go\<close> and the public filter of \<open>telegramws/outbound.go\<close>,
    \<open>smartaccess/clienthello.go\<close> and \<open>normalizeDomain\<close>. The filters as ranges; the greeting reader as a
    round trip and as a soundness statement about every byte stream.
  \<^item> \<open>Smart_Access\<close>, \<open>Relay_Connect\<close>: \<open>smartaccess/outbound.go\<close>, \<open>relay_connect.go\<close>: leases, renewal,
    revocation, admission, flows, the breaker and the whole of \<open>newConnection\<close>. \<open>Smart_System\<close> interleaves their
    critical sections (\<open>sa_step\<close>); \<open>Smart_Leases\<close> (lifetimes, quotas, one-way end of admission, renewal),
    \<open>Smart_Flows\<close> (registry, revocation, outcome of a connection) and \<open>Smart_Breaker\<close> (single probe, attempts,
    exact availability) hold what is true in every history.
  \<^item> \<open>Service_Group\<close>: \<open>smartaccess/service_group.go\<close>. Selection, retirement, readiness receipts and the guard.
  \<^item> \<open>Rule_Items\<close>, \<open>Rule_Match\<close>, \<open>Rule_Semantics\<close>, \<open>DNS_Rules\<close>: \<open>route/rule/rule_item_*.go\<close>, \<open>rule_abstract.go\<close>,
    \<open>match_state.go\<close>, \<open>rule_dns.go\<close>. One \<open>Match\<close> per condition, the state-passing matcher, its Boolean and
    three-valued reading, and the match before a DNS query against the match of the response.
  \<^item> \<open>Rule_Build\<close>, \<open>Rule_Sets\<close>: \<open>rule_headless.go\<close>, \<open>rule_set*.go\<close>, \<open>option/rule_set.go\<close>. Options to rules, loading,
    replacing and releasing rule sets, the update loop of a remote set.
  \<^item> \<open>Catalog_Window\<close>: \<open>pokrov_catalog_window.go\<close>. Bound and finality of a catalog rule's window.
  \<^item> \<open>Restriction_Journal\<close>: \<open>daemon/smart_access_restriction_store.go\<close> with the identities of
    \<open>smart_access_runtime_renewal.go\<close>. Every operation over the text of the journal's file. \<open>Journal_Crashes\<close> adds
    failing reads and writes and crashes (\<open>journal_step\<close>). A restriction is never forgotten, the document always fits and
    is read back, an acknowledgement takes only what was handed over.
  \<^item> \<open>Slipstream_Local\<close>: \<open>slipstream/local_io.go\<close>, \<open>dns_relay.go\<close>. Handshake, sealed frames, replay window, relay.
  \<^item> \<open>Probe_Error\<close>, \<open>Observability\<close>: \<open>common/urltest\<close>, \<open>internal/observability\<close>. Error trees, the closed event
    vocabulary, numbering and accounting of emissions.
  \<^item> \<open>Service_Manager\<close>: \<open>v2/service_manager\<close>. The registries as slices with shared arrays.
  \<^item> this theory: the path from a matched catalog rule to an admitted connection, over \<open>Catalog_Window\<close>,
    \<open>Service_Group\<close> and \<open>Smart_Breaker\<close>.

  \<^bold>\<open>Conventions.\<close> A mutex makes a critical section one operation; what runs between critical sections is a
  step relation, and properties of histories are about its reachable states. Pointers that serve as
  identities are numbers into heap functions of the state record. A call that blocks is an argument that
  returns its result and the state after whatever other goroutines did. Clock readings, random bytes,
  network answers and file system outcomes are arguments, so every property holds for all of them. Errors
  are values.

  \<^bold>\<open>Bounds and fuel.\<close> Loops are structural recursion or carry a termination proof. The JSON reader has fuel
  \<open>2 * length s + 2\<close>, and \<open>parse_json_fuel\<close> shows that more changes nothing. The relay loop is bounded by the
  policy's attempts. Durations are integers clipped to 64 bits as \<open>Sub\<close> and \<open>Add\<close> clip them; lifetime
  properties assume a clock reading whose monotonic part is below \<open>2^62\<close> nanoseconds and dates the packed
  form of \<open>time.Time\<close> covers (to the year 2157).

  \<^bold>\<open>Parameters.\<close> Libraries outside the repository enter as arguments: domain matchers, address sets, compiled
  expressions and DNS messages of the rules (\<open>rule_env\<close>, the library record of \<open>Rule_Build\<close>), outbound and network
  managers, rule-set decoding, HTTP and the cache file, lower-casing outside ASCII (\<open>uni\<close>). The write of the
  journal is atomic: a temporary file that replaces the old one only when all of it succeeded, which is
  what \<open>rename\<close> gives for crashes of the process.

  \<^bold>\<open>Not modelled.\<close> The other carriers of \<open>protocol/pokrov\<close> (Telegram WebSocket, local DPI, DNSTT, the Slipstream
  child process, Xray) are mostly sockets, processes and third-party transports; of them only the public
  address filter is here. The daemon's HTTP workers, catalog verification and gRPC service rest on Ed25519,
  TLS and generated code. Construction of route and DNS rules from their options, rule actions and the
  routers repeat for many option types what \<open>Rule_Build\<close> shows for headless rules. \<open>v2/config\<close>, \<open>v2/hcore\<close>,
  \<open>ray2sing\<close> translate configuration between large option types; \<open>platform\<close>, the upstream protocols of the
  engine and the replaced modules are bindings and upstream code. \<open>String\<close> methods, logging and tickers have
  no effect on what is proved and are left out of the components that are modelled.
\<close>

section \<open>From a matched rule to an admitted connection\<close>

lemma available_again:
  assumes "fst (availableForNewFlows now h)"
  shows "fst (availableForNewFlows now (snd (availableForNewFlows now h)))"
proof -
  let ?h = "snd (availableForNewFlows now h)"
  have h: "?h = prune_attempts now (snd (admitsLocked now h))"
    using assms by (auto simp: availableForNewFlows_def Let_def case_prod_beta split: if_splits)
  have same: "snd (admitsLocked now h) = h"
    using assms available_iff [of now h]
    by (auto simp: admitsLocked_def admitsLeaseLocked_def set_lease_def Let_def split: if_splits)
  have "pruned now (prune_attempts now h) = pruned now h" by (simp add: prune_attempts_def)
  then show ?thesis
    using assms unfolding available_iff h same
    by (simp add: admitsLocked_def admitsLeaseLocked_def prune_attempts_def Let_def)
qed

lemma sg_out_close [simp]: "sg_out (close_if_moved now g) = sg_out g"
  by (simp add: close_if_moved_def split: option.splits)

lemma member_available_again:
  "fst (member_available m now g) \<Longrightarrow> fst (availableForNewFlows now (sg_out (snd (member_available m now g)) m))"
  using available_again by (simp add: member_available_def set_out_def case_prod_beta)

lemma select_loop_available:
  "fst (select_loop env i ms g) = Some m \<Longrightarrow>
   fst (availableForNewFlows (ge_select env m) (sg_out (snd (select_loop env i ms g)) m))"
proof (induction ms arbitrary: i g)
  case (Cons k ms)
  then show ?case
    by (auto simp: select_loop_Cons member_available_again simp del: select_loop.simps(2) split: if_splits)
qed simp

text \<open>The member that selection returns can take a new connection at the instant it was asked.\<close>

lemma Selected_available:
  assumes "Selected env g = (Some m, g')"
  shows "\<exists>now \<in> {ge_sticky env, ge_select env m}. fst (availableForNewFlows now (sg_out g' m))"
proof (cases "fst (sticky env (g\<lparr>sg_evaluated := True\<rparr>))")
  case True
  let ?g = "g\<lparr>sg_evaluated := True\<rparr>"
  from True obtain k where k: "member_at ?g = Some k" "sticky env ?g = member_available k (ge_sticky env) ?g"
    by (auto simp: sticky_def split: option.splits if_splits)
  have "k = m" "g' = close_if_moved (ge_close env) (snd (sticky env ?g))"
    using assms True k(1) by (auto simp: Selected_eq Let_def sticky_sel)
  then show ?thesis using member_available_again [of m "ge_sticky env" ?g] True k(2) by simp
next
  case False
  then show ?thesis using assms select_loop_available by (auto simp: Selected_eq Let_def)
qed

text \<open>Checks of admission and availability leave the relays of an outbound alone.\<close>

definition relays_kept :: "(ref \<Rightarrow> smart) \<Rightarrow> (ref \<Rightarrow> smart) \<Rightarrow> bool" where
  "relays_kept out out' = (\<forall>l. so_relayStates (out' l) = so_relayStates (out l) \<and> so_relays (out' l) = so_relays (out l))"

lemma relays_kept_refl [simp]: "relays_kept out out"
  by (simp add: relays_kept_def)

lemma relays_kept_trans: "relays_kept a b \<Longrightarrow> relays_kept b c \<Longrightarrow> relays_kept a c"
  by (simp add: relays_kept_def)

lemma available_relays: "relays_kept (sg_out g) (sg_out (snd (member_available m now g)))"
  by (auto simp: relays_kept_def member_available_def set_out_def case_prod_beta availableForNewFlows_def Let_def
      admitsLocked_def frame_simps)

lemma select_loop_relays: "relays_kept (sg_out g) (sg_out (snd (select_loop env i ms g)))"
  by (induction ms arbitrary: i g)
    (auto simp: select_loop_Cons simp del: select_loop.simps(2) intro: available_relays relays_kept_trans [OF available_relays])

lemma sticky_relays: "relays_kept (sg_out g) (sg_out (snd (sticky env g)))"
  by (auto simp: sticky_def available_relays split: option.splits)

lemma Selected_relays: "relays_kept (sg_out g) (sg_out (snd (Selected env g)))"
  using relays_kept_trans [OF sticky_relays select_loop_relays, of "g\<lparr>sg_evaluated := True\<rparr>"]
    sticky_relays [of "g\<lparr>sg_evaluated := True\<rparr>" env]
  by (simp add: Selected_eq Let_def)

lemma match_selected:
  assumes "wr_window r = Some w" "dr_allItems (wr_rule r) \<noteq> []" "\<not> wr_invert r"
    and "windowed_match e t r m W = (True, m', r', W')"
  shows "\<exists>W1. wo_groups W1 = wo_groups W \<and> relays_kept (wo_out W) (wo_out W1) \<and> window_selected (mt_group t) w W1 = (True, W') \<and>
    (cw_leaseID w \<noteq> [] \<longrightarrow> cw_lease w \<noteq> None)"
proof -
  obtain W1 where act: "window_active (mt_current t) (mt_admits t) w W = (True, w, W1)"
    using match_active [OF assms(1), of e t m W] active_current [of "mt_current t" "mt_admits t" w W]
      active_window [of "mt_current t" "mt_admits t" w W] assms(4)
    by (metis fst_conv prod.collapse snd_conv)
  have "wo_groups W1 = wo_groups W" "relays_kept (wo_out W) (wo_out W1)" "cw_leaseID w \<noteq> [] \<longrightarrow> cw_lease w \<noteq> None"
    using act
    by (auto simp: window_active_def AdmitsNewFlows_def admitsLocked_def relays_kept_def frame_simps
        dest!: arg_cong [where f = snd] split: prod.splits bool.splits option.splits if_splits)
  moreover have "window_selected (mt_group t) w W1 = (True, W')"
    using assms(2-4) by (auto simp: windowed_match_def assms(1) act Let_def split: prod.splits if_splits)
  ultimately show ?thesis by blast
qed


definition service_window :: catalog_window where
  "service_window = demo_window\<lparr>cw_leaseID := replicate 32 (CHR ''a''), cw_lease := Some 0, cw_leaseGroup := Some 0\<rparr>"

definition service_rule :: windowed_rule where
  "service_rule = demo_windowed\<lparr>wr_window := Some service_window\<rparr>"

definition service_world :: catalog_world where
  "service_world = \<lparr>wo_out = (\<lambda>_. demo_smart), wo_groups = [0 \<mapsto> demo_group]\<rparr>"

lemma demo_selected:
  assumes "sg_out g = (\<lambda>_. demo_smart)" "member_at g = Some 0" "sg_dnsFailed g = {}"
  shows "fst (Selected demo_env g) = Some 0"
proof -
  have "fst (availableForNewFlows demo_load demo_smart)"
    using demo_admits admit_iff available_iff
    by (auto simp: demo_relays relay_blocked_def new_relay_state_def)
  then have "fst (sticky demo_env (g\<lparr>sg_evaluated := True\<rparr>))"
    using assms by (auto simp: sticky_def member_at_def available_result demo_env_def split: if_splits)
  moreover have "member_at (snd (sticky demo_env (g\<lparr>sg_evaluated := True\<rparr>))) = Some 0"
    using assms(2) by (auto simp: sticky_sel member_at_def split: if_splits)
  ultimately show ?thesis by (simp add: Selected_eq Let_def)
qed

lemma service_rule_matches:
  "fst (windowed_match demo_rule_env (demo_times demo_load) service_rule demo_ctx service_world)"
proof -
  have "fst (rule_match_inner demo_rule_env demo_windowed demo_ctx)" by code_simp
  then have "fst (rule_match_inner demo_rule_env service_rule demo_ctx)" by (simp add: rule_match_inner_def service_rule_def)
  then obtain m1 where inner: "rule_match_inner demo_rule_env service_rule demo_ctx = (True, m1)" by (metis prod.collapse)
  have w: "wr_window service_rule = Some service_window" "wr_sets service_rule = None" "\<not> wr_invert service_rule"
    "dr_allItems (wr_rule service_rule) \<noteq> []" by (simp_all add: service_rule_def demo_windowed_def name_rule_def)
  have adm: "AdmitsNewFlows demo_load demo_smart = (True, demo_smart)"
    using demo_admits admit_iff [of demo_load 5 demo_smart]
    by (auto simp: AdmitsNewFlows_def admitsLocked_def admitsLeaseLocked_def set_lease_def Let_def split: if_splits)
  have "catalogCurrent demo_load service_window = (True, service_window)"
    by (simp add: catalogCurrent_def service_window_def demo_window_def demo_load_def time_before_def second_def)
  then have act: "window_active demo_load demo_load service_window service_world = (True, service_window, service_world)"
    by (simp add: window_active_def service_window_def service_world_def adm fun_eq_iff)
  have "fst (Selected demo_env (demo_group\<lparr>sg_out := \<lambda>_. demo_smart\<rparr>)) = Some 0"
    by (rule demo_selected) (simp_all add: demo_group_def ServiceLeaseGroup_def demo_smart_leases member_at_def)
  then have "fst (window_selected demo_env service_window service_world)"
    by (simp add: window_selected_def on_group_def service_window_def service_world_def case_prod_beta)
  then obtain W where "window_selected demo_env service_window service_world = (True, W)" by (metis prod.collapse)
  then show ?thesis by (simp add: windowed_match_def w inner demo_times_def act)
qed


end
